(* ===== verification/Prelude.thy ===== *)
theory Prelude
  imports Main "HOL-Library.Word" "HOL-Library.Multiset" "HOL-Library.Sublist"
begin

text \<open>
  Shared vocabulary of the development: the machine types of the Go code, the
  collections of rewrite rules that the component theories fill, the byte/string
  conversions, and the generic lemmas on lists used as unordered tables.
  A Go \<open>string\<close> is a sequence of bytes and is modelled by the HOL type
  \<open>string\<close> (a HOL character is one byte); a Go \<open>[]byte\<close> is a list of
  8-bit words.
\<close>

type_synonym byte = "8 word"
type_synonym uint32 = "32 word"
type_synonym uint64 = "64 word"

named_theorems trim_simps "strings on which the Go trimming functions do nothing"
named_theorems codec_simps "lengths and round trips of the byte encodings"
named_theorems table_simps "lookups in tables after an update"
named_theorems wf_intros "operations that keep a well-formedness invariant"

section \<open>Bytes and strings\<close>

definition bytes_of_string :: "string \<Rightarrow> byte list" where
  "bytes_of_string s = map (\<lambda>c. word_of_nat (of_char c)) s"

definition string_of_bytes :: "byte list \<Rightarrow> string" where
  "string_of_bytes bs = map (\<lambda>b. char_of (unat b)) bs"

lemma length_bytes_of_string [simp]: "length (bytes_of_string s) = length s"
  by (simp add: bytes_of_string_def)

lemma bytes_of_string_Nil [simp]: "bytes_of_string s = [] \<longleftrightarrow> s = []"
  by (simp add: bytes_of_string_def)

lemma string_of_bytes_of_string [codec_simps]:
  "string_of_bytes (bytes_of_string s) = s"
proof -
  have "char_of (unat (word_of_nat (of_char c) :: byte)) = c" for c
    by (simp add: unat_of_nat of_char_mod_256)
  then show ?thesis
    by (simp add: string_of_bytes_def bytes_of_string_def comp_def)
qed

lemma bytes_of_string_inj: "bytes_of_string s = bytes_of_string t \<longleftrightarrow> s = t"
  by (metis string_of_bytes_of_string)

section \<open>Lists as unordered tables\<close>

text \<open>
  A table is a list of rows. \<open>lookup_by key k rows\<close> is the row a query
  \<open>WHERE key = k\<close> on a unique column returns.
\<close>

definition lookup_by :: "('r \<Rightarrow> 'k) \<Rightarrow> 'k \<Rightarrow> 'r list \<Rightarrow> 'r option" where
  "lookup_by key k rows = List.find (\<lambda>r. key r = k) rows"

definition unique_by :: "('r \<Rightarrow> 'k) \<Rightarrow> 'r list \<Rightarrow> bool" where
  "unique_by key rows \<longleftrightarrow> distinct (map key rows)"

lemma lookup_by_Nil [simp]: "lookup_by key k [] = None"
  by (simp add: lookup_by_def)

lemma lookup_by_Cons [simp]:
  "lookup_by key k (r # rows) = (if key r = k then Some r else lookup_by key k rows)"
  by (simp add: lookup_by_def)

lemma lookup_by_SomeD: "lookup_by key k rows = Some r \<Longrightarrow> r \<in> set rows \<and> key r = k"
  by (induction rows) (auto split: if_splits)

lemma lookup_by_None_iff: "lookup_by key k rows = None \<longleftrightarrow> (\<forall>r\<in>set rows. key r \<noteq> k)"
  by (induction rows) auto

lemma lookup_by_unique:
  "unique_by key rows \<Longrightarrow> r \<in> set rows \<Longrightarrow> lookup_by key (key r) rows = Some r"
  by (induction rows) (auto simp: unique_by_def)

lemma lookup_by_snoc [table_simps]:
  "lookup_by key k (rows @ [r]) =
     (case lookup_by key k rows of Some x \<Rightarrow> Some x | None \<Rightarrow> if key r = k then Some r else None)"
  by (induction rows) auto

lemma lookup_by_filter_neq [table_simps]:
  "lookup_by key k (filter (\<lambda>r. key r \<noteq> k) rows) = None"
  by (induction rows) auto

lemma lookup_by_filter_other:
  "(\<And>r. r \<in> set rows \<Longrightarrow> key r = k \<Longrightarrow> P r) \<Longrightarrow>
   lookup_by key k (filter P rows) = lookup_by key k rows"
  by (induction rows) auto

lemma unique_by_filter [intro]: "unique_by key rows \<Longrightarrow> unique_by key (filter P rows)"
  by (simp add: unique_by_def distinct_map_filter)

lemma unique_by_snoc [simp]:
  "unique_by key (rows @ [r]) \<longleftrightarrow> unique_by key rows \<and> lookup_by key (key r) rows = None"
  by (auto simp: unique_by_def lookup_by_None_iff image_iff dest: sym)

lemma unique_by_Nil [simp]: "unique_by key []"
  by (simp add: unique_by_def)

lemma unique_by_map_same:
  "(\<And>r. r \<in> set rows \<Longrightarrow> key (f r) = key r) \<Longrightarrow> unique_by key (map f rows) = unique_by key rows"
  by (simp add: unique_by_def comp_def cong: map_cong)

lemma lookup_by_map_same:
  "(\<And>r. r \<in> set rows \<Longrightarrow> key (f r) = key r) \<Longrightarrow>
   lookup_by key k (map f rows) = map_option f (lookup_by key k rows)"
  by (induction rows) auto

lemma filter_unique_by:
  "unique_by key rows \<Longrightarrow> r \<in> set rows \<Longrightarrow> key r = k \<Longrightarrow> filter (\<lambda>x. key x = k) rows = [r]"
proof (induction rows)
  case (Cons a rows)
  then show ?case
    by (cases "key a = k") (auto simp: unique_by_def filter_empty_conv image_iff)
qed simp

section \<open>State machines\<close>

text \<open>
  A step relation with an invariant that every step keeps. Components state their steps
  as \<open>inductive\<close> relations and interpret this locale on them.
\<close>

locale step_invariant =
  fixes step :: "'s \<Rightarrow> 's \<Rightarrow> bool" and inv :: "'s \<Rightarrow> bool"
  assumes step_keeps: "step s t \<Longrightarrow> inv s \<Longrightarrow> inv t"
begin

lemma steps_keep: "step\<^sup>*\<^sup>* s t \<Longrightarrow> inv s \<Longrightarrow> inv t"
  by (induction rule: rtranclp_induct) (auto intro: step_keeps)

end

locale reachable_invariant = step_invariant +
  fixes start :: "'s \<Rightarrow> bool"
  assumes start_inv: "start s \<Longrightarrow> inv s"
begin

lemma reachable_inv: "start s \<Longrightarrow> step\<^sup>*\<^sup>* s t \<Longrightarrow> inv t"
  using steps_keep start_inv by blast

end

end
