(* ===== verification/Go_Strings.thy ===== *)
theory Go_Strings
  imports Prelude
begin

text \<open>
  The parts of Go's standard library that the server calls on strings:
  \<open>strings.TrimSpace\<close>, \<open>strings.Trim\<close>, \<open>strings.Split\<close>, \<open>strings.Join\<close>,
  and \<open>strings.ToLower\<close> (with UTF-8 decoding and encoding).
  The Unicode lower-case table for code points above 127 is an argument of
  \<open>ToLower\<close>: nothing below depends on its contents.
\<close>

section \<open>Trimming\<close>

text \<open>
  \<open>unicode.IsSpace\<close> holds of U+0009 to U+000D, U+0020, U+0085, U+00A0, U+1680,
  U+2000 to U+200A, U+2028, U+2029, U+202F, U+205F and U+3000. These are their UTF-8
  encodings; no encoding is a prefix or a suffix of another.
\<close>

definition ascii_spaces :: "string list" where
  "ascii_spaces = [[CHR 0x09], [CHR 0x0A], [CHR 0x0B], [CHR 0x0C], [CHR 0x0D], [CHR 0x20]]"

definition space_encodings :: "string list" where
  "space_encodings = ascii_spaces
     @ [[CHR 0xC2, CHR 0x85], [CHR 0xC2, CHR 0xA0], [CHR 0xE1, CHR 0x9A, CHR 0x80]]
     @ map (\<lambda>c. [CHR 0xE2, CHR 0x80, c])
         [CHR 0x80, CHR 0x81, CHR 0x82, CHR 0x83, CHR 0x84, CHR 0x85, CHR 0x86, CHR 0x87,
          CHR 0x88, CHR 0x89, CHR 0x8A, CHR 0xA8, CHR 0xA9, CHR 0xAF]
     @ [[CHR 0xE2, CHR 0x81, CHR 0x9F], [CHR 0xE3, CHR 0x80, CHR 0x80]]"

fun strip_prefix :: "'a list \<Rightarrow> 'a list \<Rightarrow> 'a list option" where
  "strip_prefix [] s = Some s"
| "strip_prefix (p # ps) [] = None"
| "strip_prefix (p # ps) (c # cs) = (if p = c then strip_prefix ps cs else None)"

fun first_some :: "('a \<Rightarrow> 'b option) \<Rightarrow> 'a list \<Rightarrow> 'b option" where
  "first_some f [] = None"
| "first_some f (x # xs) = (case f x of None \<Rightarrow> first_some f xs | Some y \<Rightarrow> Some y)"

function strip_all :: "'a list list \<Rightarrow> 'a list \<Rightarrow> 'a list" where
  "strip_all encs s =
     (case first_some (\<lambda>e. strip_prefix e s) encs of
        None \<Rightarrow> s
      | Some r \<Rightarrow> if length r < length s then strip_all encs r else s)"
  by pat_completeness auto
termination
  by (relation "measure (\<lambda>(encs, s). length s)") auto

declare strip_all.simps [simp del]

definition TrimLeftSpace :: "string \<Rightarrow> string" where
  "TrimLeftSpace s = strip_all space_encodings s"

definition TrimRightSpace :: "string \<Rightarrow> string" where
  "TrimRightSpace s = rev (strip_all (map rev space_encodings) (rev s))"

definition TrimSpace :: "string \<Rightarrow> string" where
  "TrimSpace s = TrimRightSpace (TrimLeftSpace s)"

text \<open>\<open>strings.Trim(s, ".")\<close>: a cutset of one ASCII character.\<close>

definition TrimChar :: "char \<Rightarrow> string \<Rightarrow> string" where
  "TrimChar c s = rev (dropWhile ((=) c) (rev (dropWhile ((=) c) s)))"

section \<open>Splitting and joining\<close>

text \<open>\<open>strings.Split\<close> with a separator of one byte: always at least one part.\<close>

fun Split :: "char \<Rightarrow> string \<Rightarrow> string list" where
  "Split c [] = [[]]"
| "Split c (x # xs) =
     (if x = c then [] # Split c xs
      else case Split c xs of [] \<Rightarrow> [[x]] | p # ps \<Rightarrow> (x # p) # ps)"

fun Join :: "string \<Rightarrow> string list \<Rightarrow> string" where
  "Join sep [] = []"
| "Join sep [p] = p"
| "Join sep (p # q # ps) = p @ sep @ Join sep (q # ps)"

section \<open>UTF-8 and lower case\<close>

definition rune_error :: nat where
  "rune_error = 0xFFFD"

definition byte_val :: "char \<Rightarrow> nat" where
  "byte_val c = of_char c"

definition is_cont :: "char \<Rightarrow> bool" where
  "is_cont c \<longleftrightarrow> 0x80 \<le> byte_val c \<and> byte_val c \<le> 0xBF"

text \<open>
  \<open>utf8.DecodeRuneInString\<close>: the rune and the number of bytes it occupies; a byte
  sequence that is not the shortest encoding of a scalar value gives
  \<open>(RuneError, 1)\<close>. The second-byte ranges exclude overlong encodings,
  surrogates and values above U+10FFFF.
\<close>

definition second_range :: "nat \<Rightarrow> nat \<times> nat" where
  "second_range b0 =
     (if b0 = 0xE0 then (0xA0, 0xBF) else if b0 = 0xED then (0x80, 0x9F)
      else if b0 = 0xF0 then (0x90, 0xBF) else if b0 = 0xF4 then (0x80, 0x8F)
      else (0x80, 0xBF))"

definition second_ok :: "char \<Rightarrow> char \<Rightarrow> bool" where
  "second_ok c0 c1 \<longleftrightarrow>
     (case second_range (byte_val c0) of (lo, hi) \<Rightarrow> lo \<le> byte_val c1 \<and> byte_val c1 \<le> hi)"

definition decode_rune :: "char \<Rightarrow> string \<Rightarrow> nat \<times> nat" where
  "decode_rune c0 rest =
     (let b0 = byte_val c0 in
      if b0 < 0x80 then (b0, 1)
      else if 0xC2 \<le> b0 \<and> b0 \<le> 0xDF then
        (case rest of c1 # _ \<Rightarrow>
           if second_ok c0 c1 then ((b0 - 0xC0) * 64 + (byte_val c1 - 0x80), 2) else (rune_error, 1)
         | _ \<Rightarrow> (rune_error, 1))
      else if 0xE0 \<le> b0 \<and> b0 \<le> 0xEF then
        (case rest of c1 # c2 # _ \<Rightarrow>
           if second_ok c0 c1 \<and> is_cont c2
           then ((b0 - 0xE0) * 4096 + (byte_val c1 - 0x80) * 64 + (byte_val c2 - 0x80), 3)
           else (rune_error, 1)
         | _ \<Rightarrow> (rune_error, 1))
      else if 0xF0 \<le> b0 \<and> b0 \<le> 0xF4 then
        (case rest of c1 # c2 # c3 # _ \<Rightarrow>
           if second_ok c0 c1 \<and> is_cont c2 \<and> is_cont c3
           then ((b0 - 0xF0) * 262144 + (byte_val c1 - 0x80) * 4096
                 + (byte_val c2 - 0x80) * 64 + (byte_val c3 - 0x80), 4)
           else (rune_error, 1)
         | _ \<Rightarrow> (rune_error, 1))
      else (rune_error, 1))"

text \<open>\<open>range\<close> over a string: the decoded runes in order.\<close>

function decode_runes :: "string \<Rightarrow> nat list" where
  "decode_runes [] = []"
| "decode_runes (c # cs) =
     (case decode_rune c cs of (r, w) \<Rightarrow> r # decode_runes (drop (w - 1) cs))"
  by pat_completeness auto
termination
  by (relation "measure length") auto

text \<open>\<open>utf8.AppendRune\<close>: surrogates and values above U+10FFFF are written as U+FFFD.\<close>

definition encode_rune :: "nat \<Rightarrow> string" where
  "encode_rune r0 =
     (let r = (if r0 > 0x10FFFF \<or> (0xD800 \<le> r0 \<and> r0 \<le> 0xDFFF) then rune_error else r0) in
      if r < 0x80 then [char_of r]
      else if r < 0x800 then [char_of (0xC0 + r div 64), char_of (0x80 + r mod 64)]
      else if r < 0x10000 then
        [char_of (0xE0 + r div 4096), char_of (0x80 + r div 64 mod 64), char_of (0x80 + r mod 64)]
      else [char_of (0xF0 + r div 262144), char_of (0x80 + r div 4096 mod 64),
            char_of (0x80 + r div 64 mod 64), char_of (0x80 + r mod 64)])"

definition lower_rune :: "(nat \<Rightarrow> nat) \<Rightarrow> nat \<Rightarrow> nat" where
  "lower_rune table r =
     (if r < 0x80 then if 65 \<le> r \<and> r \<le> 90 then r + 32 else r else table r)"

definition lower_ascii :: "char \<Rightarrow> char" where
  "lower_ascii c = (if 65 \<le> byte_val c \<and> byte_val c \<le> 90 then char_of (byte_val c + 32) else c)"

text \<open>
  \<open>strings.ToLower\<close>: a byte-wise pass for ASCII strings, otherwise
  \<open>strings.Map(unicode.ToLower, s)\<close>, which re-encodes every rune.
\<close>

definition ToLower :: "(nat \<Rightarrow> nat) \<Rightarrow> string \<Rightarrow> string" where
  "ToLower table s =
     (if list_all (\<lambda>c. byte_val c < 0x80) s then map lower_ascii s
      else concat (map (\<lambda>r. encode_rune (lower_rune table r)) (decode_runes s)))"

section \<open>Laws of trimming\<close>

lemma strip_prefix_Some_iff: "strip_prefix p s = Some r \<longleftrightarrow> s = p @ r"
  by (induction p s rule: strip_prefix.induct) auto

lemma strip_prefix_None_iff: "strip_prefix p s = None \<longleftrightarrow> \<not> prefix p s"
  by (induction p s rule: strip_prefix.induct) auto

lemma first_some_None_iff: "first_some f xs = None \<longleftrightarrow> (\<forall>x\<in>set xs. f x = None)"
  by (induction xs) (auto split: option.splits)

lemma first_some_SomeD: "first_some f xs = Some y \<Longrightarrow> \<exists>x\<in>set xs. f x = Some y"
  by (induction xs) (auto split: option.splits)

lemma strip_all_id: "\<forall>e\<in>set encs. \<not> prefix e s \<Longrightarrow> strip_all encs s = s"
  by (subst strip_all.simps)
     (metis (mono_tags, lifting) first_some_None_iff option.simps(4) strip_prefix_None_iff)

lemma strip_all_suffix: "\<exists>p. s = p @ strip_all encs s"
proof (induction encs s rule: strip_all.induct)
  case (1 encs s)
  show ?case
  proof (cases "first_some (\<lambda>e. strip_prefix e s) encs")
    case None
    then show ?thesis by (simp add: strip_all.simps [of encs s])
  next
    case (Some r)
    then obtain e where s: "s = e @ r"
      by (auto dest!: first_some_SomeD simp: strip_prefix_Some_iff)
    show ?thesis
    proof (cases "length r < length s")
      case True
      with 1 Some obtain p where "r = p @ strip_all encs r" by blast
      with s have "s = (e @ p) @ strip_all encs r" by simp
      moreover from True Some have "strip_all encs s = strip_all encs r"
        by (simp add: strip_all.simps [of encs s])
      ultimately show ?thesis by metis
    next
      case False
      with Some show ?thesis by (simp add: strip_all.simps [of encs s])
    qed
  qed
qed

lemma strip_all_clean:
  "[] \<notin> set encs \<Longrightarrow> e \<in> set encs \<Longrightarrow> \<not> prefix e (strip_all encs s)"
proof (induction encs s rule: strip_all.induct)
  case (1 encs s)
  show ?case
  proof (cases "first_some (\<lambda>e. strip_prefix e s) encs")
    case None
    then have "strip_all encs s = s" by (simp add: strip_all.simps [of encs s])
    with None "1.prems" show ?thesis
      by (simp add: first_some_None_iff strip_prefix_None_iff)
  next
    case (Some r)
    then obtain e' where "e' \<in> set encs" and "s = e' @ r"
      by (auto dest!: first_some_SomeD simp: strip_prefix_Some_iff)
    with "1.prems" have "length r < length s" by (cases e') auto
    with 1 Some show ?thesis by (simp add: strip_all.simps [of encs s])
  qed
qed

lemma strip_all_idem: "[] \<notin> set encs \<Longrightarrow> strip_all encs (strip_all encs s) = strip_all encs s"
  by (simp add: strip_all_id strip_all_clean)

text \<open>Characters that are neither a space nor part of the encoding of one.\<close>

definition plain_char :: "char \<Rightarrow> bool" where
  "plain_char c \<longleftrightarrow> 0x21 \<le> byte_val c \<and> byte_val c \<le> 0x7E"

lemma space_encodings_ends:
  "e \<in> set space_encodings \<Longrightarrow> e \<noteq> [] \<and> \<not> plain_char (hd e) \<and> \<not> plain_char (last e)"
  by (auto simp: space_encodings_def ascii_spaces_def plain_char_def byte_val_def)

lemma space_encodings_nonempty: "[] \<notin> set space_encodings" "[] \<notin> set (map rev space_encodings)"
  using space_encodings_ends by auto

lemma TrimLeftSpace_clean: "e \<in> set space_encodings \<Longrightarrow> \<not> prefix e (TrimLeftSpace s)"
  by (simp add: TrimLeftSpace_def strip_all_clean space_encodings_nonempty)

lemma TrimRightSpace_prefix: "prefix (TrimRightSpace s) s"
proof -
  obtain p where "rev s = p @ strip_all (map rev space_encodings) (rev s)"
    using strip_all_suffix by blast
  then have "s = rev (strip_all (map rev space_encodings) (rev s)) @ rev p"
    by (metis rev_append rev_rev_ident)
  then show ?thesis by (metis TrimRightSpace_def prefixI)
qed

lemma TrimLeftSpace_id:
  "(\<And>e. e \<in> set space_encodings \<Longrightarrow> \<not> prefix e s) \<Longrightarrow> TrimLeftSpace s = s"
  by (simp add: TrimLeftSpace_def strip_all_id)

lemma TrimRightSpace_idem: "TrimRightSpace (TrimRightSpace s) = TrimRightSpace s"
  by (simp only: TrimRightSpace_def rev_rev_ident strip_all_idem [OF space_encodings_nonempty(2)])

lemma TrimSpace_idem [simp]: "TrimSpace (TrimSpace s) = TrimSpace s"
proof -
  have "\<not> prefix e (TrimSpace s)" if "e \<in> set space_encodings" for e
    using TrimLeftSpace_clean [OF that] TrimRightSpace_prefix
    unfolding TrimSpace_def by (meson prefix_order.trans)
  then have "TrimLeftSpace (TrimSpace s) = TrimSpace s" by (rule TrimLeftSpace_id)
  then show ?thesis by (simp add: TrimSpace_def TrimRightSpace_idem)
qed

lemma TrimSpace_ends:
  assumes "plain_char (hd s)" and "plain_char (last s)"
  shows "TrimSpace s = s"
proof -
  have "\<not> prefix e s" if "e \<in> set space_encodings" for e
    using space_encodings_ends [OF that] assms by (cases e; cases s) auto
  then have left: "TrimLeftSpace s = s" by (rule TrimLeftSpace_id)
  have "\<not> prefix e (rev s)" if "e \<in> set (map rev space_encodings)" for e
  proof
    assume "prefix e (rev s)"
    from that obtain e' where e': "e' \<in> set space_encodings" "e = rev e'" by auto
    with \<open>prefix e (rev s)\<close> obtain p where "s = p @ e'"
      by (metis prefix_def rev_append rev_rev_ident)
    with space_encodings_ends [OF e'(1)] assms show False by auto
  qed
  then have "strip_all (map rev space_encodings) (rev s) = rev s"
    by (simp add: strip_all_id)
  then show ?thesis by (simp add: TrimSpace_def TrimRightSpace_def left)
qed

lemma TrimSpace_Nil [simp]: "TrimSpace [] = []"
proof -
  have "prefix e [] = False" if "e \<in> set space_encodings" for e
    using that space_encodings_nonempty by auto
  then show ?thesis
    using space_encodings_nonempty
    by (simp add: TrimSpace_def TrimLeftSpace_id TrimRightSpace_def strip_all_id image_iff)
qed

lemma TrimSpace_plain [trim_simps]: "list_all plain_char s \<Longrightarrow> TrimSpace s = s"
  by (cases "s = []") (auto intro!: TrimSpace_ends simp: list_all_iff)

section \<open>Laws of splitting, joining and lower-casing\<close>

lemma Split_not_Nil [simp]: "Split c s \<noteq> []"
  by (induction s) (auto split: list.splits)

lemma Join_Cons: "ps \<noteq> [] \<Longrightarrow> Join sep (p # ps) = p @ sep @ Join sep ps"
  by (cases ps) auto

lemma Join_Split: "Join [c] (Split c s) = s"
proof (induction s)
  case Nil
  then show ?case by simp
next
  case (Cons x xs)
  then show ?case
  proof (cases "x = c")
    case True
    with Cons show ?thesis by (simp add: Join_Cons)
  next
    case False
    obtain p ps where "Split c xs = p # ps" by (cases "Split c xs") auto
    with False Cons show ?thesis by (cases ps) auto
  qed
qed

lemma Split_no_sep: "c \<notin> set s \<Longrightarrow> Split c s = [s]"
  by (induction s) auto

lemma Split_append_sep: "c \<notin> set p \<Longrightarrow> Split c (p @ c # s) = p # Split c s"
  by (induction p) auto

lemma Split_Join:
  "ps \<noteq> [] \<Longrightarrow> \<forall>p\<in>set ps. c \<notin> set p \<Longrightarrow> Split c (Join [c] ps) = ps"
proof (induction ps rule: induct_list012)
  case (3 p q ps)
  then show ?case by (simp add: Split_append_sep)
qed (auto simp: Split_no_sep)

lemma Split_part_subset: "p \<in> set (Split c s) \<Longrightarrow> set p \<subseteq> set s"
proof (induction s arbitrary: p)
  case (Cons x xs)
  obtain q qs where q: "Split c xs = q # qs" by (cases "Split c xs") auto
  then have IH: "p \<in> set (q # qs) \<Longrightarrow> set p \<subseteq> set xs" for p
    using Cons.IH by simp
  show ?case
  proof (cases "p \<in> set (q # qs)")
    case True
    then show ?thesis using IH by auto
  next
    case False
    with Cons.prems q have "p = [] \<or> p = x # q" by (auto split: if_splits)
    then show ?thesis using IH [of q] by auto
  qed
qed simp

lemma Split_part_no_sep: "p \<in> set (Split c s) \<Longrightarrow> c \<notin> set p"
  by (induction s arbitrary: p) (auto split: list.splits if_splits)

lemma Split_set:
  "set s = \<Union> (set ` set (Split c s)) \<union> (if c \<in> set s then {c} else {})"
proof (induction s)
  case (Cons x s)
  obtain p ps where ps: "Split c s = p # ps" by (cases "Split c s") auto
  then show ?case using Cons by (auto split: if_splits)
qed simp

lemma map_lower_ascii_id:
  "list_all (\<lambda>c. \<not> (65 \<le> byte_val c \<and> byte_val c \<le> 90)) s \<Longrightarrow> map lower_ascii s = s"
  by (induction s) (auto simp: lower_ascii_def)

lemma ToLower_id:
  assumes "list_all (\<lambda>c. byte_val c < 0x80 \<and> \<not> (65 \<le> byte_val c \<and> byte_val c \<le> 90)) s"
  shows "ToLower table s = s"
proof -
  have "list_all (\<lambda>c. byte_val c < 0x80) s"
    and "list_all (\<lambda>c. \<not> (65 \<le> byte_val c \<and> byte_val c \<le> 90)) s"
    using assms by (auto simp: list_all_iff)
  then show ?thesis by (simp add: ToLower_def map_lower_ascii_id)
qed

end
