(* ===== verification/Go_Codecs.thy ===== *)
theory Go_Codecs
  imports Go_Strings
begin

text \<open>
  The encodings the server uses: \<open>encoding/hex\<close> for session tokens and identifiers,
  \<open>encoding/base64\<close> (\<open>RawStdEncoding\<close>) for salts and password hashes, decimal
  numbers of \<open>fmt\<close>, \<open>net.JoinHostPort\<close>, and the big-endian integers of
  \<open>encoding/binary\<close> for frame headers. Each encoding is shown to be
  invertible; the locale \<open>partial_inverse\<close> turns that into injectivity.
\<close>

unbundle bit_operations_syntax

section \<open>Hexadecimal, decimal and base64\<close>

definition hex_digit :: "nat \<Rightarrow> char" where
  "hex_digit n = ''0123456789abcdef'' ! (n mod 16)"

fun hex_EncodeToString :: "byte list \<Rightarrow> string" where
  "hex_EncodeToString [] = []"
| "hex_EncodeToString (b # bs) =
     hex_digit (unat b div 16) # hex_digit (unat b mod 16) # hex_EncodeToString bs"

definition digit_char :: "nat \<Rightarrow> char" where
  "digit_char n = char_of (48 + n mod 10)"

text \<open>\<open>%d\<close> of an unsigned number.\<close>

fun decimal :: "nat \<Rightarrow> string" where
  "decimal n = (if n < 10 then [digit_char n] else decimal (n div 10) @ [digit_char (n mod 10)])"

declare decimal.simps [simp del]

definition b64_alphabet :: string where
  "b64_alphabet = ''ABCDEFGHIJKLMNOPQRSTUVWXYZabcdefghijklmnopqrstuvwxyz0123456789+/''"

definition b64_char :: "nat \<Rightarrow> char" where
  "b64_char n = b64_alphabet ! (n mod 64)"

text \<open>\<open>base64.RawStdEncoding\<close>: no padding characters.\<close>

fun b64_encode :: "byte list \<Rightarrow> string" where
  "b64_encode [] = []"
| "b64_encode [a] = [b64_char (unat a div 4), b64_char (unat a mod 4 * 16)]"
| "b64_encode [a, b] =
     [b64_char (unat a div 4), b64_char (unat a mod 4 * 16 + unat b div 16),
      b64_char (unat b mod 16 * 4)]"
| "b64_encode (a # b # c # rest) =
     b64_char (unat a div 4) # b64_char (unat a mod 4 * 16 + unat b div 16)
     # b64_char (unat b mod 16 * 4 + unat c div 64) # b64_char (unat c mod 64)
     # b64_encode rest"

fun index_of :: "'a \<Rightarrow> 'a list \<Rightarrow> nat option" where
  "index_of x [] = None"
| "index_of x (y # ys) = (if x = y then Some 0 else map_option Suc (index_of x ys))"

definition b64_value :: "char \<Rightarrow> nat option" where
  "b64_value c = index_of c b64_alphabet"

text \<open>
  \<open>DecodeString\<close> of the unpadded encoding: carriage returns and newlines are
  skipped, a character outside the alphabet and a single trailing character are
  errors (\<open>CorruptInputError\<close>), and the unused low bits of the last character
  are ignored (the encoding is not strict).
\<close>

fun b64_decode_sextets :: "nat list \<Rightarrow> byte list option" where
  "b64_decode_sextets [] = Some []"
| "b64_decode_sextets [a] = None"
| "b64_decode_sextets [a, b] = Some [word_of_nat (a * 4 + b div 16)]"
| "b64_decode_sextets [a, b, c] =
     Some [word_of_nat (a * 4 + b div 16), word_of_nat (b mod 16 * 16 + c div 4)]"
| "b64_decode_sextets (a # b # c # d # rest) =
     (case b64_decode_sextets rest of None \<Rightarrow> None
      | Some bs \<Rightarrow> Some (word_of_nat (a * 4 + b div 16) # word_of_nat (b mod 16 * 16 + c div 4)
                          # word_of_nat (c mod 4 * 64 + d) # bs))"

fun b64_values :: "string \<Rightarrow> nat list option" where
  "b64_values [] = Some []"
| "b64_values (c # cs) =
     (if c = CHR 0x0A \<or> c = CHR 0x0D then b64_values cs
      else case b64_value c of None \<Rightarrow> None | Some v \<Rightarrow> map_option ((#) v) (b64_values cs))"

definition b64_decode :: "string \<Rightarrow> byte list option" where
  "b64_decode s = Option.bind (b64_values s) b64_decode_sextets"

section \<open>Network addresses and big-endian integers\<close>

definition JoinHostPort :: "string \<Rightarrow> string \<Rightarrow> string" where
  "JoinHostPort host port =
     (if CHR '':'' \<in> set host then ''['' @ host @ '']:'' @ port else host @ '':'' @ port)"

definition PutUint32 :: "uint32 \<Rightarrow> byte list" where
  "PutUint32 v = [ucast (drop_bit 24 v), ucast (drop_bit 16 v), ucast (drop_bit 8 v), ucast v]"

definition Uint32 :: "byte \<Rightarrow> byte \<Rightarrow> byte \<Rightarrow> byte \<Rightarrow> uint32" where
  "Uint32 a b c d =
     ucast d OR push_bit 8 (ucast c) OR push_bit 16 (ucast b) OR push_bit 24 (ucast a)"

section \<open>An encoder with a decoder\<close>

locale partial_inverse =
  fixes enc :: "'a \<Rightarrow> 'b" and dec :: "'b \<Rightarrow> 'a option"
  assumes dec_enc: "dec (enc x) = Some x"
begin

lemma enc_inj: "enc x = enc y \<longleftrightarrow> x = y"
  by (metis dec_enc option.inject)

lemma enc_decodes: "enc x = y \<Longrightarrow> dec y = Some x"
  using dec_enc by blast

end

section \<open>Laws of the encodings\<close>

lemma nth_index_of: "distinct xs \<Longrightarrow> i < length xs \<Longrightarrow> index_of (xs ! i) xs = Some i"
proof (induction xs arbitrary: i)
  case (Cons x xs)
  then show ?case by (cases i) auto
qed simp

lemma b64_alphabet_props: "distinct b64_alphabet" "length b64_alphabet = 64"
  by (simp_all add: b64_alphabet_def)

lemma b64_value_char [simp]: "n < 64 \<Longrightarrow> b64_value (b64_char n) = Some n"
  by (simp add: b64_value_def b64_char_def nth_index_of b64_alphabet_props)

lemma b64_char_mem: "b64_char n \<in> set b64_alphabet"
  by (simp add: b64_char_def b64_alphabet_props)

lemma b64_alphabet_plain:
  "c \<in> set b64_alphabet \<Longrightarrow> c \<noteq> CHR 0x0A \<and> c \<noteq> CHR 0x0D \<and> c \<noteq> CHR ''$''"
  by (auto simp: b64_alphabet_def)

lemma b64_char_neq [simp]:
  "b64_char n \<noteq> CHR 0x0A" "b64_char n \<noteq> CHR 0x0D" "b64_char n \<noteq> CHR ''$''"
  using b64_alphabet_plain [OF b64_char_mem] by blast+

lemma b64_encode_set: "set (b64_encode bs) \<subseteq> set b64_alphabet"
  by (induction bs rule: b64_encode.induct) (auto simp: b64_char_mem)

lemma b64_encode_no_dollar [codec_simps]: "CHR ''$'' \<notin> set (b64_encode bs)"
  using b64_encode_set b64_alphabet_plain by blast

lemma unat_byte_bound: "unat (b :: byte) < 256"
  using unsigned_less [of b] by simp

lemma byte_split:
  "unat (b :: byte) div 4 < 64" "unat b div 16 < 16" "unat b div 64 < 4"
  using unat_byte_bound [of b] by (simp_all add: div_less_iff_less_mult)

lemma b64_values_encode:
  "\<exists>vs. b64_values (b64_encode bs) = Some vs \<and> b64_decode_sextets vs = Some bs"
proof (induction bs rule: b64_encode.induct)
  case (2 a)
  have "unat a mod 4 * 16 < 64" by (simp add: less_mult_imp_div_less)
  moreover have "word_of_nat (unat a div 4 * 4 + unat a mod 4 * 16 div 16) = a" by simp
  ultimately show ?case by (simp add: byte_split)
next
  case (3 a b)
  have lt: "unat a mod 4 * 16 + unat b div 16 < 64" "unat b mod 16 * 4 < 64"
    using byte_split(2) [of b] by auto
  have "(unat a mod 4 * 16 + unat b div 16) div 16 = unat a mod 4"
    and "(unat a mod 4 * 16 + unat b div 16) mod 16 = unat b div 16"
    using byte_split(2) [of b] by simp_all
  then show ?case using lt by (simp add: byte_split)
next
  case (4 a b c rest)
  then obtain vs where vs: "b64_values (b64_encode rest) = Some vs"
      "b64_decode_sextets vs = Some rest" by blast
  have lt: "unat a mod 4 * 16 + unat b div 16 < 64" "unat b mod 16 * 4 + unat c div 64 < 64"
    using byte_split(2) [of b] byte_split(3) [of c] by auto
  have "(unat a mod 4 * 16 + unat b div 16) div 16 = unat a mod 4"
    "(unat a mod 4 * 16 + unat b div 16) mod 16 = unat b div 16"
    "(unat b mod 16 * 4 + unat c div 64) div 4 = unat b mod 16"
    "(unat b mod 16 * 4 + unat c div 64) mod 4 = unat c div 64"
    using byte_split(2) [of b] byte_split(3) [of c] by simp_all
  then show ?case using lt vs by (simp add: byte_split)
qed simp

lemma b64_decode_encode [codec_simps]: "b64_decode (b64_encode bs) = Some bs"
  using b64_values_encode [of bs] by (auto simp: b64_decode_def)

interpretation b64: partial_inverse b64_encode b64_decode
  by unfold_locales (rule b64_decode_encode)

subsection \<open>Hexadecimal\<close>

definition hex_alphabet :: string where
  "hex_alphabet = ''0123456789abcdef''"

lemma hex_digit_nth: "hex_digit n = hex_alphabet ! (n mod 16)"
  by (simp add: hex_digit_def hex_alphabet_def)

lemma hex_alphabet_props: "distinct hex_alphabet" "length hex_alphabet = 16"
  by (simp_all add: hex_alphabet_def)

lemma hex_digit_mem: "hex_digit n \<in> set hex_alphabet"
  by (simp add: hex_digit_nth hex_alphabet_props)

lemma hex_alphabet_plain: "c \<in> set hex_alphabet \<Longrightarrow> plain_char c"
  by (auto simp: hex_alphabet_def plain_char_def byte_val_def)

lemma hex_digit_eq_iff: "m < 16 \<Longrightarrow> n < 16 \<Longrightarrow> hex_digit m = hex_digit n \<longleftrightarrow> m = n"
  by (simp add: hex_digit_nth hex_alphabet_props nth_eq_iff_index_eq)

lemma length_hex [codec_simps, simp]: "length (hex_EncodeToString bs) = 2 * length bs"
  by (induction bs) auto

lemma hex_plain: "list_all plain_char (hex_EncodeToString bs)"
  by (induction bs) (auto simp: hex_digit_mem hex_alphabet_plain)

lemma TrimSpace_hex [trim_simps]: "TrimSpace (hex_EncodeToString bs) = hex_EncodeToString bs"
  by (rule TrimSpace_plain [OF hex_plain])

fun hex_decode :: "string \<Rightarrow> byte list option" where
  "hex_decode [] = Some []"
| "hex_decode [c] = None"
| "hex_decode (c # d # cs) =
     (case (index_of c hex_alphabet, index_of d hex_alphabet, hex_decode cs) of
        (Some h, Some l, Some bs) \<Rightarrow> Some (word_of_nat (h * 16 + l) # bs)
      | _ \<Rightarrow> None)"

lemma hex_decode_encode: "hex_decode (hex_EncodeToString bs) = Some bs"
proof (induction bs)
  case (Cons b bs)
  have "index_of (hex_digit n) hex_alphabet = Some (n mod 16)" for n
    by (simp add: hex_digit_nth nth_index_of hex_alphabet_props)
  moreover have "unat b div 16 mod 16 = unat b div 16"
    using byte_split(2) [of b] by simp
  moreover have "word_of_nat (unat b div 16 * 16 + unat b mod 16) = b" by simp
  ultimately show ?case using Cons by (simp del: of_nat_add of_nat_mult)
qed simp

interpretation hex: partial_inverse hex_EncodeToString hex_decode
  by unfold_locales (rule hex_decode_encode)

subsection \<open>Decimal numbers\<close>

definition is_digit :: "char \<Rightarrow> bool" where
  "is_digit c \<longleftrightarrow> 48 \<le> byte_val c \<and> byte_val c \<le> 57"

definition digits_value :: "string \<Rightarrow> nat" where
  "digits_value s = foldl (\<lambda>n c. 10 * n + (byte_val c - 48)) 0 s"

lemma byte_val_digit_char [simp]: "byte_val (digit_char n) = 48 + n mod 10"
  by (simp add: byte_val_def digit_char_def)

lemma is_digit_digit_char [simp]: "is_digit (digit_char n)"
  by (simp add: is_digit_def)

lemma decimal_digits: "list_all is_digit (decimal n)"
proof (induction n rule: decimal.induct)
  case (1 n)
  then show ?case by (cases "n < 10") (simp_all add: decimal.simps [of n])
qed

lemma decimal_nonempty [simp]: "decimal n \<noteq> []"
  by (subst decimal.simps) simp

lemma digits_value_decimal [codec_simps]: "digits_value (decimal n) = n"
proof (induction n rule: decimal.induct)
  case (1 n)
  then show ?case
    by (cases "n < 10") (simp_all add: decimal.simps [of n] digits_value_def)
qed

interpretation dec: partial_inverse decimal "\<lambda>s. Some (digits_value s)"
  by unfold_locales (simp add: digits_value_decimal)

subsection \<open>Big-endian words\<close>

fun Uint32_of :: "byte list \<Rightarrow> uint32 option" where
  "Uint32_of [a, b, c, d] = Some (Uint32 a b c d)"
| "Uint32_of _ = None"

lemma length_PutUint32 [simp, codec_simps]: "length (PutUint32 v) = 4"
  by (simp add: PutUint32_def)

lemma Uint32_parts:
  "Uint32 (ucast (drop_bit 24 v)) (ucast (drop_bit 16 v)) (ucast (drop_bit 8 v)) (ucast v) = (v :: uint32)"
  unfolding Uint32_def
proof (rule bit_word_eqI)
  fix n :: nat
  assume "n < LENGTH(32)"
  then consider "n < 8" | "8 \<le> n \<and> n < 16" | "16 \<le> n \<and> n < 24" | "24 \<le> n \<and> n < 32"
    by fastforce
  then show "bit ((ucast (ucast v :: byte) :: uint32) OR push_bit 8 (ucast (ucast (drop_bit 8 v) :: byte))
      OR push_bit 16 (ucast (ucast (drop_bit 16 v) :: byte))
      OR push_bit 24 (ucast (ucast (drop_bit 24 v) :: byte))) n = bit v n"
    by cases (auto simp: bit_simps)
qed

lemma Uint32_of_PutUint32 [codec_simps]: "Uint32_of (PutUint32 v) = Some v"
  by (simp add: PutUint32_def Uint32_parts)

interpretation be32: partial_inverse PutUint32 Uint32_of
  by unfold_locales (rule Uint32_of_PutUint32)

end
