(* ===== verification/Errors.thy ===== *)
theory Errors
  imports Prelude
begin

text \<open>
  The Go error values of the server. Every package-level sentinel
  (\<open>errors.New\<close>) is a constructor of its own: Go compares sentinels by identity,
  and two packages each declare their own \<open>ErrMissingRequiredFields\<close>.
  \<open>Errorf msg e\<close> is \<open>fmt.Errorf\<close> with a \<open>%w\<close> operand, \<open>ErrorText msg\<close>
  a fresh error without one, and \<open>ExtError msg\<close> an error reported by code outside
  the repository (the database driver, the Redis client, QUIC, protobuf).
  \<open>errors_is\<close> and \<open>as_pg_code\<close> are \<open>errors.Is\<close> and the use of
  \<open>errors.As\<close> with \<open>*pgconn.PgError\<close>. The status codes of
  \<open>src/server/core/errors.go\<close> close the theory.
\<close>

datatype goerror =
    ErrDefaultRedisNotInitialized | ErrRedisAddrRequired | Cache_ErrMissingRequiredFields
  | ErrDefaultDBNotInitialized | ErrDatabaseURLRequired | DB_ErrMissingRequiredFields
  | ErrUserNotFound | ErrUsernameTaken | ErrUserTokenNotFound
  | ErrInvalidUsername | ErrInvalidCredentials | ErrInvalidToken | ErrAccountPendingDeletion
  | ErrPasswordRequired | ErrDeviceIDRequired | ErrSessionTokenNeeded
  | ErrAccountDeletionInProgress
  | ErrSessionRevoked
  | ErrResponseBodyRequired | ErrUpdateBodyRequired | ErrInvalidSequence
  | ErrNilQuicStream | ErrNilReader | ErrNilWriter | ErrFrameTooLarge
  | io_EOF | io_ErrUnexpectedEOF | io_ErrShortWrite
  | pgx_ErrNoRows | PgError string
  | ErrorText string
  | ExtError string
  | Errorf string goerror

type_synonym 'a result = "goerror + 'a"

fun errors_is :: "goerror \<Rightarrow> goerror \<Rightarrow> bool" where
  "errors_is (Errorf m e) t = (Errorf m e = t \<or> errors_is e t)"
| "errors_is e t = (e = t)"

fun as_pg_code :: "goerror \<Rightarrow> string option" where
  "as_pg_code (PgError code) = Some code"
| "as_pg_code (Errorf m e) = as_pg_code e"
| "as_pg_code e = None"

datatype PPStatusCode =
    ErrCodeOK
  | ErrCodeBadRequest | ErrCodeNotFound | ErrCodeInvalidParameters
  | ErrCodeUnauthorized | ErrCodeForbidden | ErrCodeInvalidCredentials
  | ErrCodeInvalidToken | ErrCodeUsernameTaken
  | ErrCodeInternal

fun status_value :: "PPStatusCode \<Rightarrow> uint32" where
  "status_value ErrCodeOK = 0"
| "status_value ErrCodeBadRequest = 1001"
| "status_value ErrCodeNotFound = 1002"
| "status_value ErrCodeInvalidParameters = 1003"
| "status_value ErrCodeUnauthorized = 2001"
| "status_value ErrCodeForbidden = 2002"
| "status_value ErrCodeInvalidCredentials = 2003"
| "status_value ErrCodeInvalidToken = 2004"
| "status_value ErrCodeUsernameTaken = 2005"
| "status_value ErrCodeInternal = 5001"

lemma errors_is_refl [simp]: "errors_is e e"
  by (cases e) auto

lemma status_value_inj: "status_value a = status_value b \<longleftrightarrow> a = b"
  by (cases a; cases b) simp_all

end
