(* ===== verification/Config.thy ===== *)
theory Config
  imports Go_Codecs Errors
begin

text \<open>
  The configuration, \<open>src/config/config.go\<close>: reading the environment, the listening
  address and the PostgreSQL URL. \<open>url.URL.String\<close> and \<open>url.Values.Encode\<close> are written
  out, with the escaping tables of \<open>net/url\<close>, for the fields the program sets. What
  \<open>tls.LoadX509KeyPair\<close> makes of the two files is an argument; a certificate is a number.
\<close>

section \<open>Reading the environment\<close>

record Config =
  QUICHost :: string
  QUICPort :: string
  TLSCertFile :: string
  TLSKeyFile :: string
  TLSALPN :: string
  LogFile :: string
  PostgresHost :: string
  PostgresPort :: string
  PostgresUser :: string
  PostgresPassword :: string
  PostgresDB :: string
  PostgresSSLMode :: string
  RedisAddr :: string

type_synonym environment = "string \<Rightarrow> string option"

definition getenv :: "environment \<Rightarrow> string \<Rightarrow> string" where
  "getenv env key = (case env key of None \<Rightarrow> '''' | Some v \<Rightarrow> v)"

definition read_config :: "environment \<Rightarrow> Config" where
  "read_config env =
     \<lparr>QUICHost = getenv env ''QUIC_HOST'', QUICPort = getenv env ''QUIC_PORT'',
      TLSCertFile = getenv env ''TLS_CERT_FILE'', TLSKeyFile = getenv env ''TLS_KEY_FILE'',
      TLSALPN = getenv env ''TLS_ALPN'', LogFile = getenv env ''NETWORK_LOG_FILE'',
      PostgresHost = getenv env ''POSTGRES_HOST'', PostgresPort = getenv env ''POSTGRES_PORT'',
      PostgresUser = getenv env ''POSTGRES_USER'', PostgresPassword = getenv env ''POSTGRES_PASSWORD'',
      PostgresDB = getenv env ''POSTGRES_DB'', PostgresSSLMode = getenv env ''POSTGRES_SSLMODE'',
      RedisAddr = getenv env ''REDIS_ADDR''\<rparr>"

definition Load :: "environment \<Rightarrow> Config result" where
  "Load env =
     (let cfg = read_config env in
      if TLSCertFile cfg = '''' then Inl (ErrorText ''TLS_CERT_FILE is empty'')
      else if TLSKeyFile cfg = '''' then Inl (ErrorText ''TLS_KEY_FILE is empty'')
      else if TLSALPN cfg = '''' then Inl (ErrorText ''TLS_ALPN is empty'')
      else if QUICHost cfg = '''' then Inl (ErrorText ''QUIC_HOST is empty'')
      else if QUICPort cfg = '''' then Inl (ErrorText ''QUIC_PORT is empty'')
      else if LogFile cfg = '''' then Inl (ErrorText ''NETWORK_LOG_FILE is empty'')
      else if PostgresHost cfg = '''' then Inl (ErrorText ''POSTGRES_HOST is empty'')
      else if PostgresPort cfg = '''' then Inl (ErrorText ''POSTGRES_PORT is empty'')
      else if PostgresUser cfg = '''' then Inl (ErrorText ''POSTGRES_USER is empty'')
      else if PostgresDB cfg = '''' then Inl (ErrorText ''POSTGRES_DB is empty'')
      else if PostgresSSLMode cfg = '''' then Inl (ErrorText ''POSTGRES_SSLMODE is empty'')
      else if RedisAddr cfg = '''' then Inl (ErrorText ''REDIS_ADDR is empty'')
      else Inr cfg)"

definition QUICAddr :: "Config \<Rightarrow> string" where
  "QUICAddr c = JoinHostPort (QUICHost c) (QUICPort c)"

record tls_Config =
  Certificates :: "nat list"
  NextProtos :: "string list"

definition TLSConfig :: "(string \<Rightarrow> string \<Rightarrow> nat result) \<Rightarrow> Config \<Rightarrow> tls_Config result" where
  "TLSConfig load_pair c =
     (case load_pair (TLSCertFile c) (TLSKeyFile c) of
        Inl err \<Rightarrow> Inl err
      | Inr cert \<Rightarrow> Inr \<lparr>Certificates = [cert], NextProtos = [TLSALPN c]\<rparr>)"

section \<open>URLs\<close>

text \<open>The parts of a URL in which \<open>net/url\<close> escapes differently, and its table of bytes to escape.\<close>

datatype encoding = encodePath | encodeHost | encodeUserPassword | encodeQueryComponent

definition is_alnum :: "char \<Rightarrow> bool" where
  "is_alnum c \<longleftrightarrow> (97 \<le> byte_val c \<and> byte_val c \<le> 122) \<or> (65 \<le> byte_val c \<and> byte_val c \<le> 90)
     \<or> (48 \<le> byte_val c \<and> byte_val c \<le> 57)"

definition shouldEscape :: "encoding \<Rightarrow> char \<Rightarrow> bool" where
  "shouldEscape mode c =
     (if is_alnum c then False
      else if mode = encodeHost \<and> c \<in> set (''!$&()*+,;=:[]<>'' @ [CHR 0x27, CHR 0x22]) then False
      else if c \<in> set ''-_.~'' then False
      else if c \<in> set ''$&+,/:;=?@'' then
        (case mode of
           encodePath \<Rightarrow> c = CHR ''?''
         | encodeUserPassword \<Rightarrow> c \<in> set ''@/?:''
         | encodeQueryComponent \<Rightarrow> True
         | encodeHost \<Rightarrow> True)
      else True)"

definition upperhex :: string where
  "upperhex = ''0123456789ABCDEF''"

fun escape :: "encoding \<Rightarrow> string \<Rightarrow> string" where
  "escape mode [] = []"
| "escape mode (c # s) =
     (if c = CHR '' '' \<and> mode = encodeQueryComponent then CHR ''+'' # escape mode s
      else if shouldEscape mode c
      then CHR ''%'' # upperhex ! (byte_val c div 16) # upperhex ! (byte_val c mod 16) # escape mode s
      else c # escape mode s)"

text \<open>\<open>Userinfo.String\<close> with a password, \<open>Values.Encode\<close> for one key, \<open>EscapedPath\<close>.\<close>

definition userinfo_String :: "string \<Rightarrow> string \<Rightarrow> string" where
  "userinfo_String username password =
     escape encodeUserPassword username @ '':'' @ escape encodeUserPassword password"

definition values_Encode :: "string \<Rightarrow> string \<Rightarrow> string" where
  "values_Encode k v = escape encodeQueryComponent k @ ''='' @ escape encodeQueryComponent v"

definition EscapedPath :: "string \<Rightarrow> string" where
  "EscapedPath p = (if p = ''*'' then ''*'' else escape encodePath p)"

text \<open>\<open>URL.String\<close> for a URL with a scheme, user information, a path and a raw query.\<close>

definition url_String :: "string \<Rightarrow> string \<Rightarrow> string \<Rightarrow> string \<Rightarrow> string \<Rightarrow> string" where
  "url_String scheme user host p rawQuery =
     (let esc = EscapedPath p in
      scheme @ ''://'' @ user @ ''@'' @ escape encodeHost host
      @ (if esc \<noteq> '''' \<and> hd esc \<noteq> CHR ''/'' \<and> host \<noteq> '''' then ''/'' else '''') @ esc
      @ (if rawQuery \<noteq> '''' then ''?'' @ rawQuery else ''''))"

definition GetPostgresURL :: "Config \<Rightarrow> string" where
  "GetPostgresURL c =
     url_String ''postgres'' (userinfo_String (PostgresUser c) (PostgresPassword c))
       (JoinHostPort (PostgresHost c) (PostgresPort c)) (PostgresDB c)
       (values_Encode ''sslmode'' (PostgresSSLMode c))"

section \<open>What loading the configuration checks\<close>

definition required_keys :: "string list" where
  "required_keys = [''TLS_CERT_FILE'', ''TLS_KEY_FILE'', ''TLS_ALPN'', ''QUIC_HOST'', ''QUIC_PORT'',
     ''NETWORK_LOG_FILE'', ''POSTGRES_HOST'', ''POSTGRES_PORT'', ''POSTGRES_USER'', ''POSTGRES_DB'',
     ''POSTGRES_SSLMODE'', ''REDIS_ADDR'']"

text \<open>
  \<open>Load\<close> fails exactly when one of the twelve required variables is unset or empty,
  and its error names the first of them in the order of the checks; otherwise it returns the
  values of the environment. The PostgreSQL password is not required.
\<close>

theorem Load_reports_first_missing:
  "Load env = (case List.find (\<lambda>k. env k = None \<or> env k = Some '''') required_keys of
     Some k \<Rightarrow> Inl (ErrorText (k @ '' is empty''))
   | None \<Rightarrow> Inr (read_config env))"
proof -
  have e: "env k = None \<or> env k = Some '''' \<longleftrightarrow> getenv env k = ''''" for k
    by (auto simp: getenv_def split: option.split)
  show ?thesis unfolding e by (simp add: Load_def Let_def read_config_def required_keys_def)
qed

section \<open>Reading a URL back\<close>

text \<open>
  A reader of URLs by the grammar of RFC 3986: the authority ends at the first slash, question
  mark or hash, the user information at its commercial at, the user name at the first colon,
  the path at the question mark, the query is a list of pairs; percent triples stand for bytes
  and, in a query, a plus sign for a space.
\<close>

fun pct_decode :: "bool \<Rightarrow> string \<Rightarrow> string option" where
  "pct_decode form [] = Some []"
| "pct_decode form (c # s) =
     (if c = CHR ''%'' then
        (case s of a # b # rest \<Rightarrow>
           (case (index_of a upperhex, index_of b upperhex, pct_decode form rest) of
              (Some h, Some l, Some t) \<Rightarrow> Some (char_of (16 * h + l) # t)
            | _ \<Rightarrow> None)
         | _ \<Rightarrow> None)
      else map_option ((#) (if form \<and> c = CHR ''+'' then CHR '' '' else c)) (pct_decode form s))"

definition before :: "char list \<Rightarrow> string \<Rightarrow> string" where
  "before ds s = takeWhile (\<lambda>c. c \<notin> set ds) s"

definition after :: "char list \<Rightarrow> string \<Rightarrow> string" where
  "after ds s = drop (length (before ds s)) s"

lemma before_cut: "set ds \<inter> set a = {} \<Longrightarrow> d \<in> set ds \<Longrightarrow> before ds (a @ d # b) = a"
  by (auto simp: before_def takeWhile_append takeWhile_eq_all_conv)

lemma before_all: "set ds \<inter> set a = {} \<Longrightarrow> before ds a = a"
  by (auto simp: before_def takeWhile_eq_all_conv)

lemma after_cut: "set ds \<inter> set a = {} \<Longrightarrow> d \<in> set ds \<Longrightarrow> after ds (a @ d # b) = d # b"
  by (simp add: after_def before_cut)

lemma after_all: "set ds \<inter> set a = {} \<Longrightarrow> after ds a = []"
  by (simp add: after_def before_all)

section \<open>Escaping can be undone and hides the delimiters\<close>

lemma upperhex_props: "distinct upperhex" "length upperhex = 16"
  by (simp_all add: upperhex_def)

lemma byte_val_bound: "byte_val c < 256"
  by (simp add: byte_val_def)

lemma upperhex_byte:
  "index_of (upperhex ! (byte_val c div 16)) upperhex = Some (byte_val c div 16)"
  "index_of (upperhex ! (byte_val c mod 16)) upperhex = Some (byte_val c mod 16)"
  using byte_val_bound [of c] upperhex_props by (auto intro!: nth_index_of)

lemma char_of_byte_val [simp]: "char_of (byte_val c) = c"
  by (simp add: byte_val_def)

lemma escape_percent: "shouldEscape mode CHR ''%''" "shouldEscape encodeQueryComponent CHR ''+''"
  by (cases mode) (simp_all add: shouldEscape_def is_alnum_def byte_val_def)

lemma pct_decode_escape: "pct_decode (mode = encodeQueryComponent) (escape mode s) = Some s"
proof (induction s)
  case (Cons c s)
  then show ?case using escape_percent(1) [of mode] escape_percent(2)
    by (auto simp: upperhex_byte)
qed simp

interpretation user_escape: partial_inverse "escape encodeUserPassword" "pct_decode False"
  by unfold_locales (use pct_decode_escape [of encodeUserPassword] in simp)

interpretation host_escape: partial_inverse "escape encodeHost" "pct_decode False"
  by unfold_locales (use pct_decode_escape [of encodeHost] in simp)

interpretation query_escape: partial_inverse "escape encodeQueryComponent" "pct_decode True"
  by unfold_locales (use pct_decode_escape [of encodeQueryComponent] in simp)

interpretation path_escape: partial_inverse EscapedPath "pct_decode False"
  by unfold_locales (use pct_decode_escape [of encodePath] in \<open>simp add: EscapedPath_def\<close>)

lemma escape_delimiter:
  assumes "shouldEscape mode d" "d \<notin> set (''%+'' @ upperhex)"
  shows "d \<notin> set (escape mode s)"
proof (induction s)
  case (Cons c s)
  have "upperhex ! (byte_val c div 16) \<in> set upperhex" "upperhex ! (byte_val c mod 16) \<in> set upperhex"
    using byte_val_bound [of c] upperhex_props(2) by (auto intro!: nth_mem)
  then show ?case using Cons assms by auto
qed simp

lemmas delimiter_simps = shouldEscape_def is_alnum_def byte_val_def upperhex_def

lemma escape_user_delimiters: "set '':@/?#'' \<inter> set (escape encodeUserPassword s) = {}"
  using escape_delimiter [of encodeUserPassword _ s] by (simp add: delimiter_simps)

lemma escape_host_delimiters: "set ''@/?#'' \<inter> set (escape encodeHost s) = {}"
  using escape_delimiter [of encodeHost _ s] by (simp add: delimiter_simps)

lemma escape_query_delimiters: "set ''&=?#'' \<inter> set (escape encodeQueryComponent s) = {}"
  using escape_delimiter [of encodeQueryComponent _ s] by (simp add: delimiter_simps)

lemma escape_path_delimiters: "set ''?#'' \<inter> set (EscapedPath s) = {}"
  using escape_delimiter [of encodePath _ s] by (simp add: delimiter_simps EscapedPath_def)

text \<open>The query as a list of pairs, and the whole URL.\<close>

fun all_some :: "'a option list \<Rightarrow> 'a list option" where
  "all_some [] = Some []"
| "all_some (x # xs) = (case (x, all_some xs) of (Some y, Some ys) \<Rightarrow> Some (y # ys) | _ \<Rightarrow> None)"

definition read_pair :: "string \<Rightarrow> (string \<times> string) option" where
  "read_pair s =
     (case (pct_decode True (before ''='' s), pct_decode True (drop 1 (after ''='' s))) of
        (Some k, Some v) \<Rightarrow> Some (k, v) | _ \<Rightarrow> None)"

record url_parts =
  up_scheme :: string
  up_user :: "string option"
  up_password :: "string option"
  up_host :: "string option"
  up_path :: "string option"
  up_query :: "(string \<times> string) list option"

definition read_url :: "string \<Rightarrow> url_parts" where
  "read_url s =
     (let scheme = before '':'' s; rest = drop 3 (after '':'' s);
          authority = before ''/?#'' rest; rest' = after ''/?#'' rest;
          userinfo = before ''@'' authority; hostport = drop 1 (after ''@'' authority);
          p = before ''?#'' rest'; query = before ''#'' (drop 1 (after ''?#'' rest'))
      in \<lparr>up_scheme = scheme,
          up_user = pct_decode False (before '':'' userinfo),
          up_password = pct_decode False (drop 1 (after '':'' userinfo)),
          up_host = pct_decode False hostport,
          up_path = pct_decode False p,
          up_query = all_some (map read_pair (Split CHR ''&'' query))\<rparr>)"

lemma read_values_Encode: "all_some (map read_pair (Split CHR ''&'' (values_Encode k v))) = Some [(k, v)]"
proof -
  have d: "set ''='' \<inter> set (escape encodeQueryComponent s) = {}" "CHR ''&'' \<notin> set (escape encodeQueryComponent s)" for s
    using escape_query_delimiters [of s] by auto
  have "Split CHR ''&'' (values_Encode k v) = [values_Encode k v]"
    using d(2) by (intro Split_no_sep) (simp add: values_Encode_def)
  moreover have "read_pair (values_Encode k v) = Some (k, v)"
    using before_cut [OF d(1), of "CHR ''=''" k "escape encodeQueryComponent v"]
      after_cut [OF d(1), of "CHR ''=''" k "escape encodeQueryComponent v"]
    by (simp add: read_pair_def values_Encode_def query_escape.dec_enc)
  ultimately show ?thesis by simp
qed

text \<open>The path of a URL with a host starts with a slash.\<close>

definition rooted :: "string \<Rightarrow> string" where
  "rooted p = (if p \<noteq> '''' \<and> hd p \<noteq> CHR ''/'' then ''/'' @ p else p)"

lemma rooted_EscapedPath:
  "(if EscapedPath p \<noteq> '''' \<and> hd (EscapedPath p) \<noteq> CHR ''/'' then ''/'' else '''') @ EscapedPath p = rooted (EscapedPath p)"
  "pct_decode False (rooted (EscapedPath p)) = Some (rooted p)"
proof -
  show "(if EscapedPath p \<noteq> '''' \<and> hd (EscapedPath p) \<noteq> CHR ''/'' then ''/'' else '''') @ EscapedPath p = rooted (EscapedPath p)"
    by (simp add: rooted_def)
  have n: "EscapedPath p = [] \<longleftrightarrow> p = []" by (cases p) (auto simp: EscapedPath_def)
  have h: "hd (EscapedPath p) = CHR ''/'' \<longleftrightarrow> hd p = CHR ''/''" if "p \<noteq> []"
    using that by (cases p) (auto simp: EscapedPath_def delimiter_simps)
  show "pct_decode False (rooted (EscapedPath p)) = Some (rooted p)"
    using n h by (auto simp: rooted_def path_escape.dec_enc)
qed

lemma rooted_delimiters:
  "set ''?#'' \<inter> set (rooted (EscapedPath p)) = {}"
  "rooted (EscapedPath p) = [] \<or> (\<exists>r. rooted (EscapedPath p) = CHR ''/'' # r)"
  using escape_path_delimiters [of p] by (cases "EscapedPath p"; auto simp: rooted_def)+

lemma JoinHostPort_nonempty [simp]: "JoinHostPort h p \<noteq> []"
  by (simp add: JoinHostPort_def)

lemma values_Encode_props:
  "values_Encode k v \<noteq> []" "set ''#'' \<inter> set (values_Encode k v) = {}"
  using escape_query_delimiters [of k] escape_query_delimiters [of v] by (auto simp: values_Encode_def)

lemma read_url_String:
  assumes "host \<noteq> ''''"
  shows "read_url (url_String ''postgres'' (userinfo_String u pw) host p (values_Encode k v)) =
    \<lparr>up_scheme = ''postgres'', up_user = Some u, up_password = Some pw, up_host = Some host,
     up_path = Some (rooted p), up_query = Some [(k, v)]\<rparr>"
proof -
  let ?ui = "userinfo_String u pw" and ?h = "escape encodeHost host" and ?p = "rooted (EscapedPath p)" and ?q = "values_Encode k v"
  let ?url = "url_String ''postgres'' ?ui host p ?q"
  have url: "?url = ''postgres'' @ CHR '':'' # ''//'' @ (?ui @ ''@'' @ ?h) @ ?p @ ''?'' @ ?q"
    using assms values_Encode_props(1) [of k v] rooted_EscapedPath(1) [of p] by (simp add: url_String_def Let_def)
  have scheme: "before '':'' ?url = ''postgres''" "drop 3 (after '':'' ?url) = (?ui @ ''@'' @ ?h) @ ?p @ ''?'' @ ?q"
    unfolding url by (subst before_cut after_cut; simp)+
  have ui: "set ''@/?#'' \<inter> set ?ui = {}"
    using escape_user_delimiters [of u] escape_user_delimiters [of pw] by (auto simp: userinfo_String_def)
  have au: "set ''/?#'' \<inter> set (?ui @ ''@'' @ ?h) = {}" using ui escape_host_delimiters [of host] by auto
  obtain d r where dr: "?p @ ''?'' @ ?q = d # r" "d \<in> set ''/?#''" using rooted_delimiters(2) [of p] by fastforce
  have authority: "before ''/?#'' ((?ui @ ''@'' @ ?h) @ ?p @ ''?'' @ ?q) = ?ui @ ''@'' @ ?h"
    "after ''/?#'' ((?ui @ ''@'' @ ?h) @ ?p @ ''?'' @ ?q) = ?p @ ''?'' @ ?q"
    unfolding dr(1) by (rule before_cut [OF au dr(2)], rule after_cut [OF au dr(2)])
  have at: "set ''@'' \<inter> set ?ui = {}" using ui by auto
  have user: "before ''@'' (?ui @ ''@'' @ ?h) = ?ui" "drop 1 (after ''@'' (?ui @ ''@'' @ ?h)) = ?h"
    using before_cut [OF at, of "CHR ''@''" ?h] after_cut [OF at, of "CHR ''@''" ?h] by simp_all
  have co: "set '':'' \<inter> set (escape encodeUserPassword u) = {}" using escape_user_delimiters [of u] by auto
  have name: "before '':'' ?ui = escape encodeUserPassword u" "drop 1 (after '':'' ?ui) = escape encodeUserPassword pw"
    using before_cut [OF co, of "CHR '':''" "escape encodeUserPassword pw"]
      after_cut [OF co, of "CHR '':''" "escape encodeUserPassword pw"] by (simp_all add: userinfo_String_def)
  have tail: "before ''?#'' (?p @ ''?'' @ ?q) = ?p" "drop 1 (after ''?#'' (?p @ ''?'' @ ?q)) = ?q"
    using before_cut [OF rooted_delimiters(1) [of p], of "CHR ''?''" ?q] after_cut [OF rooted_delimiters(1) [of p], of "CHR ''?''" ?q]
    by simp_all
  have query: "before ''#'' ?q = ?q" by (rule before_all [OF values_Encode_props(2)])
  show ?thesis
    by (simp only: read_url_def Let_def scheme authority user name tail query rooted_EscapedPath(2) read_values_Encode
        user_escape.dec_enc host_escape.dec_enc)
qed

text \<open>
  C40. The PostgreSQL URL cannot be broken out of: read back by the grammar of URLs it gives
  the scheme \<open>postgres\<close>, the configured user name, password, host with port and SSL mode,
  byte for byte, whatever bytes they contain (delimiters, percent signs, spaces), and the
  database name as the path, under a leading slash.
\<close>

theorem GetPostgresURL_roundtrip:
  "read_url (GetPostgresURL c) =
    \<lparr>up_scheme = ''postgres'', up_user = Some (PostgresUser c), up_password = Some (PostgresPassword c),
     up_host = Some (JoinHostPort (PostgresHost c) (PostgresPort c)),
     up_path = Some (rooted (PostgresDB c)), up_query = Some [(''sslmode'', PostgresSSLMode c)]\<rparr>"
  unfolding GetPostgresURL_def by (rule read_url_String) simp

end
