(* ===== verification/Outside.thy ===== *)
theory Outside
  imports Go_Codecs Errors
begin

text \<open>
  What one request of the server gets from outside the repository, as one record: the
  clocks, the random source, the identifiers the database generates, the outcome of every
  exchange with PostgreSQL and Redis, the Unicode case table and the Argon2 key derivation
  of \<open>golang.org/x/crypto\<close>. All definitions that talk to the outside take it as an
  argument, so every theorem holds for every behaviour of these parts unless it names a
  hypothesis.
\<close>

text \<open>
  One exchange with a server: the reply arrives, or the request is lost (nothing
  happens), or the request is executed and the reply is lost. The client sees an error in
  the last two cases and cannot tell them apart.
\<close>

datatype fault = Delivered | RequestLost string | ReplyLost string

fun exchange :: "fault \<Rightarrow> 'a result \<times> 's \<Rightarrow> 's \<Rightarrow> 'a result \<times> 's" where
  "exchange Delivered (r, s') s = (r, s')"
| "exchange (RequestLost m) (r, s') s = (Inl (ExtError m), s)"
| "exchange (ReplyLost m) (r, s') s = (Inl (ExtError m), s')"

text \<open>The statements the repositories send, each with its own clock reading and outcome.\<close>

datatype db_call =
    Q_CreateTable string
  | Q_CreateUser | Q_GetUserByID | Q_DeleteUserByID string | Q_GetUserByUsername
  | Q_IsUsernameAvailable
  | Q_UpsertActiveToken | Q_GetActiveByTokenHash | Q_RotateToken
  | Q_UpsertDeletion | Q_DeleteByUserID string | Q_ExistsActive
  | Q_CancelDelete | Q_CancelCheck | Q_ClaimDue

datatype redis_call = R_Exists | R_Set | R_Del string | R_Ping

type_synonym argon2_fn =
  "byte list \<Rightarrow> byte list \<Rightarrow> uint32 \<Rightarrow> uint32 \<Rightarrow> byte \<Rightarrow> uint32 \<Rightarrow> byte list"

record outside =
  lower_table :: "nat \<Rightarrow> nat"                 \<comment> \<open>\<open>unicode.ToLower\<close> above U+007F\<close>
  uuid_text :: "string \<Rightarrow> string option"      \<comment> \<open>canonical text of a UUID argument, if it is one\<close>
  new_uuid :: string                          \<comment> \<open>\<open>gen_random_uuid()\<close>\<close>
  pg_now :: "db_call \<Rightarrow> int"                  \<comment> \<open>\<open>now()\<close> of a statement, microseconds\<close>
  db_fault :: "db_call \<Rightarrow> fault"
  redis_fault :: "redis_call \<Rightarrow> fault"
  row_locked :: "string \<Rightarrow> bool"              \<comment> \<open>rows locked by another transaction\<close>
  go_now :: int                               \<comment> \<open>\<open>time.Now()\<close>, nanoseconds since the epoch\<close>
  rand_salt :: "(nat \<Rightarrow> byte) option"         \<comment> \<open>\<open>rand.Read\<close> for a salt, \<open>None\<close> on error\<close>
  rand_token :: "(nat \<Rightarrow> byte) option"        \<comment> \<open>\<open>rand.Read\<close> for a session token\<close>
  argon2_IDKey :: argon2_fn

lemma exchange_cases:
  assumes "exchange f (r, s') s = (r1, s1)"
  shows "(s1 = s' \<or> s1 = s) \<and> (r1 = r \<and> s1 = s' \<or> (\<exists>m. r1 = Inl (ExtError m)))"
  using assms by (cases f) auto

lemma exchange_InrD: "exchange f (r, s') s = (Inr x, s1) \<Longrightarrow> f = Delivered \<and> r = Inr x \<and> s1 = s'"
  by (cases f) auto

lemma exchange_state: "snd (exchange f (r, s') s) = s' \<or> snd (exchange f (r, s') s) = s"
  by (cases f) auto

text \<open>An exchange that leaves the server's state alone leaves it alone under every fault.\<close>

lemma exchange_readonly: "exchange f (r, s) s = (case f of Delivered \<Rightarrow> (r, s)
    | RequestLost m \<Rightarrow> (Inl (ExtError m), s) | ReplyLost m \<Rightarrow> (Inl (ExtError m), s))"
  by (cases f) auto

text \<open>An identifier that survives \<open>strings.TrimSpace\<close> and is not empty.\<close>

definition good_id :: "string \<Rightarrow> bool" where
  "good_id i \<longleftrightarrow> TrimSpace i = i \<and> i \<noteq> ''''"

text \<open>An outside that never fails, for the examples.\<close>

definition quiet_outside :: outside where
  "quiet_outside = \<lparr>lower_table = (\<lambda>r. r), uuid_text = (\<lambda>s. Some s), new_uuid = ''u1'',
     pg_now = (\<lambda>_. 0), db_fault = (\<lambda>_. Delivered), redis_fault = (\<lambda>_. Delivered),
     row_locked = (\<lambda>_. False), go_now = 0, rand_salt = Some (\<lambda>_. 0), rand_token = Some (\<lambda>_. 1),
     argon2_IDKey = (\<lambda>password salt time memory threads keyLen. replicate (unat keyLen) 7)\<rparr>"

end
