(* ===== verification/Usernames.thy ===== *)
theory Usernames
  imports Go_Codecs
begin

text \<open>
  \<open>src/utils/username.go\<close> and \<open>src/utils/uid.go\<close>: the normal form and the syntax
  of usernames, and the identifiers given to connections and streams.
\<close>

section \<open>Operations\<close>

definition NormalizeUsername :: "(nat \<Rightarrow> nat) \<Rightarrow> string \<Rightarrow> string" where
  "NormalizeUsername table username = ToLower table (TrimSpace username)"

definition is_username_char :: "char \<Rightarrow> bool" where
  "is_username_char ch \<longleftrightarrow>
     (97 \<le> byte_val ch \<and> byte_val ch \<le> 122) \<or> (48 \<le> byte_val ch \<and> byte_val ch \<le> 57)
     \<or> ch = CHR ''_''"

fun username_loop :: "string \<Rightarrow> bool" where
  "username_loop [] = True"
| "username_loop (ch # rest) = (if is_username_char ch then username_loop rest else False)"

definition ValidUsername :: "string \<Rightarrow> bool" where
  "ValidUsername username =
     (if username = '''' then False
      else if hd username = CHR ''_'' \<or> last username = CHR ''_'' then False
      else username_loop username)"

text \<open>
  \<open>NewUID\<close>: 12 random bytes in hexadecimal, or, when the random source fails, the
  clock and a process-wide counter. \<open>hex_nat\<close> is \<open>%x\<close> of a non-negative number;
  \<open>UnixNano\<close> is a signed 64-bit count, negative before 1970 (\<open>%x\<close> then prints
  a minus sign).
\<close>

fun hex_nat :: "nat \<Rightarrow> string" where
  "hex_nat n = (if n < 16 then [hex_digit n] else hex_nat (n div 16) @ [hex_digit (n mod 16)])"

declare hex_nat.simps [simp del]

definition hex_int :: "int \<Rightarrow> string" where
  "hex_int i = (if i < 0 then CHR ''-'' # hex_nat (nat (- i)) else hex_nat (nat i))"

definition NewUID ::
    "(nat \<Rightarrow> byte) option \<Rightarrow> int \<Rightarrow> uint64 \<Rightarrow> string \<Rightarrow> string \<times> uint64" where
  "NewUID rand now_nano uidFallbackSeq pre =
     (case rand of
        Some f \<Rightarrow> (pre @ ''_'' @ hex_EncodeToString (map f [0..<12]), uidFallbackSeq)
      | None \<Rightarrow>
          let seq = uidFallbackSeq + 1
          in (pre @ ''_'' @ hex_int now_nano @ hex_nat (unat seq), seq))"

section \<open>Laws\<close>

lemma username_loop_iff: "username_loop s \<longleftrightarrow> list_all is_username_char s"
  by (induction s) auto

lemma ValidUsername_iff:
  "ValidUsername s \<longleftrightarrow>
     s \<noteq> [] \<and> hd s \<noteq> CHR ''_'' \<and> last s \<noteq> CHR ''_'' \<and> list_all is_username_char s"
  by (auto simp: ValidUsername_def username_loop_iff)

lemma username_char_plain: "is_username_char c \<Longrightarrow> plain_char c"
  by (auto simp: is_username_char_def plain_char_def byte_val_def)

lemma username_char_lower:
  "is_username_char c \<Longrightarrow> byte_val c < 0x80 \<and> \<not> (65 \<le> byte_val c \<and> byte_val c \<le> 90)"
  by (auto simp: is_username_char_def byte_val_def)

lemma ValidUsername_nonempty: "ValidUsername s \<Longrightarrow> s \<noteq> []"
  by (auto simp: ValidUsername_iff)

lemma TrimSpace_ValidUsername [trim_simps]: "ValidUsername s \<Longrightarrow> TrimSpace s = s"
  by (auto intro!: TrimSpace_plain simp: ValidUsername_iff list_all_iff username_char_plain)

lemma ToLower_ValidUsername: "ValidUsername s \<Longrightarrow> ToLower table s = s"
  by (rule ToLower_id) (auto simp: ValidUsername_iff list_all_iff dest: username_char_lower)

lemma Normalize_ValidUsername: "ValidUsername s \<Longrightarrow> NormalizeUsername table s = s"
  by (simp add: NormalizeUsername_def TrimSpace_ValidUsername ToLower_ValidUsername)

lemma hex_nat_alphabet: "set (hex_nat n) \<subseteq> set hex_alphabet"
proof (induction n rule: hex_nat.induct)
  case (1 n)
  then show ?case by (cases "n < 16") (auto simp: hex_nat.simps [of n] hex_digit_mem)
qed

text \<open>
  A username that passes \<open>ValidUsername\<close> is a fixed point of
  \<open>NormalizeUsername\<close>, whatever the Unicode tables say, and is non-empty, free of
  white space and made of lower-case letters, digits and underscores only. So normalising
  a stored username again (as the deletion worker does before it removes the name from the
  cache) gives the same key.
\<close>

theorem normalize_valid_fixpoint:
  assumes "ValidUsername s"
  shows "NormalizeUsername table s = s \<and> TrimSpace s = s \<and> s \<noteq> []
    \<and> (\<forall>c\<in>set s. is_username_char c)"
  using assms Normalize_ValidUsername TrimSpace_ValidUsername
  by (auto simp: ValidUsername_iff list_all_iff)

theorem normalize_valid_fixpoint_witness:
  "ValidUsername ''alice_7'' \<and> NormalizeUsername (\<lambda>r. r) ''alice_7'' = ''alice_7''"
proof -
  have v: "ValidUsername ''alice_7''" by code_simp
  show ?thesis using normalize_valid_fixpoint [OF v] v by blast
qed

end
