(* ===== verification/Cache.thy ===== *)
theory Cache
  imports Outside Usernames
begin

text \<open>
  \<open>src/cache\<close>: the Redis set of usernames in use (\<open>username.go\<close>) and the
  process-wide default cache (\<open>cache.go\<close>). The Redis server is a map from keys to
  values; a client is a number, so that the model can say which clients were closed.
\<close>

section \<open>State\<close>

type_synonym redis_store = "string \<rightharpoonup> string"

record PPCache =
  cache_client :: "nat option"

record cache_globals =
  defaultCache :: "PPCache option"
  closed_clients :: "nat list"

section \<open>Usernames in the cache\<close>

definition usernameKey :: "string \<Rightarrow> string" where
  "usernameKey username = ''username:'' @ username"

definition no_client :: "PPCache option \<Rightarrow> bool" where
  "no_client c \<longleftrightarrow> (case c of None \<Rightarrow> True | Some p \<Rightarrow> cache_client p = None)"

definition UsernameExists ::
    "outside \<Rightarrow> PPCache option \<Rightarrow> string \<Rightarrow> redis_store \<Rightarrow> bool result \<times> redis_store" where
  "UsernameExists w c username0 rs =
     (if no_client c then (Inl ErrDefaultRedisNotInitialized, rs)
      else let username = TrimSpace username0 in
        if username = '''' then (Inl (Errorf ''username'' Cache_ErrMissingRequiredFields), rs)
        else case exchange (redis_fault w R_Exists) (Inr (rs (usernameKey username) \<noteq> None), rs) rs of
            (Inl err, rs') \<Rightarrow> (Inl (Errorf ''check username existence'' err), rs')
          | (Inr ex, rs') \<Rightarrow> (Inr ex, rs'))"

definition SetUsername ::
    "outside \<Rightarrow> PPCache option \<Rightarrow> string \<Rightarrow> string \<Rightarrow> redis_store \<Rightarrow> unit result \<times> redis_store" where
  "SetUsername w c username0 userID0 rs =
     (if no_client c then (Inl ErrDefaultRedisNotInitialized, rs)
      else let username = TrimSpace username0 in
        if username = '''' then (Inl (Errorf ''username'' Cache_ErrMissingRequiredFields), rs)
        else let userID = TrimSpace userID0 in
          if userID = '''' then (Inl (Errorf ''user_id'' Cache_ErrMissingRequiredFields), rs)
          else case exchange (redis_fault w R_Set) (Inr (), rs(usernameKey username \<mapsto> userID)) rs of
              (Inl err, rs') \<Rightarrow> (Inl (Errorf ''set username key'' err), rs')
            | (Inr u, rs') \<Rightarrow> (Inr u, rs'))"

definition RemoveUsername ::
    "outside \<Rightarrow> PPCache option \<Rightarrow> string \<Rightarrow> redis_store \<Rightarrow> unit result \<times> redis_store" where
  "RemoveUsername w c username0 rs =
     (if no_client c then (Inl ErrDefaultRedisNotInitialized, rs)
      else let username = TrimSpace username0 in
        if username = '''' then (Inl (Errorf ''username'' Cache_ErrMissingRequiredFields), rs)
        else case exchange (redis_fault w (R_Del username)) (Inr (), rs(usernameKey username := None)) rs of
            (Inl err, rs') \<Rightarrow> (Inl (Errorf ''remove username key'' err), rs')
          | (Inr u, rs') \<Rightarrow> (Inr u, rs'))"

section \<open>The default cache\<close>

definition cache_Client :: "PPCache option \<Rightarrow> nat option" where
  "cache_Client c = (case c of None \<Rightarrow> None | Some p \<Rightarrow> cache_client p)"

definition cache_Close :: "PPCache option \<Rightarrow> nat list \<Rightarrow> nat list" where
  "cache_Close c closed =
     (case c of None \<Rightarrow> closed
      | Some p \<Rightarrow> (case cache_client p of None \<Rightarrow> closed | Some h \<Rightarrow> h # closed))"

text \<open>\<open>newc\<close> is the client that \<open>redis.NewClient\<close> returns, \<open>env_addr\<close> the value
  of \<open>REDIS_ADDR\<close>.\<close>

definition NewPPCache :: "nat \<Rightarrow> PPCache" where
  "NewPPCache client = \<lparr>cache_client = Some client\<rparr>"

lemma NewPPCache_client [simp]: "cache_client (NewPPCache client) = Some client"
  by (simp add: NewPPCache_def)

definition InitDefaultCache ::
    "outside \<Rightarrow> string \<Rightarrow> nat \<Rightarrow> string \<Rightarrow> cache_globals \<Rightarrow> unit result \<times> cache_globals" where
  "InitDefaultCache w env_addr newc redisAddr0 g =
     (let redisAddr = (if redisAddr0 = '''' then env_addr else redisAddr0) in
      if redisAddr = '''' then (Inl ErrRedisAddrRequired, g)
      else case exchange (redis_fault w R_Ping) (Inr (), ()) () of
          (Inl err, _) \<Rightarrow> (Inl (Errorf ''ping redis'' err), g\<lparr>closed_clients := newc # closed_clients g\<rparr>)
        | (Inr _, _) \<Rightarrow>
            let prev = defaultCache g in
            (Inr (), g\<lparr>defaultCache := Some (NewPPCache newc),
                       closed_clients := cache_Close prev (closed_clients g)\<rparr>))"

definition DefaultCache :: "cache_globals \<Rightarrow> PPCache result" where
  "DefaultCache g =
     (case defaultCache g of None \<Rightarrow> Inl ErrDefaultRedisNotInitialized | Some c \<Rightarrow> Inr c)"

section \<open>The cache as a set of names\<close>

text \<open>
  What the account service relies on: a set of names with membership, insertion and
  removal. \<open>live\<close> says that the cache answers.
\<close>

locale name_set =
  fixes mem :: "'w \<Rightarrow> string \<Rightarrow> 's \<Rightarrow> bool result \<times> 's"
    and add :: "'w \<Rightarrow> string \<Rightarrow> string \<Rightarrow> 's \<Rightarrow> unit result \<times> 's"
    and remove :: "'w \<Rightarrow> string \<Rightarrow> 's \<Rightarrow> unit result \<times> 's"
    and names :: "'s \<Rightarrow> string set"
    and live :: "'w \<Rightarrow> bool" and valid :: "string \<Rightarrow> bool" and ident :: "string \<Rightarrow> bool"
  assumes mem_spec: "live w \<Longrightarrow> valid n \<Longrightarrow> mem w n s = (Inr (n \<in> names s), s)"
    and add_spec: "live w \<Longrightarrow> valid n \<Longrightarrow> ident i \<Longrightarrow>
      \<exists>s'. add w n i s = (Inr (), s') \<and> names s' = insert n (names s)"
    and remove_spec: "live w \<Longrightarrow> valid n \<Longrightarrow>
      \<exists>s'. remove w n s = (Inr (), s') \<and> names s' = names s - {n}"
begin

lemma mem_after_add:
  assumes "live w" "valid n" "valid m" "ident i" and "add w n i s = (r, s')"
  shows "fst (mem w m s') = Inr (m = n \<or> m \<in> names s)"
  using add_spec [OF assms(1,2,4), of s] mem_spec [OF assms(1,3)] assms(5) by auto

lemma mem_after_remove:
  assumes "live w" "valid n" "valid m" and "remove w n s = (r, s')"
  shows "fst (mem w m s') = Inr (m \<noteq> n \<and> m \<in> names s)"
  using remove_spec [OF assms(1,2), of s] mem_spec [OF assms(1,3)] assms(4) by auto

end

definition cached_names :: "redis_store \<Rightarrow> string set" where
  "cached_names rs = {n. rs (usernameKey n) \<noteq> None}"

definition redis_live :: "outside \<Rightarrow> bool" where
  "redis_live w \<longleftrightarrow> (\<forall>c. redis_fault w c = Delivered)"

lemma usernameKey_inj [simp]: "usernameKey m = usernameKey n \<longleftrightarrow> m = n"
  by (simp add: usernameKey_def)

interpretation rset: name_set
  "\<lambda>w. UsernameExists w (Some (NewPPCache h))"
  "\<lambda>w. SetUsername w (Some (NewPPCache h))"
  "\<lambda>w. RemoveUsername w (Some (NewPPCache h))"
  cached_names redis_live ValidUsername good_id
  for h
proof (unfold_locales, goal_cases)
  case (1 w n s)
  then show ?case
    by (simp add: UsernameExists_def no_client_def redis_live_def cached_names_def
        TrimSpace_ValidUsername ValidUsername_nonempty)
next
  case (2 w n i s)
  then show ?case
    by (auto simp: SetUsername_def no_client_def redis_live_def cached_names_def good_id_def
        TrimSpace_ValidUsername ValidUsername_nonempty)
next
  case (3 w n s)
  then show ?case
    by (auto simp: RemoveUsername_def no_client_def redis_live_def cached_names_def
        TrimSpace_ValidUsername ValidUsername_nonempty)
qed

end
