(* ===== verification/Database.thy ===== *)
theory Database
  imports Outside Usernames
begin

text \<open>
  \<open>src/database\<close>: the three repositories over PostgreSQL (\<open>users.go\<close>,
  \<open>user_tokens.go\<close>, \<open>pending_account_deletions.go\<close>) and the process-wide default
  database (\<open>database.go\<close>).

  A table is a list of rows. Every SQL statement of the sources is one function on the
  tables (\<open>sql_...\<close>), written from the statement and from the constraints that
  \<open>CreateTable\<close> declares: primary keys and \<open>UNIQUE\<close> columns (violation: SQLSTATE
  23505), foreign keys (23503) with \<open>ON DELETE CASCADE\<close>, column defaults and the
  \<open>BIGSERIAL\<close> sequence, which advances for every attempted insert. A repository
  method validates its arguments, sends the statement and maps errors. Times are
  microseconds; columns of type \<open>UUID\<close> hold the canonical text.
\<close>

section \<open>Rows and tables\<close>

record User =
  u_ID :: string
  u_Username :: string
  u_DisplayName :: string
  u_PasswordHash :: string
  u_CreatedAt :: int

record UserToken =
  t_TokenID :: int
  t_UserID :: string
  t_DeviceID :: string
  t_DeviceName :: string
  t_IssuedAt :: int
  t_LastUsedAt :: int
  t_ExpiresAt :: "int option"
  t_RevokedAt :: "int option"

text \<open>A row of \<open>user_tokens\<close>: the Go struct leaves out the hash, and reads the
  nullable device name through \<open>COALESCE\<close>.\<close>

record token_row =
  r_TokenID :: int
  r_UserID :: string
  r_TokenHash :: "byte list"
  r_DeviceID :: string
  r_DeviceName :: "string option"
  r_IssuedAt :: int
  r_LastUsedAt :: int
  r_ExpiresAt :: "int option"
  r_RevokedAt :: "int option"

record PendingAccountDeletion =
  p_UserID :: string
  p_ScheduledAt :: int
  p_DeleteAt :: int
  p_StartedAt :: "int option"

record tables =
  users :: "User list"
  tokens :: "token_row list"
  deletions :: "PendingAccountDeletion list"
  token_seq :: int
  created :: "string list"

definition missing :: "string \<Rightarrow> goerror" where
  "missing field = Errorf field DB_ErrMissingRequiredFields"

definition wrap :: "string \<Rightarrow> 'a result \<times> 's \<Rightarrow> 'a result \<times> 's" where
  "wrap msg rs = (case rs of (Inl err, s) \<Rightarrow> (Inl (Errorf msg err), s) | (Inr x, s) \<Rightarrow> (Inr x, s))"

text \<open>An argument of type \<open>UUID\<close>: the driver rejects text that is not one.\<close>

definition with_uuid :: "outside \<Rightarrow> string \<Rightarrow> (string \<Rightarrow> 'a result \<times> 's) \<Rightarrow> 's \<Rightarrow> 'a result \<times> 's" where
  "with_uuid w s k db = (case uuid_text w s of None \<Rightarrow> (Inl (ExtError ''invalid UUID''), db) | Some u \<Rightarrow> k u)"

section \<open>Statements on users\<close>

definition sql_insert_user ::
    "outside \<Rightarrow> string \<Rightarrow> string \<Rightarrow> string \<Rightarrow> tables \<Rightarrow> User result \<times> tables" where
  "sql_insert_user w username displayName passwordHash db =
     (if lookup_by u_Username username (users db) \<noteq> None
         \<or> lookup_by u_ID (new_uuid w) (users db) \<noteq> None
      then (Inl (PgError ''23505''), db)
      else let row = \<lparr>u_ID = new_uuid w, u_Username = username, u_DisplayName = displayName,
                      u_PasswordHash = passwordHash, u_CreatedAt = pg_now w Q_CreateUser\<rparr>
        in (Inr row, db\<lparr>users := users db @ [row]\<rparr>))"

definition sql_select_user :: "(User \<Rightarrow> string) \<Rightarrow> string \<Rightarrow> tables \<Rightarrow> User result" where
  "sql_select_user col key db =
     (case lookup_by col key (users db) of None \<Rightarrow> Inl pgx_ErrNoRows | Some u \<Rightarrow> Inr u)"

definition sql_delete_user :: "string \<Rightarrow> tables \<Rightarrow> string result \<times> tables" where
  "sql_delete_user u db =
     (case lookup_by u_ID u (users db) of
        None \<Rightarrow> (Inl pgx_ErrNoRows, db)
      | Some row \<Rightarrow>
          (Inr (u_Username row),
           db\<lparr>users := filter (\<lambda>r. u_ID r \<noteq> u) (users db),
              tokens := filter (\<lambda>r. r_UserID r \<noteq> u) (tokens db),
              deletions := filter (\<lambda>r. p_UserID r \<noteq> u) (deletions db)\<rparr>))"

section \<open>Statements on tokens\<close>

definition max_bigint :: int where
  "max_bigint = 2 ^ 63 - 1"

text \<open>The row inserted for a new device, and the \<open>DO UPDATE\<close> of the row of a known one.\<close>

definition issue_row :: "int \<Rightarrow> int \<Rightarrow> string \<Rightarrow> byte list \<Rightarrow> string \<Rightarrow> string \<Rightarrow> token_row" where
  "issue_row now tokenID u tokenHash deviceID deviceName =
     \<lparr>r_TokenID = tokenID, r_UserID = u, r_TokenHash = tokenHash,
      r_DeviceID = deviceID, r_DeviceName = Some deviceName,
      r_IssuedAt = now, r_LastUsedAt = now, r_ExpiresAt = None, r_RevokedAt = None\<rparr>"

definition reissue_row :: "int \<Rightarrow> string \<Rightarrow> byte list \<Rightarrow> string \<Rightarrow> token_row \<Rightarrow> token_row" where
  "reissue_row now u tokenHash deviceName r =
     r\<lparr>r_UserID := u, r_TokenHash := tokenHash, r_DeviceName := Some deviceName,
       r_LastUsedAt := now, r_IssuedAt := now, r_RevokedAt := None\<rparr>"

definition sql_upsert_token ::
    "outside \<Rightarrow> string \<Rightarrow> byte list \<Rightarrow> string \<Rightarrow> string \<Rightarrow> tables \<Rightarrow> unit result \<times> tables" where
  "sql_upsert_token w u tokenHash deviceID deviceName db0 =
     (let now = pg_now w Q_UpsertActiveToken in
      if max_bigint \<le> token_seq db0 then (Inl (PgError ''2200H''), db0)
      else let db = db0\<lparr>token_seq := token_seq db0 + 1\<rparr> in
        if \<exists>r\<in>set (tokens db). r_TokenHash r = tokenHash \<and> r_DeviceID r \<noteq> deviceID
        then (Inl (PgError ''23505''), db)
        else if lookup_by u_ID u (users db) = None then (Inl (PgError ''23503''), db)
        else case lookup_by r_DeviceID deviceID (tokens db) of
            Some _ \<Rightarrow>
              (Inr (), db\<lparr>tokens := map (\<lambda>r. if r_DeviceID r = deviceID
                 then reissue_row now u tokenHash deviceName r else r) (tokens db)\<rparr>)
          | None \<Rightarrow>
              (Inr (), db\<lparr>tokens := tokens db @
                 [issue_row now (token_seq db) u tokenHash deviceID deviceName]\<rparr>))"

definition scan_token :: "token_row \<Rightarrow> UserToken" where
  "scan_token r =
     \<lparr>t_TokenID = r_TokenID r, t_UserID = r_UserID r, t_DeviceID = r_DeviceID r,
      t_DeviceName = (case r_DeviceName r of None \<Rightarrow> '''' | Some n \<Rightarrow> n),
      t_IssuedAt = r_IssuedAt r, t_LastUsedAt = r_LastUsedAt r,
      t_ExpiresAt = r_ExpiresAt r, t_RevokedAt = r_RevokedAt r\<rparr>"

definition token_active :: "int \<Rightarrow> token_row \<Rightarrow> bool" where
  "token_active now r \<longleftrightarrow>
     r_RevokedAt r = None \<and> (case r_ExpiresAt r of None \<Rightarrow> True | Some x \<Rightarrow> now < x)"

definition sql_select_active_token :: "int \<Rightarrow> byte list \<Rightarrow> tables \<Rightarrow> UserToken result" where
  "sql_select_active_token now tokenHash db =
     (case lookup_by r_TokenHash tokenHash (tokens db) of
        None \<Rightarrow> Inl pgx_ErrNoRows
      | Some r \<Rightarrow> if token_active now r then Inr (scan_token r) else Inl pgx_ErrNoRows)"

text \<open>The result is the number of rows affected.\<close>

definition sql_rotate_token ::
    "int \<Rightarrow> int \<Rightarrow> byte list \<Rightarrow> tables \<Rightarrow> nat result \<times> tables" where
  "sql_rotate_token now tokenID newHash db =
     (case lookup_by r_TokenID tokenID (tokens db) of
        None \<Rightarrow> (Inr 0, db)
      | Some _ \<Rightarrow>
          if \<exists>r\<in>set (tokens db). r_TokenHash r = newHash \<and> r_TokenID r \<noteq> tokenID
          then (Inl (PgError ''23505''), db)
          else (Inr 1, db\<lparr>tokens := map (\<lambda>r. if r_TokenID r = tokenID
                 then r\<lparr>r_TokenHash := newHash, r_LastUsedAt := now\<rparr> else r) (tokens db)\<rparr>))"

section \<open>Statements on pending deletions\<close>

definition sql_upsert_deletion ::
    "int \<Rightarrow> string \<Rightarrow> int \<Rightarrow> tables \<Rightarrow> PendingAccountDeletion result \<times> tables" where
  "sql_upsert_deletion now u deleteAt db =
     (if lookup_by u_ID u (users db) = None then (Inl (PgError ''23503''), db)
      else let row = \<lparr>p_UserID = u, p_ScheduledAt = now, p_DeleteAt = deleteAt, p_StartedAt = None\<rparr> in
        case lookup_by p_UserID u (deletions db) of
          None \<Rightarrow> (Inr row, db\<lparr>deletions := deletions db @ [row]\<rparr>)
        | Some _ \<Rightarrow>
            (Inr row, db\<lparr>deletions := map (\<lambda>r. if p_UserID r = u then row else r) (deletions db)\<rparr>))"

definition sql_delete_deletion :: "string \<Rightarrow> tables \<Rightarrow> tables" where
  "sql_delete_deletion u db = db\<lparr>deletions := filter (\<lambda>r. p_UserID r \<noteq> u) (deletions db)\<rparr>"

definition sql_cancel_deletion :: "string \<Rightarrow> tables \<Rightarrow> nat result \<times> tables" where
  "sql_cancel_deletion u db =
     (Inr (length (filter (\<lambda>r. p_UserID r = u \<and> p_StartedAt r = None) (deletions db))),
      db\<lparr>deletions := filter (\<lambda>r. \<not> (p_UserID r = u \<and> p_StartedAt r = None)) (deletions db)\<rparr>)"

text \<open>
  The claiming update: due rows that nobody has claimed and no other transaction holds,
  earliest first, at most \<open>limit\<close> of them.
\<close>

definition due_ids :: "outside \<Rightarrow> nat \<Rightarrow> tables \<Rightarrow> string list" where
  "due_ids w limit db =
     take limit (map p_UserID (sort_key p_DeleteAt
       (filter (\<lambda>r. p_DeleteAt r \<le> pg_now w Q_ClaimDue \<and> p_StartedAt r = None \<and> \<not> row_locked w (p_UserID r))
          (deletions db))))"

definition claim_row :: "outside \<Rightarrow> PendingAccountDeletion \<Rightarrow> PendingAccountDeletion" where
  "claim_row w r = r\<lparr>p_StartedAt := Some (pg_now w Q_ClaimDue)\<rparr>"

definition sql_claim_due ::
    "outside \<Rightarrow> nat \<Rightarrow> tables \<Rightarrow> PendingAccountDeletion list result \<times> tables" where
  "sql_claim_due w limit db =
     (let due = due_ids w limit db in
      (Inr (map (claim_row w) (filter (\<lambda>r. p_UserID r \<in> set due) (deletions db))),
       db\<lparr>deletions := map (\<lambda>r. if p_UserID r \<in> set due then claim_row w r else r) (deletions db)\<rparr>))"

section \<open>The users repository\<close>

definition CreateUser ::
    "outside \<Rightarrow> string \<Rightarrow> string \<Rightarrow> string \<Rightarrow> tables \<Rightarrow> User result \<times> tables" where
  "CreateUser w username0 displayName0 passwordHash db =
     (let username = TrimSpace username0 in
      if username = '''' then (Inl (missing ''username''), db)
      else let displayName = TrimSpace displayName0 in
        if passwordHash = '''' then (Inl (missing ''password_hash''), db)
        else case exchange (db_fault w Q_CreateUser) (sql_insert_user w username displayName passwordHash db) db of
            (Inl err, db') \<Rightarrow>
              if as_pg_code err = Some ''23505'' then (Inl ErrUsernameTaken, db')
              else (Inl (Errorf ''create user'' err), db')
          | (Inr user, db') \<Rightarrow> (Inr user, db'))"

definition not_found_or :: "goerror \<Rightarrow> string \<Rightarrow> goerror \<Rightarrow> goerror" where
  "not_found_or notFound msg err = (if errors_is err pgx_ErrNoRows then notFound else Errorf msg err)"

definition GetUserByID :: "outside \<Rightarrow> string \<Rightarrow> tables \<Rightarrow> User result \<times> tables" where
  "GetUserByID w userID db =
     (if userID = '''' then (Inl ErrUserNotFound, db)
      else case with_uuid w userID
                  (\<lambda>u. exchange (db_fault w Q_GetUserByID) (sql_select_user u_ID u db, db) db) db of
          (Inl err, db') \<Rightarrow> (Inl (not_found_or ErrUserNotFound ''get user by id'' err), db')
        | (Inr user, db') \<Rightarrow> (Inr user, db'))"

definition DeleteUserByID :: "outside \<Rightarrow> string \<Rightarrow> tables \<Rightarrow> string result \<times> tables" where
  "DeleteUserByID w userID0 db =
     (let userID = TrimSpace userID0 in
      if userID = '''' then (Inl (missing ''user_id''), db)
      else case with_uuid w userID
                  (\<lambda>u. exchange (db_fault w (Q_DeleteUserByID userID)) (sql_delete_user u db) db) db of
          (Inl err, db') \<Rightarrow> (Inl (not_found_or ErrUserNotFound ''delete user by id'' err), db')
        | (Inr username, db') \<Rightarrow> (Inr username, db'))"

definition GetUserByUsername :: "outside \<Rightarrow> string \<Rightarrow> tables \<Rightarrow> User result \<times> tables" where
  "GetUserByUsername w username0 db =
     (let username = TrimSpace username0 in
      if username = '''' then (Inl (missing ''username''), db)
      else case exchange (db_fault w Q_GetUserByUsername) (sql_select_user u_Username username db, db) db of
          (Inl err, db') \<Rightarrow> (Inl (not_found_or ErrUserNotFound ''get user by username'' err), db')
        | (Inr user, db') \<Rightarrow> (Inr user, db'))"

definition IsUsernameAvailable :: "outside \<Rightarrow> string \<Rightarrow> tables \<Rightarrow> bool result \<times> tables" where
  "IsUsernameAvailable w username0 db =
     (let username = TrimSpace username0 in
      if username = '''' then (Inl (missing ''username''), db)
      else case exchange (db_fault w Q_IsUsernameAvailable)
                  (Inr (lookup_by u_Username username (users db) \<noteq> None), db) db of
          (Inl err, db') \<Rightarrow> (Inl (Errorf ''check username availability'' err), db')
        | (Inr ex, db') \<Rightarrow> (Inr (\<not> ex), db'))"

section \<open>The tokens repository\<close>

definition UpsertActiveToken ::
    "outside \<Rightarrow> string \<Rightarrow> string \<Rightarrow> string \<Rightarrow> byte list \<Rightarrow> tables \<Rightarrow> unit result \<times> tables" where
  "UpsertActiveToken w userID0 deviceID0 deviceName0 tokenHash db =
     (let userID = TrimSpace userID0; deviceID = TrimSpace deviceID0; deviceName = TrimSpace deviceName0 in
      if userID = '''' then (Inl (missing ''user_id''), db)
      else if deviceID = '''' then (Inl (missing ''device_id''), db)
      else if tokenHash = [] then (Inl (missing ''token_hash''), db)
      else wrap ''upsert active token''
        (with_uuid w userID
           (\<lambda>u. exchange (db_fault w Q_UpsertActiveToken) (sql_upsert_token w u tokenHash deviceID deviceName db) db) db))"

definition GetActiveByTokenHash :: "outside \<Rightarrow> byte list \<Rightarrow> tables \<Rightarrow> UserToken result \<times> tables" where
  "GetActiveByTokenHash w tokenHash db =
     (if tokenHash = [] then (Inl (missing ''token_hash''), db)
      else case exchange (db_fault w Q_GetActiveByTokenHash)
                  (sql_select_active_token (pg_now w Q_GetActiveByTokenHash) tokenHash db, db) db of
          (Inl err, db') \<Rightarrow> (Inl (not_found_or ErrUserTokenNotFound ''get active token by hash'' err), db')
        | (Inr token, db') \<Rightarrow> (Inr token, db'))"

definition RotateToken :: "outside \<Rightarrow> int \<Rightarrow> byte list \<Rightarrow> tables \<Rightarrow> unit result \<times> tables" where
  "RotateToken w tokenID newTokenHash db =
     (if tokenID = 0 then (Inl (missing ''token_id''), db)
      else if newTokenHash = [] then (Inl (missing ''token_hash''), db)
      else case exchange (db_fault w Q_RotateToken)
                  (sql_rotate_token (pg_now w Q_RotateToken) tokenID newTokenHash db) db of
          (Inl err, db') \<Rightarrow> (Inl (Errorf ''rotate token'' err), db')
        | (Inr affected, db') \<Rightarrow> if affected = 0 then (Inl ErrUserTokenNotFound, db') else (Inr (), db'))"

section \<open>The pending deletions repository\<close>

text \<open>The zero \<open>time.Time\<close> (January 1, year 1, UTC), in nanoseconds since the epoch.\<close>

definition zero_time :: int where
  "zero_time = - 62135596800 * 10 ^ 9"

definition UpsertDeletion ::
    "outside \<Rightarrow> string \<Rightarrow> int \<Rightarrow> tables \<Rightarrow> PendingAccountDeletion result \<times> tables" where
  "UpsertDeletion w userID0 deleteAt db =
     (let userID = TrimSpace userID0 in
      if userID = '''' then (Inl (missing ''user_id''), db)
      else if deleteAt = zero_time then (Inl (missing ''delete_at''), db)
      else wrap ''upsert pending account deletion''
        (with_uuid w userID
           (\<lambda>u. exchange (db_fault w Q_UpsertDeletion)
                  (sql_upsert_deletion (pg_now w Q_UpsertDeletion) u (deleteAt div 1000) db) db) db))"

definition DeleteByUserID :: "outside \<Rightarrow> string \<Rightarrow> tables \<Rightarrow> unit result \<times> tables" where
  "DeleteByUserID w userID0 db =
     (let userID = TrimSpace userID0 in
      if userID = '''' then (Inl (missing ''user_id''), db)
      else wrap ''delete pending account deletion''
        (with_uuid w userID
           (\<lambda>u. exchange (db_fault w (Q_DeleteByUserID userID)) (Inr (), sql_delete_deletion u db) db) db))"

definition ExistsActiveByUserID :: "outside \<Rightarrow> string \<Rightarrow> tables \<Rightarrow> bool result \<times> tables" where
  "ExistsActiveByUserID w userID0 db =
     (let userID = TrimSpace userID0 in
      if userID = '''' then (Inl (missing ''user_id''), db)
      else wrap ''check pending account deletion existence''
        (with_uuid w userID
           (\<lambda>u. exchange (db_fault w Q_ExistsActive) (Inr (lookup_by p_UserID u (deletions db) \<noteq> None), db) db) db))"

definition CancelIfNotStarted :: "outside \<Rightarrow> string \<Rightarrow> tables \<Rightarrow> (bool \<times> bool) result \<times> tables" where
  "CancelIfNotStarted w userID0 db =
     (let userID = TrimSpace userID0 in
      if userID = '''' then (Inl (missing ''user_id''), db)
      else case with_uuid w userID
                  (\<lambda>u. exchange (db_fault w Q_CancelDelete) (sql_cancel_deletion u db) db) db of
          (Inl err, db1) \<Rightarrow> (Inl (Errorf ''cancel pending account deletion'' err), db1)
        | (Inr affected, db1) \<Rightarrow>
            if 0 < affected then (Inr (True, False), db1)
            else case with_uuid w userID
                  (\<lambda>u. exchange (db_fault w Q_CancelCheck)
                     (Inr (\<exists>r\<in>set (deletions db1). p_UserID r = u \<and> p_StartedAt r \<noteq> None), db1) db1) db1 of
                (Inl err, db2) \<Rightarrow> (Inl (Errorf ''check started pending account deletion'' err), db2)
              | (Inr startedExists, db2) \<Rightarrow> (Inr (False, startedExists), db2))"

definition ClaimDue :: "outside \<Rightarrow> int \<Rightarrow> tables \<Rightarrow> PendingAccountDeletion list result \<times> tables" where
  "ClaimDue w limit0 db =
     (let limit = (if limit0 \<le> 0 then 50 else limit0) in
      wrap (case db_fault w Q_ClaimDue of
              ReplyLost _ \<Rightarrow> ''iterate claimed pending account deletions''
            | _ \<Rightarrow> ''claim due pending account deletions'')
        (exchange (db_fault w Q_ClaimDue) (sql_claim_due w (nat limit) db) db))"

section \<open>The default database\<close>

text \<open>
  A connection pool is a number, so that the model can say which pools were closed.
  \<open>CREATE TABLE IF NOT EXISTS\<close> adds the name to the list of tables; a
  \<open>REFERENCES\<close> clause needs the table it names (SQLSTATE 42P01). \<open>newp\<close> is
  the result of \<open>pgxpool.New\<close>. The statements above run only through repositories
  that \<open>NewPPDatabase\<close> returned, that is, after their table was created.
\<close>

record UsersRepository =
  users_pool :: nat

record UserTokensRepository =
  user_tokens_pool :: nat

record PendingAccountDeletionsRepository =
  pending_pool :: nat

record PPDatabase =
  db_pool :: "nat option"
  db_Users :: UsersRepository
  db_UserTokens :: UserTokensRepository
  db_PendingAccountDeletions :: PendingAccountDeletionsRepository

record db_globals =
  defaultDB :: "PPDatabase option"
  closed_pools :: "nat list"

definition sql_create_table :: "string \<Rightarrow> string list \<Rightarrow> tables \<Rightarrow> unit result \<times> tables" where
  "sql_create_table name refs db =
     (if set refs \<subseteq> set (created db) then (Inr (), db\<lparr>created := List.insert name (created db)\<rparr>)
      else (Inl (PgError ''42P01''), db))"

definition CreateTable_users :: "outside \<Rightarrow> tables \<Rightarrow> unit result \<times> tables" where
  "CreateTable_users w db = wrap ''create users table''
     (exchange (db_fault w (Q_CreateTable ''users'')) (sql_create_table ''users'' [] db) db)"

definition CreateTable_user_tokens :: "outside \<Rightarrow> tables \<Rightarrow> unit result \<times> tables" where
  "CreateTable_user_tokens w db = wrap ''create user_tokens table''
     (exchange (db_fault w (Q_CreateTable ''user_tokens''))
        (sql_create_table ''user_tokens'' [''users''] db) db)"

definition CreateTable_pending :: "outside \<Rightarrow> tables \<Rightarrow> unit result \<times> tables" where
  "CreateTable_pending w db = wrap ''create pending_account_deletions table''
     (exchange (db_fault w (Q_CreateTable ''pending_account_deletions''))
        (sql_create_table ''pending_account_deletions'' [''users''] db) db)"

definition NewUsersRepository :: "outside \<Rightarrow> nat \<Rightarrow> tables \<Rightarrow> UsersRepository result \<times> tables" where
  "NewUsersRepository w pool db =
     (case CreateTable_users w db of
        (Inl err, db1) \<Rightarrow> (Inl err, db1)
      | (Inr _, db1) \<Rightarrow> (Inr \<lparr>users_pool = pool\<rparr>, db1))"

definition NewUserTokensRepository :: "outside \<Rightarrow> nat \<Rightarrow> tables \<Rightarrow> UserTokensRepository result \<times> tables" where
  "NewUserTokensRepository w pool db =
     (case CreateTable_user_tokens w db of
        (Inl err, db1) \<Rightarrow> (Inl err, db1)
      | (Inr _, db1) \<Rightarrow> (Inr \<lparr>user_tokens_pool = pool\<rparr>, db1))"

definition NewPendingAccountDeletionsRepository ::
    "outside \<Rightarrow> nat \<Rightarrow> tables \<Rightarrow> PendingAccountDeletionsRepository result \<times> tables" where
  "NewPendingAccountDeletionsRepository w pool db =
     (case CreateTable_pending w db of
        (Inl err, db1) \<Rightarrow> (Inl err, db1)
      | (Inr _, db1) \<Rightarrow> (Inr \<lparr>pending_pool = pool\<rparr>, db1))"

definition NewPPDatabase :: "outside \<Rightarrow> nat \<Rightarrow> tables \<Rightarrow> PPDatabase result \<times> tables" where
  "NewPPDatabase w pool db =
     (case NewUsersRepository w pool db of
        (Inl err, db1) \<Rightarrow> (Inl err, db1)
      | (Inr usersRepo, db1) \<Rightarrow>
     (case NewUserTokensRepository w pool db1 of
        (Inl err, db2) \<Rightarrow> (Inl err, db2)
      | (Inr userTokensRepo, db2) \<Rightarrow>
     (case NewPendingAccountDeletionsRepository w pool db2 of
        (Inl err, db3) \<Rightarrow> (Inl err, db3)
      | (Inr pendingAccountDeletionsRepo, db3) \<Rightarrow>
          (Inr \<lparr>db_pool = Some pool, db_Users = usersRepo, db_UserTokens = userTokensRepo,
                db_PendingAccountDeletions = pendingAccountDeletionsRepo\<rparr>, db3))))"

text \<open>The database whose pool and repositories all use one pool.\<close>

definition database_on :: "nat \<Rightarrow> PPDatabase" where
  "database_on pool = \<lparr>db_pool = Some pool, db_Users = \<lparr>users_pool = pool\<rparr>, db_UserTokens = \<lparr>user_tokens_pool = pool\<rparr>,
     db_PendingAccountDeletions = \<lparr>pending_pool = pool\<rparr>\<rparr>"

lemma database_on_pool [simp]: "db_pool (database_on pool) = Some pool"
  by (simp add: database_on_def)

text \<open>A new database creates its tables, first to last, and holds the pool it was given.\<close>

lemma NewPPDatabase_eq:
  "NewPPDatabase w pool db =
     (case CreateTable_users w db of (Inl err, db1) \<Rightarrow> (Inl err, db1) | (Inr _, db1) \<Rightarrow>
     (case CreateTable_user_tokens w db1 of (Inl err, db2) \<Rightarrow> (Inl err, db2) | (Inr _, db2) \<Rightarrow>
     (case CreateTable_pending w db2 of (Inl err, db3) \<Rightarrow> (Inl err, db3)
      | (Inr _, db3) \<Rightarrow> (Inr (database_on pool), db3))))"
  by (auto simp: NewPPDatabase_def NewUsersRepository_def NewUserTokensRepository_def
      NewPendingAccountDeletionsRepository_def database_on_def split: prod.splits sum.splits)

definition db_Close :: "PPDatabase option \<Rightarrow> nat list \<Rightarrow> nat list" where
  "db_Close d closed =
     (case d of None \<Rightarrow> closed
      | Some p \<Rightarrow> (case db_pool p of None \<Rightarrow> closed | Some h \<Rightarrow> h # closed))"

definition InitDefaultDB ::
    "outside \<Rightarrow> nat result \<Rightarrow> string \<Rightarrow> db_globals \<Rightarrow> tables \<Rightarrow> unit result \<times> db_globals \<times> tables" where
  "InitDefaultDB w newp databaseURL g db =
     (if databaseURL = '''' then (Inl ErrDatabaseURLRequired, g, db)
      else case newp of
          Inl err \<Rightarrow> (Inl (Errorf ''create pgx pool'' err), g, db)
        | Inr pool \<Rightarrow>
            (case NewPPDatabase w pool db of
               (Inl err, db') \<Rightarrow> (Inl err, g, db')
             | (Inr d, db') \<Rightarrow>
                 let prev = defaultDB g in
                 (Inr (), g\<lparr>defaultDB := Some d, closed_pools := db_Close prev (closed_pools g)\<rparr>, db')))"

definition DefaultDB :: "db_globals \<Rightarrow> PPDatabase result" where
  "DefaultDB g = (case defaultDB g of None \<Rightarrow> Inl ErrDefaultDBNotInitialized | Some d \<Rightarrow> Inr d)"

section \<open>Well-formed tables\<close>

text \<open>
  What the declared constraints promise about the rows, and that no statement of the
  program ever sets \<open>expires_at\<close> or \<open>revoked_at\<close>.
\<close>

definition db_wf :: "tables \<Rightarrow> bool" where
  "db_wf db \<longleftrightarrow>
     unique_by u_ID (users db) \<and> unique_by u_Username (users db)
   \<and> unique_by r_TokenID (tokens db) \<and> unique_by r_TokenHash (tokens db) \<and> unique_by r_DeviceID (tokens db)
   \<and> unique_by p_UserID (deletions db)
   \<and> (\<forall>r\<in>set (tokens db). r_UserID r \<in> u_ID ` set (users db))
   \<and> (\<forall>r\<in>set (deletions db). p_UserID r \<in> u_ID ` set (users db))
   \<and> (\<forall>r\<in>set (tokens db). 0 < r_TokenID r \<and> r_TokenID r \<le> token_seq db)
   \<and> (\<forall>r\<in>set (tokens db). r_ExpiresAt r = None \<and> r_RevokedAt r = None)
   \<and> 0 \<le> token_seq db \<and> token_seq db \<le> max_bigint"

definition empty_db :: tables where
  "empty_db = \<lparr>users = [], tokens = [], deletions = [], token_seq = 0, created = []\<rparr>"

lemma db_wf_empty [simp]: "db_wf empty_db"
  by (simp add: db_wf_def empty_db_def max_bigint_def)

lemma unique_by_map_set:
  assumes k: "unique_by k rows" and h: "unique_by h rows"
    and f: "\<And>r. r \<in> set rows \<Longrightarrow> h (f r) = (if k r = i then v else h r)"
    and fresh: "\<And>r. r \<in> set rows \<Longrightarrow> h r = v \<Longrightarrow> k r = i"
  shows "unique_by h (map f rows)"
proof -
  have d: "distinct rows" and ki: "inj_on k (set rows)" and hi: "inj_on h (set rows)"
    using k h by (auto simp: unique_by_def distinct_map)
  have "inj_on (h \<circ> f) (set rows)"
  proof (rule inj_onI)
    fix r s assume "r \<in> set rows" "s \<in> set rows" and eq: "(h \<circ> f) r = (h \<circ> f) s"
    then show "r = s"
      using f [of r] f [of s] fresh [of r] fresh [of s] inj_onD [OF ki, of r s] inj_onD [OF hi, of r s]
      by (auto split: if_splits)
  qed
  then show ?thesis using d by (simp add: unique_by_def distinct_map)
qed

lemma lookup_by_not_None: "lookup_by key k rows \<noteq> None \<longleftrightarrow> k \<in> key ` set rows"
  by (auto simp: lookup_by_None_iff)

lemma wf_insert_user [wf_intros]:
  "db_wf db \<Longrightarrow> db_wf (snd (sql_insert_user w username displayName passwordHash db))"
  by (auto simp: sql_insert_user_def db_wf_def Let_def)

lemma wf_delete_user [wf_intros]: "db_wf db \<Longrightarrow> db_wf (snd (sql_delete_user u db))"
  by (auto simp: sql_delete_user_def db_wf_def split: option.split)

lemma issue_row_fields [simp]:
  "r_TokenID (issue_row now i u h d n) = i" "r_UserID (issue_row now i u h d n) = u"
  "r_TokenHash (issue_row now i u h d n) = h" "r_DeviceID (issue_row now i u h d n) = d"
  "r_DeviceName (issue_row now i u h d n) = Some n" "r_ExpiresAt (issue_row now i u h d n) = None"
  "r_RevokedAt (issue_row now i u h d n) = None"
  by (simp_all add: issue_row_def)

lemma reissue_row_fields [simp]:
  "r_TokenID (reissue_row now u h n r) = r_TokenID r" "r_UserID (reissue_row now u h n r) = u"
  "r_TokenHash (reissue_row now u h n r) = h" "r_DeviceID (reissue_row now u h n r) = r_DeviceID r"
  "r_DeviceName (reissue_row now u h n r) = Some n" "r_ExpiresAt (reissue_row now u h n r) = r_ExpiresAt r"
  "r_RevokedAt (reissue_row now u h n r) = None"
  by (simp_all add: reissue_row_def)

text \<open>What a successful upsert did.\<close>

lemma sql_upsert_token_InrD:
  assumes "sql_upsert_token w u h d n db = (Inr x, db')"
  shows "u \<in> u_ID ` set (users db)" "token_seq db < max_bigint"
    "\<And>r. r \<in> set (tokens db) \<Longrightarrow> r_TokenHash r = h \<Longrightarrow> r_DeviceID r = d"
    "db' = db\<lparr>token_seq := token_seq db + 1, tokens :=
       (if d \<in> r_DeviceID ` set (tokens db)
        then map (\<lambda>r. if r_DeviceID r = d then reissue_row (pg_now w Q_UpsertActiveToken) u h n r else r) (tokens db)
        else tokens db @ [issue_row (pg_now w Q_UpsertActiveToken) (token_seq db + 1) u h d n])\<rparr>"
  using assms lookup_by_not_None [of u_ID u "users db"] lookup_by_not_None [of r_DeviceID d "tokens db"]
  by (auto simp: sql_upsert_token_def Let_def split: if_splits option.splits)

lemma sql_upsert_token_InlD:
  "sql_upsert_token w u h d n db = (Inl e, db') \<Longrightarrow>
   db' = db \<or> token_seq db < max_bigint \<and> db' = db\<lparr>token_seq := token_seq db + 1\<rparr>"
  by (auto simp: sql_upsert_token_def Let_def split: if_splits option.splits)

lemma wf_token_seq:
  assumes "db_wf db" "token_seq db < max_bigint" shows "db_wf (db\<lparr>token_seq := token_seq db + 1\<rparr>)"
proof -
  have "r_TokenID r \<le> token_seq db + 1" if "r \<in> set (tokens db)" for r
    using assms(1) that by (force simp: db_wf_def)
  then show ?thesis using assms by (auto simp: db_wf_def)
qed

lemma wf_upsert_token [wf_intros]:
  assumes wf: "db_wf db" shows "db_wf (snd (sql_upsert_token w u h d n db))"
proof (cases "sql_upsert_token w u h d n db")
  case (Pair res db')
  show ?thesis
  proof (cases res)
    case Inl
    then show ?thesis using wf Pair by (auto dest!: sql_upsert_token_InlD intro: wf_token_seq)
  next
    case (Inr x)
    note eff = sql_upsert_token_InrD [OF Pair [unfolded Inr]]
    show ?thesis
    proof (cases "d \<in> r_DeviceID ` set (tokens db)")
      case True
      let ?f = "\<lambda>r. if r_DeviceID r = d then reissue_row (pg_now w Q_UpsertActiveToken) u h n r else r"
      have "unique_by r_TokenHash (map ?f (tokens db))"
        using wf eff(3) by (intro unique_by_map_set [where k = r_DeviceID and i = d and v = h])
          (auto simp: db_wf_def)
      moreover have "unique_by r_TokenID (map ?f (tokens db))" "unique_by r_DeviceID (map ?f (tokens db))"
        using wf by (auto simp: db_wf_def unique_by_map_same)
      ultimately show ?thesis using True eff(1,2,4) Pair wf by (auto simp: db_wf_def)
    next
      case False
      have "lookup_by r_TokenHash h (tokens db) = None" "lookup_by r_DeviceID d (tokens db) = None"
        "lookup_by r_TokenID (token_seq db + 1) (tokens db) = None"
        using False eff(3) wf by (force simp: lookup_by_None_iff db_wf_def)+
      then show ?thesis using False eff(1,2,4) Pair wf by (auto simp: db_wf_def)
    qed
  qed
qed

lemma wf_rotate_token [wf_intros]:
  assumes wf: "db_wf db" shows "db_wf (snd (sql_rotate_token now i h db))"
proof (cases "\<exists>r\<in>set (tokens db). r_TokenHash r = h \<and> r_TokenID r \<noteq> i")
  case True
  then show ?thesis using wf by (auto simp: sql_rotate_token_def split: option.split)
next
  case False
  let ?f = "\<lambda>r. if r_TokenID r = i then r\<lparr>r_TokenHash := h, r_LastUsedAt := now\<rparr> else r"
  have "unique_by r_TokenHash (map ?f (tokens db))"
    using wf False by (intro unique_by_map_set [where k = r_TokenID and i = i and v = h])
      (auto simp: db_wf_def)
  moreover have "unique_by r_TokenID (map ?f (tokens db))" "unique_by r_DeviceID (map ?f (tokens db))"
    using wf by (auto simp: db_wf_def unique_by_map_same)
  ultimately show ?thesis using wf False
    by (auto simp: sql_rotate_token_def db_wf_def split: option.split)
qed

lemma wf_upsert_deletion [wf_intros]:
  assumes wf: "db_wf db" shows "db_wf (snd (sql_upsert_deletion now u t db))"
  using wf lookup_by_not_None [of u_ID u "users db"]
  by (auto simp: sql_upsert_deletion_def db_wf_def Let_def unique_by_map_same split: option.split)

lemma wf_delete_deletion [wf_intros]: "db_wf db \<Longrightarrow> db_wf (sql_delete_deletion u db)"
  by (auto simp: sql_delete_deletion_def db_wf_def)

lemma wf_cancel_deletion [wf_intros]: "db_wf db \<Longrightarrow> db_wf (snd (sql_cancel_deletion u db))"
  by (auto simp: sql_cancel_deletion_def db_wf_def)

lemma wf_claim_due [wf_intros]: "db_wf db \<Longrightarrow> db_wf (snd (sql_claim_due w limit db))"
  by (auto simp: sql_claim_due_def db_wf_def Let_def unique_by_map_same claim_row_def)

lemma wf_create_table [wf_intros]: "db_wf db \<Longrightarrow> db_wf (snd (sql_create_table n refs db))"
  by (auto simp: sql_create_table_def db_wf_def)

section \<open>The effect of a method under every fault\<close>

text \<open>
  Whatever happens to its exchange, a method applies its statement once or not at all;
  it applies it once when it reports success.
\<close>

lemma exchange_keeps: "P s \<Longrightarrow> P (snd x) \<Longrightarrow> P (snd (exchange f x s))"
  by (cases x; cases f) auto

lemma snd_wrap [simp]: "snd (wrap msg x) = snd x"
  by (auto simp: wrap_def split: prod.split sum.split)

lemma wrap_Inr_iff [simp]: "wrap msg x = (Inr y, s) \<longleftrightarrow> x = (Inr y, s)"
  by (auto simp: wrap_def split: prod.splits sum.splits)

lemma with_uuid_keeps: "P db \<Longrightarrow> (\<And>u. P (snd (k u))) \<Longrightarrow> P (snd (with_uuid w s k db))"
  by (auto simp: with_uuid_def split: option.split)

lemma snd_map_result [simp]:
  "snd (case x of (Inl err, s) \<Rightarrow> (Inl (f err), s) | (Inr y, s) \<Rightarrow> (g y, s)) = snd x"
  by (auto split: prod.split sum.split)

lemma snd_if_fst [simp]: "snd (if b then (x, s) else (y, s)) = s"
  by simp

lemmas method_keeps = exchange_keeps [where P = db_wf] with_uuid_keeps [where P = db_wf]

lemma wf_CreateUser [wf_intros]: "db_wf db \<Longrightarrow> db_wf (snd (CreateUser w a b c db))"
  using exchange_keeps [where P = db_wf, OF _ wf_insert_user, of db]
  by (auto simp: CreateUser_def Let_def split: prod.split sum.split) (metis snd_conv)+

lemma wf_DeleteUserByID [wf_intros]: "db_wf db \<Longrightarrow> db_wf (snd (DeleteUserByID w a db))"
  by (auto simp: DeleteUserByID_def Let_def intro!: method_keeps wf_intros)

lemma wf_UpsertActiveToken [wf_intros]: "db_wf db \<Longrightarrow> db_wf (snd (UpsertActiveToken w a b c d db))"
  by (auto simp: UpsertActiveToken_def Let_def intro!: method_keeps wf_intros)

lemma wf_RotateToken [wf_intros]: "db_wf db \<Longrightarrow> db_wf (snd (RotateToken w i h db))"
  using exchange_keeps [where P = db_wf, OF _ wf_rotate_token, of db]
  by (auto simp: RotateToken_def split: prod.split sum.split) (metis snd_conv)+

lemma wf_UpsertDeletion [wf_intros]: "db_wf db \<Longrightarrow> db_wf (snd (UpsertDeletion w a t db))"
  by (auto simp: UpsertDeletion_def Let_def intro!: method_keeps wf_intros)

lemma wf_DeleteByUserID [wf_intros]: "db_wf db \<Longrightarrow> db_wf (snd (DeleteByUserID w a db))"
  by (auto simp: DeleteByUserID_def Let_def intro!: method_keeps wf_intros)

lemma wf_ClaimDue [wf_intros]: "db_wf db \<Longrightarrow> db_wf (snd (ClaimDue w n db))"
  by (auto simp: ClaimDue_def Let_def intro!: method_keeps wf_intros)

text \<open>The methods that only read leave the tables alone under every fault.\<close>

lemma snd_exchange_readonly [simp]: "snd (exchange f (r, s) s) = s"
  by (cases f) auto

lemma snd_with_uuid_readonly: "(\<And>u. snd (k u) = db) \<Longrightarrow> snd (with_uuid w s k db) = db"
  by (auto simp: with_uuid_def split: option.split)

lemma readonly_methods [simp]:
  "snd (GetUserByID w a db) = db" "snd (GetUserByUsername w a db) = db"
  "snd (IsUsernameAvailable w a db) = db" "snd (GetActiveByTokenHash w h db) = db"
  "snd (ExistsActiveByUserID w a db) = db"
  by (simp_all add: GetUserByID_def GetUserByUsername_def IsUsernameAvailable_def
      GetActiveByTokenHash_def ExistsActiveByUserID_def Let_def snd_with_uuid_readonly)

lemma wf_CancelIfNotStarted [wf_intros]:
  assumes "db_wf db" shows "db_wf (snd (CancelIfNotStarted w a db))"
proof -
  let ?del = "with_uuid w (TrimSpace a)
    (\<lambda>u. exchange (db_fault w Q_CancelDelete) (sql_cancel_deletion u db) db) db"
  have "db_wf (snd ?del)" using assms by (auto intro!: method_keeps wf_intros)
  then show ?thesis using assms
    by (cases ?del) (auto simp: CancelIfNotStarted_def Let_def snd_with_uuid_readonly split: sum.split)
qed

section \<open>Sequences of statements\<close>

text \<open>
  One method call of any client, with any arguments and any behaviour of the outside.
  Statements of concurrent clients are serialised by the server; two calls of one request
  are two steps, so every interleaving is a sequence of steps.
\<close>

inductive db_step :: "tables \<Rightarrow> tables \<Rightarrow> bool" where
  step_CreateTables: "db_step db (snd (NewPPDatabase w pool db))"
| step_CreateUser: "db_step db (snd (CreateUser w username displayName passwordHash db))"
| step_DeleteUserByID: "db_step db (snd (DeleteUserByID w userID db))"
| step_UpsertActiveToken: "db_step db (snd (UpsertActiveToken w userID deviceID deviceName tokenHash db))"
| step_RotateToken: "db_step db (snd (RotateToken w tokenID tokenHash db))"
| step_UpsertDeletion: "db_step db (snd (UpsertDeletion w userID deleteAt db))"
| step_DeleteByUserID: "db_step db (snd (DeleteByUserID w userID db))"
| step_CancelIfNotStarted: "db_step db (snd (CancelIfNotStarted w userID db))"
| step_ClaimDue: "db_step db (snd (ClaimDue w limit db))"

inductive_cases db_stepE: "db_step db db'"

lemma wf_NewPPDatabase [wf_intros]:
  assumes "db_wf db" shows "db_wf (snd (NewPPDatabase w pool db))"
proof -
  have 1: "db_wf (snd (CreateTable_users w d))" if "db_wf d" for d
    using that by (auto simp: CreateTable_users_def intro!: method_keeps wf_intros)
  have 2: "db_wf (snd (CreateTable_user_tokens w d))" if "db_wf d" for d
    using that by (auto simp: CreateTable_user_tokens_def intro!: method_keeps wf_intros)
  have 3: "db_wf (snd (CreateTable_pending w d))" if "db_wf d" for d
    using that by (auto simp: CreateTable_pending_def intro!: method_keeps wf_intros)
  obtain r1 d1 r2 d2 r3 d3 where s: "CreateTable_users w db = (r1, d1)"
    "CreateTable_user_tokens w d1 = (r2, d2)" "CreateTable_pending w d2 = (r3, d3)"
    by (meson surj_pair)
  then have "db_wf d1 \<and> db_wf d2 \<and> db_wf d3"
    using assms 1 [of db] 2 [of d1] 3 [of d2] by simp
  then show ?thesis
    by (auto simp: NewPPDatabase_eq s split: sum.split)
qed

lemma db_step_wf: "db_step db db' \<Longrightarrow> db_wf db \<Longrightarrow> db_wf db'"
  by (erule db_stepE) (auto intro: wf_intros)

interpretation pg: reachable_invariant db_step db_wf "\<lambda>db. db = empty_db"
  by unfold_locales (auto intro: db_step_wf)

text \<open>
  C27. However calls of the repositories are interleaved and whichever of their exchanges
  fail, the tables that grow from an empty database satisfy every declared constraint
  (unique user ids, usernames, token ids, token hashes and device ids, one pending
  deletion per user, no token or deletion without its user, token ids positive and handed
  out by the sequence), and no token ever carries an expiry or a revocation.
\<close>

theorem reachable_tables_well_formed:
  "db_step\<^sup>*\<^sup>* empty_db db \<Longrightarrow> db_wf db"
  by (rule pg.reachable_inv) auto

theorem reachable_tables_well_formed_witness:
  "db_wf (snd (DeleteUserByID quiet_outside ''u1''
     (snd (CreateUser quiet_outside ''alice'' ''A'' ''h'' empty_db))))"
proof (rule reachable_tables_well_formed)
  show "db_step\<^sup>*\<^sup>* empty_db (snd (DeleteUserByID quiet_outside ''u1''
     (snd (CreateUser quiet_outside ''alice'' ''A'' ''h'' empty_db))))"
    by (rule rtranclp.rtrancl_into_rtrancl, rule r_into_rtranclp)
      (rule step_CreateUser, rule step_DeleteUserByID)
qed

section \<open>Users\<close>

definition db_live :: "outside \<Rightarrow> bool" where
  "db_live w \<longleftrightarrow> (\<forall>q. db_fault w q = Delivered)"

text \<open>The identifiers of the users are canonical UUID texts.\<close>

definition ids_canonical :: "outside \<Rightarrow> tables \<Rightarrow> bool" where
  "ids_canonical w db \<longleftrightarrow> (\<forall>u\<in>set (users db). uuid_text w (u_ID u) = Some (u_ID u) \<and> good_id (u_ID u))"

lemma CreateUser_InrD:
  assumes "CreateUser w username displayName passwordHash db = (Inr user, db')"
  shows "TrimSpace username \<noteq> ''''" "passwordHash \<noteq> ''''"
    "lookup_by u_Username (TrimSpace username) (users db) = None"
    "lookup_by u_ID (u_ID user) (users db) = None"
    "user = \<lparr>u_ID = new_uuid w, u_Username = TrimSpace username, u_DisplayName = TrimSpace displayName,
             u_PasswordHash = passwordHash, u_CreatedAt = pg_now w Q_CreateUser\<rparr>"
    "db' = db\<lparr>users := users db @ [user]\<rparr>"
  using assms
  by (auto simp: CreateUser_def sql_insert_user_def Let_def dest!: exchange_InrD
      split: if_splits prod.splits sum.splits)

lemma TrimSpace_good: "good_id (TrimSpace s) \<longleftrightarrow> TrimSpace s \<noteq> ''''"
  by (simp add: good_id_def TrimSpace_idem)

lemma GetUserByUsername_live:
  "db_live w \<Longrightarrow> good_id n \<Longrightarrow> GetUserByUsername w n db =
     (case lookup_by u_Username n (users db) of None \<Rightarrow> Inl ErrUserNotFound | Some u \<Rightarrow> Inr u, db)"
  by (auto simp: GetUserByUsername_def db_live_def good_id_def sql_select_user_def not_found_or_def
      split: option.split)

lemma GetUserByID_live:
  "db_live w \<Longrightarrow> i \<noteq> '''' \<Longrightarrow> uuid_text w i = Some u \<Longrightarrow> GetUserByID w i db =
     (case lookup_by u_ID u (users db) of None \<Rightarrow> Inl ErrUserNotFound | Some x \<Rightarrow> Inr x, db)"
  by (auto simp: GetUserByID_def db_live_def with_uuid_def sql_select_user_def not_found_or_def
      split: option.split)

lemma IsUsernameAvailable_live:
  "db_live w \<Longrightarrow> good_id n \<Longrightarrow>
   IsUsernameAvailable w n db = (Inr (lookup_by u_Username n (users db) = None), db)"
  by (simp add: IsUsernameAvailable_def db_live_def good_id_def)

text \<open>
  Once \<open>CreateUser\<close> has reported success, the returned user is what
  \<open>GetUserByUsername\<close> and \<open>GetUserByID\<close> find, with the trimmed names and the
  given password hash; every other user is found as before; and the name is taken: it is
  not available and a second \<open>CreateUser\<close> fails with \<open>ErrUsernameTaken\<close> without
  changing the tables.
\<close>

theorem CreateUser_then_lookup:
  assumes c: "CreateUser w username displayName passwordHash db = (Inr user, db')"
    and live: "db_live w'" and id: "u_ID user \<noteq> ''''" "uuid_text w' (u_ID user) = Some (u_ID user)"
    and h: "h2 \<noteq> ''''"
  shows "GetUserByUsername w' (u_Username user) db' = (Inr user, db')
    \<and> GetUserByID w' (u_ID user) db' = (Inr user, db')
    \<and> u_Username user = TrimSpace username \<and> u_PasswordHash user = passwordHash
    \<and> (\<forall>n. n \<noteq> u_Username user \<longrightarrow> good_id n \<longrightarrow>
         fst (GetUserByUsername w' n db') = fst (GetUserByUsername w' n db))
    \<and> IsUsernameAvailable w' (u_Username user) db' = (Inr False, db')
    \<and> CreateUser w' username d2 h2 db' = (Inl ErrUsernameTaken, db')"
proof -
  note u = CreateUser_InrD [OF c]
  have g: "good_id (u_Username user)" using u(1,5) by (simp add: TrimSpace_good)
  have n: "lookup_by u_Username (u_Username user) (users db') = Some user"
    and i: "lookup_by u_ID (u_ID user) (users db') = Some user"
    using u(3,4,5,6) by (auto simp: table_simps)
  have o: "lookup_by u_Username m (users db') = lookup_by u_Username m (users db)"
    if "m \<noteq> u_Username user" for m
    using that u(6) by (auto simp: table_simps split: option.split)
  have "CreateUser w' username d2 h2 db' = (Inl ErrUsernameTaken, db')"
    using n u(1,5) live h by (simp add: CreateUser_def sql_insert_user_def Let_def db_live_def)
  moreover have "u_Username user = TrimSpace username" "u_PasswordHash user = passwordHash"
    using u(5) by simp_all
  ultimately show ?thesis
    using n i o live id g
    by (simp add: GetUserByUsername_live GetUserByID_live IsUsernameAvailable_live)
qed

definition alice_row :: User where
  "alice_row = \<lparr>u_ID = ''u1'', u_Username = ''alice'', u_DisplayName = ''Alice'',
     u_PasswordHash = ''h'', u_CreatedAt = 0\<rparr>"

definition alice_db :: tables where
  "alice_db = \<lparr>users = [alice_row], tokens = [], deletions = [], token_seq = 0, created = []\<rparr>"

lemma alice_row_fields [simp]: "u_ID alice_row = ''u1''" "u_Username alice_row = ''alice''"
  by (simp_all add: alice_row_def)

lemma create_alice: "CreateUser quiet_outside '' alice '' ''Alice'' ''h'' empty_db = (Inr alice_row, alice_db)"
  by code_simp

lemma quiet_live [simp]: "db_live quiet_outside" "redis_fault quiet_outside c = Delivered"
  "uuid_text quiet_outside s = Some s"
  by (simp_all add: db_live_def quiet_outside_def)

theorem CreateUser_then_lookup_witness:
  "GetUserByUsername quiet_outside ''alice'' alice_db = (Inr alice_row, alice_db)
   \<and> CreateUser quiet_outside '' alice '' ''x'' ''y'' alice_db = (Inl ErrUsernameTaken, alice_db)"
  using CreateUser_then_lookup [OF create_alice, of quiet_outside "''y''" "''x''", unfolded alice_row_fields]
    quiet_live by blast

section \<open>Deleting a user\<close>

lemma DeleteUserByID_InrD:
  assumes "DeleteUserByID w userID db = (Inr name, db')"
  obtains u row where "uuid_text w (TrimSpace userID) = Some u"
    "lookup_by u_ID u (users db) = Some row" "name = u_Username row"
    "db' = snd (sql_delete_user u db)"
  using assms
  by (auto simp: DeleteUserByID_def Let_def with_uuid_def sql_delete_user_def dest!: exchange_InrD
      split: if_splits prod.splits sum.splits option.splits)

text \<open>
  A successful \<open>DeleteUserByID\<close> returns the name of a user that existed, leaves no
  row of any table that belongs to that user, keeps every row of every other user, and
  frees the name.
\<close>

theorem DeleteUserByID_erases_user:
  assumes d: "DeleteUserByID w userID db = (Inr name, db')" and wf: "db_wf db"
  shows "\<exists>u. uuid_text w (TrimSpace userID) = Some u
    \<and> (\<exists>row\<in>set (users db). u_ID row = u \<and> u_Username row = name)
    \<and> u \<notin> u_ID ` set (users db') \<and> u \<notin> r_UserID ` set (tokens db') \<and> u \<notin> p_UserID ` set (deletions db')
    \<and> (\<forall>row\<in>set (users db). u_ID row \<noteq> u \<longrightarrow> row \<in> set (users db'))
    \<and> (\<forall>row\<in>set (tokens db). r_UserID row \<noteq> u \<longrightarrow> row \<in> set (tokens db'))
    \<and> (\<forall>row\<in>set (deletions db). p_UserID row \<noteq> u \<longrightarrow> row \<in> set (deletions db'))
    \<and> lookup_by u_Username name (users db') = None"
proof -
  obtain u row where u: "uuid_text w (TrimSpace userID) = Some u"
    and row: "lookup_by u_ID u (users db) = Some row" and n: "name = u_Username row"
    and db': "db' = snd (sql_delete_user u db)"
    using d by (rule DeleteUserByID_InrD)
  have mem: "row \<in> set (users db)" "u_ID row = u" using lookup_by_SomeD [OF row] by auto
  have "inj_on u_Username (set (users db))" using wf by (auto simp: db_wf_def unique_by_def distinct_map)
  then have "lookup_by u_Username name (users db') = None"
    using mem row n db' by (auto simp: sql_delete_user_def lookup_by_None_iff dest: inj_onD)
  then show ?thesis using u row n db' mem
    by (intro exI [of _ u]) (auto simp: sql_delete_user_def)
qed

lemma alice_wf: "db_wf alice_db"
  using wf_CreateUser [OF db_wf_empty, of quiet_outside] create_alice by (metis snd_conv)

theorem DeleteUserByID_erases_user_witness:
  "DeleteUserByID quiet_outside ''u1'' alice_db = (Inr ''alice'', empty_db)
   \<and> lookup_by u_Username ''alice'' (users empty_db) = None"
proof -
  have d: "DeleteUserByID quiet_outside ''u1'' alice_db = (Inr ''alice'', empty_db)" by code_simp
  show ?thesis using DeleteUserByID_erases_user [OF d alice_wf] d by blast
qed

section \<open>Tokens\<close>

lemma UpsertActiveToken_InrD:
  assumes "UpsertActiveToken w userID deviceID deviceName h db = (Inr x, db')"
  obtains u where "uuid_text w (TrimSpace userID) = Some u" "TrimSpace deviceID \<noteq> ''''" "h \<noteq> []"
    "(Inr x, db') = sql_upsert_token w u h (TrimSpace deviceID) (TrimSpace deviceName) db"
  using assms
  by (auto simp: UpsertActiveToken_def Let_def with_uuid_def dest!: exchange_InrD
      split: if_splits option.splits) (metis exchange_InrD surj_pair)

lemma RotateToken_InrD:
  assumes "RotateToken w i h db = (Inr x, db')"
  shows "i \<noteq> 0 \<and> h \<noteq> [] \<and> sql_rotate_token (pg_now w Q_RotateToken) i h db = (Inr 1, db')"
  using assms
  by (auto simp: RotateToken_def sql_rotate_token_def dest!: exchange_InrD
      split: if_splits prod.splits sum.splits option.splits)

lemma GetActive_live:
  "db_live w \<Longrightarrow> h \<noteq> [] \<Longrightarrow> db_wf db \<Longrightarrow> GetActiveByTokenHash w h db =
     (case lookup_by r_TokenHash h (tokens db) of
        None \<Rightarrow> Inl ErrUserTokenNotFound | Some r \<Rightarrow> Inr (scan_token r), db)"
  by (auto simp: GetActiveByTokenHash_def db_live_def sql_select_active_token_def not_found_or_def
      token_active_def db_wf_def dest: lookup_by_SomeD split: option.split)

lemma lookup_by_hash:
  "db_wf db \<Longrightarrow> lookup_by r_TokenHash h (tokens db) = Some r \<longleftrightarrow> r \<in> set (tokens db) \<and> r_TokenHash r = h"
  using lookup_by_unique [of r_TokenHash "tokens db" r] by (auto simp: db_wf_def dest: lookup_by_SomeD)

lemma UpsertActiveToken_effect:
  assumes up: "UpsertActiveToken w userID deviceID deviceName h db = (Inr x, db')" and wf: "db_wf db"
  obtains r where "lookup_by r_TokenHash h (tokens db') = Some r"
    "uuid_text w (TrimSpace userID) = Some (r_UserID r)" "r_DeviceID r = TrimSpace deviceID"
    "r_DeviceName r = Some (TrimSpace deviceName)"
    "\<And>y. y \<in> set (tokens db) \<Longrightarrow> r_TokenHash y \<noteq> h \<Longrightarrow> lookup_by r_TokenHash (r_TokenHash y) (tokens db') =
      (if r_DeviceID y = TrimSpace deviceID then None else Some y)"
    "users db' = users db" "deletions db' = deletions db" "h \<noteq> []" "db_wf db'"
proof -
  obtain u where u: "uuid_text w (TrimSpace userID) = Some u" and h: "h \<noteq> []"
    and s: "sql_upsert_token w u h (TrimSpace deviceID) (TrimSpace deviceName) db = (Inr x, db')"
    using up by (rule UpsertActiveToken_InrD) metis
  note eff = sql_upsert_token_InrD [OF s]
  have wf': "db_wf db'" using wf_UpsertActiveToken [OF wf, of w userID deviceID deviceName h] up by simp
  have inj: "inj_on r_TokenHash (set (tokens db))" "inj_on r_DeviceID (set (tokens db))"
    using wf by (auto simp: db_wf_def unique_by_def distinct_map)
  have other: "lookup_by r_TokenHash (r_TokenHash r) (tokens db') =
      (if r_DeviceID r = TrimSpace deviceID then None else Some r)"
    if r: "r \<in> set (tokens db)" "r_TokenHash r \<noteq> h" for r
  proof (cases "r_DeviceID r = TrimSpace deviceID")
    case True
    then have "TrimSpace deviceID \<in> r_DeviceID ` set (tokens db)" using r(1) by force
    then have "r_TokenHash y \<noteq> r_TokenHash r" if "y \<in> set (tokens db')" for y
      using r that eff(4) True inj_onD [OF inj(1) _ _ r(1)] by (auto split: if_splits)
    then show ?thesis using True by (auto simp: lookup_by_None_iff)
  next
    case False
    then have "r \<in> set (tokens db')" using r eff(4) by force
    then show ?thesis using False by (simp add: lookup_by_hash [OF wf'])
  qed
  obtain r where r: "r \<in> set (tokens db')" "r_TokenHash r = h" "r_UserID r = u"
      "r_DeviceID r = TrimSpace deviceID" "r_DeviceName r = Some (TrimSpace deviceName)"
    using eff(4) that by (cases "TrimSpace deviceID \<in> r_DeviceID ` set (tokens db)") force+
  then have "lookup_by r_TokenHash h (tokens db') = Some r" by (simp add: lookup_by_hash [OF wf'])
  then show thesis using r u h other wf' eff(4) by (intro that [of r]) auto
qed

text \<open>
  After a successful \<open>UpsertActiveToken\<close> the new hash resolves to a token of that
  user and device, every hash the device held before is dead, and the tokens of all other
  devices resolve as before.
\<close>

theorem UpsertActiveToken_binds_device:
  assumes up: "UpsertActiveToken w userID deviceID deviceName h db = (Inr x, db')" and wf: "db_wf db"
    and live: "db_live w'"
  shows "(\<exists>t. GetActiveByTokenHash w' h db' = (Inr t, db')
           \<and> Some (t_UserID t) = uuid_text w (TrimSpace userID)
           \<and> t_DeviceID t = TrimSpace deviceID \<and> t_DeviceName t = TrimSpace deviceName)
    \<and> (\<forall>r\<in>set (tokens db). r_TokenHash r \<noteq> [] \<longrightarrow> r_TokenHash r \<noteq> h \<longrightarrow>
         fst (GetActiveByTokenHash w' (r_TokenHash r) db') =
           (if r_DeviceID r = TrimSpace deviceID then Inl ErrUserTokenNotFound else Inr (scan_token r)))"
  using up wf
proof (rule UpsertActiveToken_effect, goal_cases)
  case (1 r)
  then show ?case by (auto simp: GetActive_live [OF live] scan_token_def)
qed

definition alice_phone :: tables where
  "alice_phone = alice_db\<lparr>tokens := [issue_row 0 1 ''u1'' [1] ''phone'' ''Pixel''], token_seq := 1\<rparr>"

lemma issue_phone: "UpsertActiveToken quiet_outside ''u1'' ''phone'' ''Pixel'' [1] alice_db = (Inr (), alice_phone)"
  by code_simp

lemma phone_wf: "db_wf alice_phone"
  using wf_UpsertActiveToken [OF alice_wf, of quiet_outside "''u1''" "''phone''" "''Pixel''" "[1]"]
  by (simp add: issue_phone)

theorem UpsertActiveToken_binds_device_witness:
  "\<exists>t. GetActiveByTokenHash quiet_outside [1] alice_phone = (Inr t, alice_phone) \<and> t_UserID t = ''u1''"
proof -
  have "TrimSpace ''u1'' = ''u1''" by code_simp
  then show ?thesis
    using UpsertActiveToken_binds_device [OF issue_phone alice_wf quiet_live(1)] by auto
qed

lemma RotateToken_effect:
  assumes rot: "RotateToken w i h db = (Inr x, db')" and wf: "db_wf db"
  obtains r where "r \<in> set (tokens db)" "r_TokenID r = i"
    "lookup_by r_TokenHash h (tokens db') = Some (r\<lparr>r_TokenHash := h, r_LastUsedAt := pg_now w Q_RotateToken\<rparr>)"
    "r_TokenHash r \<noteq> h \<Longrightarrow> lookup_by r_TokenHash (r_TokenHash r) (tokens db') = None"
    "\<And>y. y \<in> set (tokens db) \<Longrightarrow> y \<noteq> r \<Longrightarrow> lookup_by r_TokenHash (r_TokenHash y) (tokens db') = Some y"
    "users db' = users db" "deletions db' = deletions db" "h \<noteq> []" "db_wf db'"
proof -
  let ?f = "\<lambda>r. if r_TokenID r = i then r\<lparr>r_TokenHash := h, r_LastUsedAt := pg_now w Q_RotateToken\<rparr> else r"
  have h: "h \<noteq> []" and s: "sql_rotate_token (pg_now w Q_RotateToken) i h db = (Inr 1, db')"
    using RotateToken_InrD [OF rot] by auto
  obtain r where r: "r \<in> set (tokens db)" "r_TokenID r = i"
    and db': "tokens db' = map ?f (tokens db)" "users db' = users db" "deletions db' = deletions db"
    using s by (auto simp: sql_rotate_token_def split: option.splits if_splits dest!: lookup_by_SomeD)
  have wf': "db_wf db'" using wf_RotateToken [OF wf, of w i h] rot by simp
  have inj: "inj_on r_TokenHash (set (tokens db))" "inj_on r_TokenID (set (tokens db))"
    using wf by (auto simp: db_wf_def unique_by_def distinct_map)
  have new: "lookup_by r_TokenHash h (tokens db') = Some (?f r)"
    using r db' by (subst lookup_by_hash [OF wf']) auto
  have old: "lookup_by r_TokenHash (r_TokenHash r) (tokens db') = None" if "r_TokenHash r \<noteq> h"
    using that r db' inj_onD [OF inj(1) _ _ r(1)] by (auto simp: lookup_by_None_iff)
  have others: "lookup_by r_TokenHash (r_TokenHash y) (tokens db') = Some y"
    if "y \<in> set (tokens db)" "y \<noteq> r" for y
  proof -
    have "r_TokenID y \<noteq> i" using that r inj_onD [OF inj(2), of y r] by auto
    then show ?thesis using that db' by (subst lookup_by_hash [OF wf']) force
  qed
  show thesis using r h new old others db' wf' by (intro that [of r]) auto
qed

text \<open>
  A successful \<open>RotateToken\<close> replaces the hash of exactly one token: the new hash
  resolves to the same token id, user and device with a fresh last-use time, the old hash
  is dead, and every other token resolves as before.
\<close>

theorem RotateToken_replaces_hash:
  assumes rot: "RotateToken w i h db = (Inr x, db')" and wf: "db_wf db" and live: "db_live w'"
  shows "\<exists>r\<in>set (tokens db). r_TokenID r = i
    \<and> GetActiveByTokenHash w' h db' = (Inr ((scan_token r)\<lparr>t_LastUsedAt := pg_now w Q_RotateToken\<rparr>), db')
    \<and> (r_TokenHash r \<noteq> [] \<longrightarrow> r_TokenHash r \<noteq> h \<longrightarrow>
         fst (GetActiveByTokenHash w' (r_TokenHash r) db') = Inl ErrUserTokenNotFound)
    \<and> (\<forall>s\<in>set (tokens db). s \<noteq> r \<longrightarrow> r_TokenHash s \<noteq> [] \<longrightarrow>
         fst (GetActiveByTokenHash w' (r_TokenHash s) db') = Inr (scan_token s))"
  using rot wf
proof (rule RotateToken_effect, goal_cases)
  case (1 r)
  then show ?case by (intro bexI [of _ r]) (auto simp: GetActive_live [OF live] scan_token_def)
qed

theorem RotateToken_replaces_hash_witness:
  "\<exists>db'. RotateToken quiet_outside 1 [2] alice_phone = (Inr (), db')
     \<and> fst (GetActiveByTokenHash quiet_outside [1] db') = Inl ErrUserTokenNotFound"
proof -
  obtain db' where r: "RotateToken quiet_outside 1 [2] alice_phone = (Inr (), db')"
    by (simp add: RotateToken_def sql_rotate_token_def quiet_outside_def alice_phone_def)
  have "tokens alice_phone = [issue_row 0 1 ''u1'' [1] ''phone'' ''Pixel'']"
    by (simp add: alice_phone_def)
  then show ?thesis using RotateToken_replaces_hash [OF r phone_wf quiet_live(1)] r by auto
qed

section \<open>Pending deletions\<close>

text \<open>A row the worker may claim now.\<close>

definition claimable :: "outside \<Rightarrow> PendingAccountDeletion \<Rightarrow> bool" where
  "claimable w r \<longleftrightarrow> p_DeleteAt r \<le> pg_now w Q_ClaimDue \<and> p_StartedAt r = None \<and> \<not> row_locked w (p_UserID r)"

lemma ClaimDue_InrD:
  assumes "ClaimDue w limit db = (Inr items, db')"
  shows "sql_claim_due w (if limit \<le> 0 then 50 else nat limit) db = (Inr items, db')"
  using assms by (auto simp: ClaimDue_def Let_def dest!: exchange_InrD split: if_splits)
    (metis exchange_InrD surj_pair)+

lemma take_sort_key_le:
  fixes f :: "'a \<Rightarrow> 'k::linorder"
  assumes "x \<in> set (take n (sort_key f xs))" "y \<in> set xs" "y \<notin> set (take n (sort_key f xs))"
  shows "f x \<le> f y"
proof -
  let ?s = "sort_key f xs"
  have "y \<in> set (drop n ?s)" using assms(2,3) by (metis Un_iff append_take_drop_id set_append set_sort)
  moreover have "sorted (map f (take n ?s) @ map f (drop n ?s))"
    by (metis append_take_drop_id map_append sorted_sort_key)
  ultimately show ?thesis using assms(1) by (auto simp: sorted_append)
qed

lemma claim_row_fields [simp]:
  "p_UserID (claim_row w r) = p_UserID r" "p_StartedAt (claim_row w r) = Some (pg_now w Q_ClaimDue)"
  "p_DeleteAt (claim_row w r) = p_DeleteAt r"
  by (simp_all add: claim_row_def)

text \<open>The rows a claim selects, and that they are selected by their user ids.\<close>

definition due_rows :: "outside \<Rightarrow> nat \<Rightarrow> tables \<Rightarrow> PendingAccountDeletion list" where
  "due_rows w n db = take n (sort_key p_DeleteAt (filter (claimable w) (deletions db)))"

lemma due_ids_rows: "due_ids w n db = map p_UserID (due_rows w n db)"
  unfolding due_ids_def due_rows_def claimable_def [abs_def] take_map ..

lemma set_due_rows: "set (due_rows w n db) \<subseteq> set (filter (claimable w) (deletions db))"
  unfolding due_rows_def using set_take_subset by (metis set_sort)

lemma due_by_id:
  assumes "db_wf db" "r \<in> set (deletions db)"
  shows "p_UserID r \<in> set (due_ids w n db) \<longleftrightarrow> r \<in> set (due_rows w n db)"
proof -
  have "inj_on p_UserID (set (deletions db))"
    using assms(1) by (auto simp: db_wf_def unique_by_def distinct_map)
  then show ?thesis using assms(2) set_due_rows [of w n db]
    by (auto simp: due_ids_rows image_iff dest: inj_onD)
qed

lemma distinct_due_rows: "db_wf db \<Longrightarrow> distinct (due_rows w n db)"
  by (auto simp: due_rows_def db_wf_def unique_by_def distinct_map)

lemma sql_claim_due_eq:
  assumes "db_wf db"
  shows "sql_claim_due w n db =
    (Inr (map (claim_row w) (filter (\<lambda>r. r \<in> set (due_rows w n db)) (deletions db))),
     db\<lparr>deletions := map (\<lambda>r. if r \<in> set (due_rows w n db) then claim_row w r else r) (deletions db)\<rparr>)"
proof -
  have "filter (\<lambda>r. p_UserID r \<in> set (due_ids w n db)) (deletions db)
      = filter (\<lambda>r. r \<in> set (due_rows w n db)) (deletions db)"
    by (rule filter_cong) (simp_all add: due_by_id [OF assms])
  moreover have "map (\<lambda>r. if p_UserID r \<in> set (due_ids w n db) then claim_row w r else r) (deletions db)
      = map (\<lambda>r. if r \<in> set (due_rows w n db) then claim_row w r else r) (deletions db)"
    by (rule map_cong) (simp_all add: due_by_id [OF assms])
  ultimately show ?thesis by (simp add: sql_claim_due_def)
qed

lemma length_claimed:
  assumes "db_wf db"
  shows "length (filter (\<lambda>r. r \<in> set (due_rows w n db)) (deletions db)) = length (due_rows w n db)"
proof -
  have d: "distinct (deletions db)" using assms by (auto simp: db_wf_def unique_by_def distinct_map)
  have "set (filter (\<lambda>r. r \<in> set (due_rows w n db)) (deletions db)) = set (due_rows w n db)"
    using set_due_rows [of w n db] by auto
  then show ?thesis
    using d distinct_due_rows [OF assms, of w n] by (metis distinct_card distinct_filter)
qed

definition claim_limit :: "int \<Rightarrow> nat" where
  "claim_limit limit = (if limit \<le> 0 then 50 else nat limit)"

lemma ClaimDue_effect:
  assumes c: "ClaimDue w limit db = (Inr items, db')" and wf: "db_wf db"
  shows "set items = claim_row w ` set (due_rows w (claim_limit limit) db)"
    "length items = length (due_rows w (claim_limit limit) db)"
    "distinct (map p_UserID items)"
    "deletions db' = map (\<lambda>r. if r \<in> set (due_rows w (claim_limit limit) db) then claim_row w r else r) (deletions db)"
proof -
  let ?due = "due_rows w (claim_limit limit) db"
  have items: "items = map (claim_row w) (filter (\<lambda>r. r \<in> set ?due) (deletions db))"
    and dels: "deletions db' = map (\<lambda>r. if r \<in> set ?due then claim_row w r else r) (deletions db)"
    using ClaimDue_InrD [OF c, unfolded sql_claim_due_eq [OF wf]] by (auto simp: claim_limit_def)
  show "set items = claim_row w ` set ?due" using items set_due_rows [of w "claim_limit limit" db] by auto
  show "length items = length ?due" using items length_claimed [OF wf] by simp
  have "unique_by p_UserID (deletions db)" using wf by (simp add: db_wf_def)
  then show "distinct (map p_UserID items)"
    by (simp add: items unique_by_def comp_def distinct_map_filter)
  show "deletions db' = map (\<lambda>r. if r \<in> set ?due then claim_row w r else r) (deletions db)" by (fact dels)
qed

text \<open>A claimable row is left behind only when the limit is reached, and then it is not the
  earliest.\<close>

lemma due_rows_left:
  assumes "r \<in> set (deletions db)" "claimable w r" "r \<notin> set (due_rows w n db)"
  shows "length (due_rows w n db) = n" "x \<in> set (due_rows w n db) \<Longrightarrow> p_DeleteAt x \<le> p_DeleteAt r"
proof -
  let ?all = "sort_key p_DeleteAt (filter (claimable w) (deletions db))"
  have "r \<in> set ?all" using assms(1,2) by (simp add: set_sort)
  then have "n < length ?all" using assms(3) by (metis due_rows_def not_le take_all)
  then show "length (due_rows w n db) = n" by (simp add: due_rows_def)
  show "p_DeleteAt x \<le> p_DeleteAt r" if "x \<in> set (due_rows w n db)"
    using that assms unfolding due_rows_def by (intro take_sort_key_le [of x n]) auto
qed

text \<open>
  C12. A successful \<open>ClaimDue\<close> returns at most the limit (50 when it is not positive) of
  deletions of distinct users, each of them due, unclaimed and unlocked before and marked
  started afterwards; every other row is unchanged; a claimable row is left behind only when
  the limit is reached, and then none of the claimed rows was due later than it; and no
  later claim, by whichever worker, returns one of these rows again.
\<close>

theorem ClaimDue_claims_each_once:
  assumes c: "ClaimDue w limit db = (Inr items, db')" and wf: "db_wf db"
    and c2: "ClaimDue w2 limit2 db' = (Inr items2, db2)"
  shows "int (length items) \<le> (if limit \<le> 0 then 50 else limit) \<and> distinct (map p_UserID items)
    \<and> (\<forall>it\<in>set items. it \<in> set (deletions db') \<and> (\<exists>r\<in>set (deletions db). claimable w r \<and> it = claim_row w r))
    \<and> (\<forall>r\<in>set (deletions db). claim_row w r \<in> set items \<and> claimable w r \<or> r \<in> set (deletions db'))
    \<and> (\<forall>r\<in>set (deletions db). claimable w r \<longrightarrow> claim_row w r \<notin> set items \<longrightarrow>
         int (length items) = (if limit \<le> 0 then 50 else limit) \<and> (\<forall>it\<in>set items. p_DeleteAt it \<le> p_DeleteAt r))
    \<and> p_UserID ` set items \<inter> p_UserID ` set items2 = {}"
proof -
  let ?due = "due_rows w (claim_limit limit) db"
  note e = ClaimDue_effect [OF c wf]
  have wf': "db_wf db'" using wf_ClaimDue [OF wf, of w limit] c by simp
  have sub: "set ?due \<subseteq> {r \<in> set (deletions db). claimable w r}"
    and sub2: "set (due_rows w2 (claim_limit limit2) db') \<subseteq> {r \<in> set (deletions db'). claimable w2 r}"
    using set_due_rows by fastforce+
  have n: "int (claim_limit limit) = (if limit \<le> 0 then 50 else limit)" by (simp add: claim_limit_def)
  have len: "length ?due \<le> claim_limit limit" by (simp add: due_rows_def)
  have inj: "inj_on p_UserID (set (deletions db'))"
    using wf' by (auto simp: db_wf_def unique_by_def distinct_map)
  have "p_UserID a \<noteq> p_UserID b" if ab: "a \<in> set items" "b \<in> set items2" for a b
  proof -
    have a: "a \<in> set (deletions db')" "p_StartedAt a \<noteq> None" using ab(1) e(1,4) sub by auto
    obtain r where r: "b = claim_row w2 r" "r \<in> set (deletions db')" "p_StartedAt r = None"
      using ab(2) ClaimDue_effect(1) [OF c2 wf'] sub2 by (auto simp: claimable_def)
    then have "a \<noteq> r" using a by auto
    then show ?thesis using inj_onD [OF inj _ a(1) r(2)] r(1) by auto
  qed
  then have "p_UserID ` set items \<inter> p_UserID ` set items2 = {}" by auto
  moreover have "length items = claim_limit limit \<and> (\<forall>it\<in>set items. p_DeleteAt it \<le> p_DeleteAt r)"
    if "r \<in> set (deletions db)" "claimable w r" "claim_row w r \<notin> set items" for r
    using due_rows_left [of r db w "claim_limit limit"] that e(1,2) by auto
  ultimately show ?thesis using n len e sub by (intro conjI) auto
qed

definition alice_leaving :: tables where
  "alice_leaving = alice_db\<lparr>deletions :=
     [\<lparr>p_UserID = ''u1'', p_ScheduledAt = 0, p_DeleteAt = 0, p_StartedAt = None\<rparr>]\<rparr>"

definition alice_claimed :: tables where
  "alice_claimed = alice_db\<lparr>deletions :=
     [\<lparr>p_UserID = ''u1'', p_ScheduledAt = 0, p_DeleteAt = 0, p_StartedAt = Some 0\<rparr>]\<rparr>"

lemma schedule_alice:
  "UpsertDeletion quiet_outside ''u1'' 0 alice_db =
     (Inr \<lparr>p_UserID = ''u1'', p_ScheduledAt = 0, p_DeleteAt = 0, p_StartedAt = None\<rparr>, alice_leaving)"
  by code_simp

lemma leaving_wf: "db_wf alice_leaving"
  using wf_UpsertDeletion [OF alice_wf, of quiet_outside "''u1''" 0] by (simp add: schedule_alice)

lemma claim_alice:
  "ClaimDue quiet_outside 0 alice_leaving = (Inr (deletions alice_claimed), alice_claimed)"
  "ClaimDue quiet_outside 0 alice_claimed = (Inr [], alice_claimed)"
  by code_simp+

theorem ClaimDue_claims_each_once_witness:
  "\<exists>it. ClaimDue quiet_outside 0 alice_leaving = (Inr [it], alice_claimed) \<and> it \<in> set (deletions alice_claimed)
     \<and> (\<exists>r. r \<in> set (deletions alice_leaving) \<and> claimable quiet_outside r \<and> it = claim_row quiet_outside r)"
proof -
  obtain it where it: "deletions alice_claimed = [it]" by (simp add: alice_claimed_def)
  then show ?thesis using ClaimDue_claims_each_once [OF claim_alice(1) leaving_wf claim_alice(2)] claim_alice(1) by auto
qed

lemma CancelIfNotStarted_live:
  assumes live: "db_live w" and id: "good_id i" "uuid_text w i = Some u" and wf: "db_wf db"
  shows "CancelIfNotStarted w i db =
    (case lookup_by p_UserID u (deletions db) of
       None \<Rightarrow> (Inr (False, False), db)
     | Some r \<Rightarrow> if p_StartedAt r = None then (Inr (True, False), sql_delete_deletion u db)
                else (Inr (False, True), db))"
proof -
  let ?P = "\<lambda>r. p_UserID r = u \<and> p_StartedAt r = None"
  have inj: "inj_on p_UserID (set (deletions db))"
    using wf by (auto simp: db_wf_def unique_by_def distinct_map)
  have unf: "CancelIfNotStarted w i db =
      (if filter ?P (deletions db) \<noteq> [] then (Inr (True, False), snd (sql_cancel_deletion u db))
       else (Inr (False, \<exists>r\<in>set (deletions (snd (sql_cancel_deletion u db))). p_UserID r = u \<and> p_StartedAt r \<noteq> None),
             snd (sql_cancel_deletion u db)))"
    using live id by (simp add: CancelIfNotStarted_def Let_def with_uuid_def db_live_def good_id_def sql_cancel_deletion_def)
  have same: "sql_cancel_deletion u db = (Inr 0, db)" if "filter ?P (deletions db) = []"
    using that by (simp add: sql_cancel_deletion_def filter_empty_conv)
  show ?thesis
  proof (cases "lookup_by p_UserID u (deletions db)")
    case None
    then have "filter ?P (deletions db) = []" and "\<forall>r\<in>set (deletions db). p_UserID r \<noteq> u"
      by (auto simp: lookup_by_None_iff filter_empty_conv)
    then show ?thesis using None unf same by auto
  next
    case (Some r)
    then have r: "r \<in> set (deletions db)" "p_UserID r = u" using lookup_by_SomeD by fastforce+
    then have only: "x \<in> set (deletions db) \<Longrightarrow> p_UserID x = u \<longleftrightarrow> x = r" for x
      using inj_onD [OF inj] by auto
    show ?thesis
    proof (cases "p_StartedAt r = None")
      case True
      then have "filter (\<lambda>x. \<not> ?P x) (deletions db) = filter (\<lambda>x. p_UserID x \<noteq> u) (deletions db)"
        by (intro filter_cong) (auto simp: only)
      moreover have "filter ?P (deletions db) \<noteq> []" using True r by (auto simp: filter_empty_conv)
      ultimately show ?thesis using Some True unf by (simp add: sql_cancel_deletion_def sql_delete_deletion_def)
    next
      case False
      then have "filter ?P (deletions db) = []" using only by (auto simp: filter_empty_conv)
      then show ?thesis using Some False unf same r by auto
    qed
  qed
qed

text \<open>
  \<open>CancelIfNotStarted\<close> tells the three cases apart: it removes the pending deletion
  of the user and reports a cancellation exactly when the deletion exists and no worker has
  claimed it; a claimed deletion is reported as in progress and kept; with none pending it
  reports neither. Nothing else changes.
\<close>

theorem CancelIfNotStarted_outcome:
  assumes live: "db_live w" and id: "good_id i" "uuid_text w i = Some u" and wf: "db_wf db"
  shows "CancelIfNotStarted w i db =
    (case lookup_by p_UserID u (deletions db) of
       None \<Rightarrow> (Inr (False, False), db)
     | Some r \<Rightarrow> if p_StartedAt r = None then (Inr (True, False), sql_delete_deletion u db)
                else (Inr (False, True), db))"
  using assms by (rule CancelIfNotStarted_live)

theorem CancelIfNotStarted_outcome_witness:
  "CancelIfNotStarted quiet_outside ''u1'' alice_leaving = (Inr (True, False), sql_delete_deletion ''u1'' alice_leaving)"
proof -
  have "good_id ''u1''" by code_simp
  moreover have "\<exists>r. lookup_by p_UserID ''u1'' (deletions alice_leaving) = Some r \<and> p_StartedAt r = None"
    by (simp add: alice_leaving_def)
  ultimately show ?thesis
    using CancelIfNotStarted_outcome [OF quiet_live(1) _ quiet_live(3) leaving_wf, of "''u1''"] by auto
qed

section \<open>The default database\<close>

text \<open>
  When \<open>InitDefaultDB\<close> succeeds, the default database is the new pool, all three
  tables exist, exactly the previous default pool has been closed, and no row was touched;
  when it fails, the previous default stays in place, unclosed.
\<close>

theorem InitDefaultDB_swaps_pool:
  assumes "InitDefaultDB w (Inr pool) url g db = (r, g', db')"
  shows "(case r of
       Inr _ \<Rightarrow> DefaultDB g' = Inr (database_on pool)
          \<and> {''users'', ''user_tokens'', ''pending_account_deletions''} \<subseteq> set (created db')
          \<and> closed_pools g' = db_Close (defaultDB g) (closed_pools g)
     | Inl _ \<Rightarrow> g' = g)
    \<and> users db' = users db \<and> tokens db' = tokens db \<and> deletions db' = deletions db"
proof -
  have rows: "users (snd (exchange f (sql_create_table n refs d) d)) = users d
      \<and> tokens (snd (exchange f (sql_create_table n refs d) d)) = tokens d
      \<and> deletions (snd (exchange f (sql_create_table n refs d) d)) = deletions d" for f n refs d
    by (cases f) (auto simp: sql_create_table_def)
  have made: "n \<in> set (created d') \<and> set (created d) \<subseteq> set (created d')"
    if "exchange f (sql_create_table n refs d) d = (Inr x, d')" for f n refs d d' x
    using that by (cases f) (auto simp: sql_create_table_def split: if_splits)
  obtain r1 d1 r2 d2 r3 d3 where s: "CreateTable_users w db = (r1, d1)"
    "CreateTable_user_tokens w d1 = (r2, d2)" "CreateTable_pending w d2 = (r3, d3)"
    by (meson surj_pair)
  have keep: "users d1 = users db \<and> tokens d1 = tokens db \<and> deletions d1 = deletions db"
    "users d2 = users d1 \<and> tokens d2 = tokens d1 \<and> deletions d2 = deletions d1"
    "users d3 = users d2 \<and> tokens d3 = tokens d2 \<and> deletions d3 = deletions d2"
    using s rows by (metis CreateTable_users_def CreateTable_user_tokens_def CreateTable_pending_def snd_conv snd_wrap)+
  have ok: "r1 = Inr x1 \<Longrightarrow> ''users'' \<in> set (created d1)"
    "r2 = Inr x2 \<Longrightarrow> ''user_tokens'' \<in> set (created d2) \<and> set (created d1) \<subseteq> set (created d2)"
    "r3 = Inr x3 \<Longrightarrow> ''pending_account_deletions'' \<in> set (created d3) \<and> set (created d2) \<subseteq> set (created d3)"
    for x1 x2 x3
    using s made by (auto simp: CreateTable_users_def CreateTable_user_tokens_def CreateTable_pending_def)
  show ?thesis using assms s keep ok
    by (auto simp: InitDefaultDB_def NewPPDatabase_eq DefaultDB_def Let_def split: if_splits sum.splits)
qed

theorem InitDefaultDB_swaps_pool_witness:
  "\<exists>g' db'. InitDefaultDB quiet_outside (Inr 2) ''postgres://x'' \<lparr>defaultDB = Some (database_on 1), closed_pools = []\<rparr> empty_db
      = (Inr (), g', db') \<and> DefaultDB g' = Inr (database_on 2) \<and> closed_pools g' = [1]"
proof -
  obtain g' db' where i: "InitDefaultDB quiet_outside (Inr 2) ''postgres://x''
      \<lparr>defaultDB = Some (database_on 1), closed_pools = []\<rparr> empty_db = (Inr (), g', db')"
    by (simp add: InitDefaultDB_def NewPPDatabase_eq CreateTable_users_def CreateTable_user_tokens_def
        CreateTable_pending_def sql_create_table_def quiet_outside_def empty_db_def wrap_def)
  then show ?thesis using InitDefaultDB_swaps_pool [OF i] by (auto simp: db_Close_def)
qed

section \<open>What a successful read says\<close>

lemma GetUserByUsername_InrD:
  "GetUserByUsername w n db = (Inr user, db') \<Longrightarrow>
     db' = db \<and> lookup_by u_Username (TrimSpace n) (users db) = Some user"
  by (auto simp: GetUserByUsername_def sql_select_user_def Let_def dest!: exchange_InrD
      split: if_splits prod.splits sum.splits option.splits)

lemma IsUsernameAvailable_InrD:
  "IsUsernameAvailable w n db = (Inr a, db') \<Longrightarrow>
     db' = db \<and> a = (lookup_by u_Username (TrimSpace n) (users db) = None)"
  by (auto simp: IsUsernameAvailable_def Let_def dest!: exchange_InrD
      split: if_splits prod.splits sum.splits)

lemma GetActiveByTokenHash_InrD:
  "GetActiveByTokenHash w h db = (Inr t, db') \<Longrightarrow>
     db' = db \<and> (\<exists>r. lookup_by r_TokenHash h (tokens db) = Some r \<and> t = scan_token r)"
  by (auto simp: GetActiveByTokenHash_def sql_select_active_token_def dest!: exchange_InrD
      split: if_splits prod.splits sum.splits option.splits)

lemma ExistsActiveByUserID_InrD:
  assumes "ExistsActiveByUserID w i db = (Inr p, db')"
  shows "db' = db \<and> (\<exists>u. uuid_text w (TrimSpace i) = Some u \<and> p = (lookup_by p_UserID u (deletions db) \<noteq> None))"
  using assms by (auto simp: ExistsActiveByUserID_def Let_def with_uuid_def dest!: exchange_InrD
      split: if_splits option.splits)

lemma ExistsActiveByUserID_live:
  "db_live w \<Longrightarrow> good_id i \<Longrightarrow> uuid_text w i = Some u \<Longrightarrow>
   ExistsActiveByUserID w i db = (Inr (lookup_by p_UserID u (deletions db) \<noteq> None), db)"
  by (simp add: ExistsActiveByUserID_def with_uuid_def db_live_def good_id_def wrap_def)

text \<open>When the database answers, issuing and rotating succeed if the hash is new to the other rows.\<close>

lemma UpsertActiveToken_live:
  assumes "db_live w" "good_id i" "uuid_text w i = Some u" "u \<in> u_ID ` set (users db)"
    "TrimSpace d \<noteq> []" "h \<noteq> []"
    "\<And>r. r \<in> set (tokens db) \<Longrightarrow> r_DeviceID r \<noteq> TrimSpace d \<Longrightarrow> r_TokenHash r \<noteq> h" "token_seq db < max_bigint"
  shows "\<exists>db'. UpsertActiveToken w i d n h db = (Inr (), db')"
proof -
  have "lookup_by u_ID u (users db) \<noteq> None" using assms(4) by (simp only: lookup_by_not_None)
  moreover have "\<not> (\<exists>r\<in>set (tokens db). r_TokenHash r = h \<and> r_DeviceID r \<noteq> TrimSpace d)"
    using assms(7) by auto
  ultimately have "\<exists>db'. sql_upsert_token w u h (TrimSpace d) (TrimSpace n) db = (Inr (), db')"
    using assms(8) by (simp add: sql_upsert_token_def Let_def split: option.split)
  then show ?thesis using assms by (auto simp: UpsertActiveToken_def with_uuid_def db_live_def good_id_def wrap_def)
qed

lemma RotateToken_live:
  assumes "db_live w" "db_wf db" "r \<in> set (tokens db)" "h \<noteq> []"
    "\<And>y. y \<in> set (tokens db) \<Longrightarrow> r_TokenHash y \<noteq> r_TokenHash r \<Longrightarrow> r_TokenHash y \<noteq> h"
  shows "\<exists>db'. RotateToken w (r_TokenID r) h db = (Inr (), db')"
proof -
  have inj: "inj_on r_TokenHash (set (tokens db))"
    using assms(2) by (auto simp: db_wf_def unique_by_def distinct_map)
  have "lookup_by r_TokenID (r_TokenID r) (tokens db) = Some r" "r_TokenID r \<noteq> 0"
    using assms(2,3) by (auto simp: db_wf_def lookup_by_unique)
  moreover have "\<not> (\<exists>y\<in>set (tokens db). r_TokenHash y = h \<and> r_TokenID y \<noteq> r_TokenID r)"
    using assms(5) inj_onD [OF inj _ _ assms(3)] by auto
  ultimately show ?thesis using assms(1,4) by (auto simp: RotateToken_def sql_rotate_token_def db_live_def)
qed

end
