(* ===== verification/Password.thy ===== *)
theory Password
  imports Outside
begin

text \<open>
  The password records of \<open>src/server/auth/auth.go\<close>: \<open>hashPassword\<close> writes
  \<open>$argon2id$v=19$m=65536,t=3,p=2$salt$key\<close>, \<open>verifyPassword\<close> reads such a record
  back with \<open>strings.Split\<close>, \<open>fmt.Sscanf\<close> and unpadded base64 and derives the key again.
  The Argon2 key derivation is the parameter \<open>argon2_IDKey\<close>; the one documented fact the
  round trip needs is that the key has the requested length.
\<close>

section \<open>Scanning numbers\<close>

text \<open>
  \<open>fmt.Sscanf\<close> with the format \<open>m=%d,t=%d,p=%d\<close>: literals must match, \<open>%d\<close> skips
  white space (a newline is an error), takes the longest run of digits and refuses an empty
  run and a value that does not fit the target; what follows the last number is ignored.
\<close>

definition skip_space :: "string \<Rightarrow> string option" where
  "skip_space s =
     (let r = strip_all space_encodings s
      in if CHR 0x0A \<in> set (take (length s - length r) s) then None else Some r)"

definition scan_uint :: "nat \<Rightarrow> string \<Rightarrow> (nat \<times> string) option" where
  "scan_uint bits s =
     (case skip_space s of
        None \<Rightarrow> None
      | Some r \<Rightarrow>
          let tok = takeWhile is_digit r in
          if tok = [] then None
          else if 2 ^ bits \<le> digits_value tok then None
          else Some (digits_value tok, dropWhile is_digit r))"

definition scan_field :: "string \<Rightarrow> nat \<Rightarrow> string \<Rightarrow> (nat \<times> string) option" where
  "scan_field literal bits s =
     (case strip_prefix literal s of None \<Rightarrow> None | Some r \<Rightarrow> scan_uint bits r)"

definition Sscanf_params :: "string \<Rightarrow> (uint32 \<times> uint32 \<times> byte) option" where
  "Sscanf_params s =
     (case scan_field ''m='' 32 s of
        None \<Rightarrow> None
      | Some (m, s1) \<Rightarrow>
     (case scan_field '',t='' 32 s1 of
        None \<Rightarrow> None
      | Some (t, s2) \<Rightarrow>
     (case scan_field '',p='' 8 s2 of
        None \<Rightarrow> None
      | Some (p, _) \<Rightarrow> Some (word_of_nat m, word_of_nat t, word_of_nat p))))"

section \<open>Password records\<close>

definition argon2_memory :: uint32 where "argon2_memory = 64 * 1024"
definition argon2_iterations :: uint32 where "argon2_iterations = 3"
definition argon2_parallelism :: byte where "argon2_parallelism = 2"
definition argon2_saltLen :: nat where "argon2_saltLen = 16"
definition argon2_keyLen :: uint32 where "argon2_keyLen = 32"

definition format_record :: "uint32 \<Rightarrow> uint32 \<Rightarrow> byte \<Rightarrow> byte list \<Rightarrow> byte list \<Rightarrow> string" where
  "format_record memory iterations parallelism salt hash =
     ''$argon2id$v=19$m='' @ decimal (unat memory) @ '',t='' @ decimal (unat iterations)
       @ '',p='' @ decimal (unat parallelism) @ ''$'' @ b64_encode salt @ ''$'' @ b64_encode hash"

definition hashPassword :: "outside \<Rightarrow> string \<Rightarrow> string result" where
  "hashPassword w password =
     (case rand_salt w of
        None \<Rightarrow> Inl (ExtError ''rand.Read'')
      | Some rnd \<Rightarrow>
          let salt = map rnd [0..<argon2_saltLen];
              hash = argon2_IDKey w (bytes_of_string password) salt
                       argon2_iterations argon2_memory argon2_parallelism argon2_keyLen
          in Inr (format_record argon2_memory argon2_iterations argon2_parallelism salt hash))"

definition verifyPassword :: "argon2_fn \<Rightarrow> string \<Rightarrow> string \<Rightarrow> bool result" where
  "verifyPassword IDKey password encoded =
     (let parts = Split CHR ''$'' encoded in
      if length parts \<noteq> 6 \<or> parts ! 1 \<noteq> ''argon2id'' then Inl (ErrorText ''invalid argon2id hash format'')
      else if parts ! 2 \<noteq> ''v=19'' then Inl (ErrorText ''unsupported argon2 version'')
      else case Sscanf_params (parts ! 3) of
          None \<Rightarrow> Inl (Errorf ''invalid argon2 params'' (ExtError ''Sscanf''))
        | Some (memory, iterations, parallelism) \<Rightarrow>
      (case b64_decode (parts ! 4) of
          None \<Rightarrow> Inl (Errorf ''invalid argon2 salt'' (ExtError ''base64''))
        | Some salt \<Rightarrow>
      (case b64_decode (parts ! 5) of
          None \<Rightarrow> Inl (Errorf ''invalid argon2 hash'' (ExtError ''base64''))
        | Some expectedHash \<Rightarrow>
            if expectedHash = [] then Inl (ErrorText ''empty argon2 hash'')
            else Inr (IDKey (bytes_of_string password) salt iterations memory parallelism
                        (word_of_nat (length expectedHash)) = expectedHash))))"

section \<open>Round trip\<close>

text \<open>Documented behaviour of \<open>argon2.IDKey\<close>: the key has the requested length.\<close>

definition argon2_key_length :: "argon2_fn \<Rightarrow> bool" where
  "argon2_key_length IDKey \<longleftrightarrow>
     (\<forall>pw salt t m p n. length (IDKey pw salt t m p n) = unat n)"

lemma skip_space_digit: "is_digit c \<Longrightarrow> skip_space (c # s) = Some (c # s)"
proof -
  assume "is_digit c"
  then have "plain_char c" by (auto simp: is_digit_def plain_char_def)
  then have "\<not> prefix e (c # s)" if "e \<in> set space_encodings" for e
    using space_encodings_ends [OF that] by (cases e) auto
  then have "strip_all space_encodings (c # s) = c # s" by (intro strip_all_id) blast
  then show ?thesis by (simp add: skip_space_def)
qed

lemma decimal_hd_digit: "is_digit (hd (decimal n @ r))"
  using decimal_digits [of n] by (cases "decimal n") (auto simp: list_all_iff)

lemma scan_uint_decimal [codec_simps]:
  assumes "n < 2 ^ bits" and "r = [] \<or> \<not> is_digit (hd r)"
  shows "scan_uint bits (decimal n @ r) = Some (n, r)"
proof -
  have skip: "skip_space (decimal n @ r) = Some (decimal n @ r)"
    using decimal_hd_digit [of n r] by (cases "decimal n @ r") (auto simp: skip_space_digit)
  have tw: "takeWhile is_digit (decimal n @ r) = decimal n \<and> dropWhile is_digit (decimal n @ r) = r"
    using assms(2) decimal_digits [of n] by (cases r) (auto simp: list_all_iff takeWhile_append dropWhile_append)
  show ?thesis using assms(1) by (simp add: scan_uint_def skip tw digits_value_decimal)
qed

lemma strip_prefix_append [simp]: "strip_prefix p (p @ r) = Some r"
  by (simp add: strip_prefix_Some_iff)

lemma Sscanf_params_format [codec_simps]:
  "Sscanf_params (''m='' @ decimal (unat m) @ '',t='' @ decimal (unat t) @ '',p='' @ decimal (unat p))
     = Some (m, t, p)"
proof -
  have comma: "\<not> is_digit CHR '',''" by (simp add: is_digit_def byte_val_def)
  have b: "unat m < 2 ^ 32" "unat t < 2 ^ 32" "unat p < 2 ^ 8"
    using unsigned_less [of m] unsigned_less [of t] unsigned_less [of p] by simp_all
  have 1: "scan_field ''m='' 32 (''m='' @ decimal (unat m) @ ('',t='' @ decimal (unat t) @ '',p='' @ decimal (unat p)))
      = Some (unat m, '',t='' @ decimal (unat t) @ '',p='' @ decimal (unat p))"
    unfolding scan_field_def strip_prefix_append option.case
    by (rule scan_uint_decimal [OF b(1)]) (simp add: comma)
  have 2: "scan_field '',t='' 32 ('',t='' @ decimal (unat t) @ ('',p='' @ decimal (unat p)))
      = Some (unat t, '',p='' @ decimal (unat p))"
    unfolding scan_field_def strip_prefix_append option.case
    by (rule scan_uint_decimal [OF b(2)]) (simp add: comma)
  have 3: "scan_field '',p='' 8 ('',p='' @ decimal (unat p)) = Some (unat p, [])"
    using scan_uint_decimal [OF b(3), of "[]"] by (simp add: scan_field_def)
  show ?thesis unfolding Sscanf_params_def 1 option.case prod.case 2 3 by simp
qed

lemma decimal_no_dollar: "CHR ''$'' \<notin> set (decimal n)"
  using decimal_digits [of n] by (auto simp: list_all_iff is_digit_def byte_val_def)

lemma Split_record:
  "Split CHR ''$'' (format_record m t p salt key) =
     [[], ''argon2id'', ''v=19'',
      ''m='' @ decimal (unat m) @ '',t='' @ decimal (unat t) @ '',p='' @ decimal (unat p),
      b64_encode salt, b64_encode key]"
proof -
  let ?ps = "[[], ''argon2id'', ''v=19'',
      ''m='' @ decimal (unat m) @ '',t='' @ decimal (unat t) @ '',p='' @ decimal (unat p),
      b64_encode salt, b64_encode key]"
  have "format_record m t p salt key = Join ''$'' ?ps" by (simp add: format_record_def)
  moreover have "\<forall>q\<in>set ?ps. CHR ''$'' \<notin> set q"
    by (simp add: decimal_no_dollar b64_encode_no_dollar)
  ultimately show ?thesis using Split_Join [of ?ps "CHR ''$''"] by simp
qed

lemma verify_record:
  assumes "key \<noteq> []" and "length key < 2 ^ 32"
  shows "verifyPassword IDKey q (format_record m t p salt key) =
    Inr (IDKey (bytes_of_string q) salt t m p (word_of_nat (length key)) = key)"
  using assms(1)
  by (simp add: verifyPassword_def Split_record Sscanf_params_format [simplified] b64_decode_encode)

lemma hashPassword_verifies:
  assumes h: "hashPassword w password = Inr encoded" and len: "argon2_key_length (argon2_IDKey w)"
  shows "\<exists>salt. length salt = 16 \<and> (\<forall>q. verifyPassword (argon2_IDKey w) q encoded =
         Inr (argon2_IDKey w (bytes_of_string q) salt 3 65536 2 32
                = argon2_IDKey w (bytes_of_string password) salt 3 65536 2 32))"
proof -
  obtain rnd where r: "rand_salt w = Some rnd"
    using h by (auto simp: hashPassword_def split: option.splits)
  define salt where "salt = map rnd [0..<16]"
  define key where "key = argon2_IDKey w (bytes_of_string password) salt 3 65536 2 32"
  have e: "encoded = format_record 65536 3 2 salt key"
    using h r by (simp add: hashPassword_def Let_def key_def salt_def argon2_saltLen_def argon2_memory_def
        argon2_iterations_def argon2_parallelism_def argon2_keyLen_def)
  have "length key = unat (32 :: uint32)" using len unfolding argon2_key_length_def key_def by blast
  then have k: "length key = 32" by simp
  then have "verifyPassword (argon2_IDKey w) q encoded =
      Inr (argon2_IDKey w (bytes_of_string q) salt 3 65536 2 32 = key)" for q
    using e verify_record [of key "argon2_IDKey w" q] by fastforce
  then show ?thesis unfolding key_def salt_def by (auto intro!: exI [of _ "map rnd [0..<16]"])
qed

text \<open>
  C28. Password records round-trip through their text form: a record made by
  \<open>hashPassword\<close> is well-formed, verifies the password it was made from, and gives for any
  other password the comparison of the two Argon2 keys under the stored salt, so a wrong
  password is accepted only if Argon2 itself collides.
\<close>

theorem password_record_roundtrip:
  assumes h: "hashPassword w password = Inr encoded" and len: "argon2_key_length (argon2_IDKey w)"
  shows "verifyPassword (argon2_IDKey w) password encoded = Inr True
    \<and> (\<exists>salt. length salt = 16 \<and> (\<forall>q. verifyPassword (argon2_IDKey w) q encoded =
         Inr (argon2_IDKey w (bytes_of_string q) salt 3 65536 2 32
                = argon2_IDKey w (bytes_of_string password) salt 3 65536 2 32)))"
  using hashPassword_verifies [OF h len] by auto

theorem password_record_roundtrip_witness:
  "\<exists>encoded. hashPassword quiet_outside ''secret'' = Inr encoded
     \<and> verifyPassword (argon2_IDKey quiet_outside) ''secret'' encoded = Inr True"
proof -
  obtain encoded where h: "hashPassword quiet_outside ''secret'' = Inr encoded"
    by (simp add: hashPassword_def quiet_outside_def Let_def)
  have "argon2_key_length (argon2_IDKey quiet_outside)"
    by (simp add: argon2_key_length_def quiet_outside_def)
  then show ?thesis using password_record_roundtrip [OF h] h by blast
qed

text \<open>
  C36. \<open>verifyPassword\<close> accepts only a complete record: version 19 of Argon2id in six
  fields, parameters in range, salt and key valid base64, and a non-empty key that is the
  derived one. In particular a record with an empty key never verifies any password.
\<close>

theorem verifyPassword_accepts_only_derived_key:
  assumes "verifyPassword IDKey password encoded = Inr True"
  shows "\<exists>pre params s k memory iterations parallelism salt key.
    Split CHR ''$'' encoded = [pre, ''argon2id'', ''v=19'', params, s, k]
    \<and> Sscanf_params params = Some (memory, iterations, parallelism)
    \<and> b64_decode s = Some salt \<and> b64_decode k = Some key \<and> key \<noteq> []
    \<and> key = IDKey (bytes_of_string password) salt iterations memory parallelism (word_of_nat (length key))"
proof -
  have six: "\<exists>a b c d e f. ps = [a, b, c, d, e, f]" if "length ps = 6" for ps :: "string list"
    using that by (auto simp: numeral_eq_Suc length_Suc_conv)
  show ?thesis
    using assms six [of "Split CHR ''$'' encoded"]
    by (auto simp: verifyPassword_def Let_def split: if_splits option.splits)
qed

theorem verifyPassword_accepts_only_derived_key_witness:
  "verifyPassword (\<lambda>pw salt t m p n. [7]) ''x'' (format_record 1 1 1 [1] [7]) = Inr True
   \<and> (\<exists>pre params s k. Split CHR ''$'' (format_record 1 1 1 [1] [7]) = [pre, ''argon2id'', ''v=19'', params, s, k]
       \<and> Sscanf_params params \<noteq> None)"
proof -
  have v: "verifyPassword (\<lambda>pw salt t m p n. [7]) ''x'' (format_record 1 1 1 [1] [7]) = Inr True"
    by (simp add: verify_record)
  show ?thesis using verifyPassword_accepts_only_derived_key [OF v] v by auto
qed

end
