(* ===== verification/Sha256.thy ===== *)
theory Sha256
  imports Go_Codecs
begin

text \<open>
  \<open>crypto/sha256\<close>: \<open>Sum256\<close> of a byte slice (FIPS 180-4), the function behind
  \<open>hashToken\<close> in \<open>src/server/auth/auth.go\<close>. Words are 32 bits wide and all
  additions wrap. The development relies on the length of a digest only; the known-answer
  test at the end ties the definition to the published function.
\<close>

unbundle bit_operations_syntax

definition rotr32 :: "nat \<Rightarrow> uint32 \<Rightarrow> uint32" where
  "rotr32 n w = drop_bit n w OR push_bit (32 - n) w"

text \<open>Faster to evaluate: a rotation as a division.\<close>

lemma rotr32_div [code]:
  "rotr32 n w = (if n \<le> 32 then let x = uint w; m = 2 ^ n in word_of_int (x div m + (x mod m) * 2 ^ (32 - n))
     else drop_bit n w OR push_bit (32 - n) w)"
proof (cases "n \<le> 32")
  case True
  have "drop_bit n w OR push_bit (32 - n) w = drop_bit n w + push_bit (32 - n) w"
    using True by (intro disjunctive_add [symmetric]) (auto simp: bit_simps dest: bit_imp_le_length)
  moreover have "drop_bit n w = word_of_int (uint w div 2 ^ n)"
    by (simp add: drop_bit_eq_div [symmetric] bit_eq_iff) (auto simp: bit_simps)
  moreover have "push_bit (32 - n) w = word_of_int ((uint w mod 2 ^ n) * 2 ^ (32 - n))"
    using True by (auto simp: take_bit_eq_mod [symmetric] push_bit_eq_mult [symmetric] bit_eq_iff bit_simps)
  ultimately show ?thesis using True by (simp add: rotr32_def Let_def)
qed (simp add: rotr32_def)

text \<open>The round constants, eight to a row, most significant first.\<close>

fun sha_row :: "nat \<Rightarrow> int \<Rightarrow> uint32 list \<Rightarrow> uint32 list" where
  "sha_row 0 n acc = acc"
| "sha_row (Suc k) n acc = sha_row k (n div 0x100000000) (word_of_int n # acc)"

definition sha_K :: "uint32 list" where
  "sha_K = concat (map (\<lambda>n. sha_row 8 n [])
    [0x428a2f9871374491b5c0fbcfe9b5dba53956c25b59f111f1923f82a4ab1c5ed5,
     0xd807aa9812835b01243185be550c7dc372be5d7480deb1fe9bdc06a7c19bf174,
     0xe49b69c1efbe47860fc19dc6240ca1cc2de92c6f4a7484aa5cb0a9dc76f988da,
     0x983e5152a831c66db00327c8bf597fc7c6e00bf3d5a7914706ca635114292967,
     0x27b70a852e1b21384d2c6dfc53380d13650a7354766a0abb81c2c92e92722c85,
     0xa2bfe8a1a81a664bc24b8b70c76c51a3d192e819d6990624f40e3585106aa070,
     0x19a4c1161e376c082748774c34b0bcb5391c0cb34ed8aa4a5b9cca4f682e6ff3,
     0x748f82ee78a5636f84c878148cc7020890befffaa4506cebbef9a3f7c67178f2])"

type_synonym sha_state =
  "uint32 \<times> uint32 \<times> uint32 \<times> uint32 \<times> uint32 \<times> uint32 \<times> uint32 \<times> uint32"

definition sha_H0 :: sha_state where
  "sha_H0 = (0x6a09e667, 0xbb67ae85, 0x3c6ef372, 0xa54ff53a, 0x510e527f, 0x9b05688c, 0x1f83d9ab, 0x5be0cd19)"

definition sha_pad :: "byte list \<Rightarrow> byte list" where
  "sha_pad bs =
     (let n = length bs; l = (word_of_nat (8 * n) :: uint64) in
      bs @ [0x80] @ replicate ((119 - n mod 64) mod 64) 0
      @ map (\<lambda>k. ucast (drop_bit k l)) [56, 48, 40, 32, 24, 16, 8, 0])"

fun sha_words :: "byte list \<Rightarrow> uint32 list" where
  "sha_words (a # b # c # d # rest) = Uint32 a b c d # sha_words rest"
| "sha_words _ = []"

definition sha_sigma0 :: "uint32 \<Rightarrow> uint32" where
  "sha_sigma0 x = rotr32 7 x XOR rotr32 18 x XOR drop_bit 3 x"

definition sha_sigma1 :: "uint32 \<Rightarrow> uint32" where
  "sha_sigma1 x = rotr32 17 x XOR rotr32 19 x XOR drop_bit 10 x"

text \<open>The message schedule, latest word first.\<close>

fun sha_extend :: "nat \<Rightarrow> uint32 list \<Rightarrow> uint32 list" where
  "sha_extend 0 ws = ws"
| "sha_extend (Suc n) ws =
     sha_extend n ((sha_sigma1 (ws ! 1) + ws ! 6 + sha_sigma0 (ws ! 14) + ws ! 15) # ws)"

definition sha_round :: "uint32 \<times> uint32 \<Rightarrow> sha_state \<Rightarrow> sha_state" where
  "sha_round = (\<lambda>(k, w) (a, b, c, d, e, f, g, h).
     let s1 = rotr32 6 e XOR rotr32 11 e XOR rotr32 25 e;
         ch = (e AND f) XOR (NOT e AND g);
         t1 = h + s1 + ch + k + w;
         s0 = rotr32 2 a XOR rotr32 13 a XOR rotr32 22 a;
         mj = (a AND b) XOR (a AND c) XOR (b AND c);
         t2 = s0 + mj
     in (t1 + t2, a, b, c, d + t1, e, f, g))"

definition sha_add :: "sha_state \<Rightarrow> sha_state \<Rightarrow> sha_state" where
  "sha_add = (\<lambda>(a, b, c, d, e, f, g, h) (a', b', c', d', e', f', g', h').
     (a + a', b + b', c + c', d + d', e + e', f + f', g + g', h + h'))"

definition sha_block :: "uint32 list \<Rightarrow> sha_state \<Rightarrow> sha_state" where
  "sha_block blk st = sha_add st (fold sha_round (zip sha_K (rev (sha_extend 48 (rev blk)))) st)"

fun sha_blocks :: "nat \<Rightarrow> uint32 list \<Rightarrow> sha_state \<Rightarrow> sha_state" where
  "sha_blocks 0 ws st = st"
| "sha_blocks (Suc n) ws st = sha_blocks n (drop 16 ws) (sha_block (take 16 ws) st)"

definition Sum256 :: "byte list \<Rightarrow> byte list" where
  "Sum256 bs =
     (let ws = sha_words (sha_pad bs) in
      case sha_blocks (length ws div 16) ws sha_H0 of
        (a, b, c, d, e, f, g, h) \<Rightarrow> concat (map PutUint32 [a, b, c, d, e, f, g, h]))"

lemma length_Sum256 [simp, codec_simps]: "length (Sum256 bs) = 32"
  by (simp add: Sum256_def Let_def split: prod.split)

lemma Sum256_not_Nil [simp]: "Sum256 bs \<noteq> []"
  using length_Sum256 [of bs] by (metis list.size(3) zero_neq_numeral)

lemma sha_pad_length: "length (sha_pad bs) = length bs + 9 + (119 - length bs mod 64) mod 64"
  by (simp add: sha_pad_def Let_def)

lemma length_sha_pad_mod: "length (sha_pad bs) mod 64 = 0"
proof -
  define q r where "q = length bs div 64" and "r = length bs mod 64"
  then have n: "length bs = 64 * q + r" and r: "r < 64" by auto
  have "length (sha_pad bs) = 64 * q + r + 9 + (119 - r) mod 64"
    using sha_pad_length [of bs] n r by simp
  also have "\<dots> = 64 * (if r \<le> 55 then q + 1 else q + 2)"
  proof (cases "r \<le> 55")
    case True
    then have "(119 - r) mod 64 = 55 - r" by (subst mod_if) simp
    with True show ?thesis by simp
  next
    case False
    with r show ?thesis by simp
  qed
  finally show ?thesis by simp
qed

lemma Sum256_abc:
  "Sum256 (bytes_of_string ''abc'') =
     [0xba, 0x78, 0x16, 0xbf, 0x8f, 0x01, 0xcf, 0xea, 0x41, 0x41, 0x40, 0xde, 0x5d, 0xae, 0x22, 0x23,
      0xb0, 0x03, 0x61, 0xa3, 0x96, 0x17, 0x7a, 0x9c, 0xb4, 0x10, 0xff, 0x61, 0xf2, 0x00, 0x15, 0xad]"
  by code_simp

lemma Sum256_a:
  "Sum256 (bytes_of_string ''a'') =
     [0xca, 0x97, 0x81, 0x12, 0xca, 0x1b, 0xbd, 0xca, 0xfa, 0xc2, 0x31, 0xb3, 0x9a, 0x23, 0xdc, 0x4d,
      0xa7, 0x86, 0xef, 0xf8, 0x14, 0x7c, 0x4e, 0x72, 0xb9, 0x80, 0x77, 0x85, 0xaf, 0xee, 0x48, 0xbb]"
  by code_simp

lemma Sum256_not_constant: "Sum256 (bytes_of_string ''abc'') \<noteq> x \<or> Sum256 (bytes_of_string ''a'') \<noteq> x"
proof -
  have "Sum256 (bytes_of_string ''abc'') \<noteq> Sum256 (bytes_of_string ''a'')"
    unfolding Sum256_abc Sum256_a by simp
  then show ?thesis by metis
qed

end
