(* ===== verification/Auth.thy ===== *)
theory Auth
  imports Cache Database Password Sha256
begin

text \<open>
  \<open>src/server/auth/auth.go\<close>: registration and the two ways to log in, over the default
  database and the default cache. The state of the two stores and of the process-wide
  variables is one record; a call returns its result and the state it leaves, also when it
  fails half way.
\<close>

section \<open>State and data\<close>

record backend =
  b_db :: db_globals
  b_cache :: cache_globals
  b_tables :: tables
  b_redis :: redis_store

record AuthCredentials =
  c_Username :: string
  c_DisplayName :: string
  c_Password :: string
  c_DeviceID :: string
  c_DeviceName :: string

record AuthResult =
  a_UserID :: string
  a_DeviceID :: string
  a_DeviceName :: string
  a_SessionToken :: string

text \<open>A repository call and a cache call on the backend, and \<open>if err != nil { return err }\<close>.\<close>

definition on_db :: "(tables \<Rightarrow> 'a result \<times> tables) \<Rightarrow> backend \<Rightarrow> 'a result \<times> backend" where
  "on_db f b = (case f (b_tables b) of (r, db) \<Rightarrow> (r, b\<lparr>b_tables := db\<rparr>))"

definition on_redis :: "(redis_store \<Rightarrow> 'a result \<times> redis_store) \<Rightarrow> backend \<Rightarrow> 'a result \<times> backend" where
  "on_redis f b = (case f (b_redis b) of (r, rs) \<Rightarrow> (r, b\<lparr>b_redis := rs\<rparr>))"

fun and_then :: "'a result \<times> 's \<Rightarrow> ('a \<Rightarrow> 's \<Rightarrow> 'b result \<times> 's) \<Rightarrow> 'b result \<times> 's" where
  "and_then (Inl err, s) k = (Inl err, s)"
| "and_then (Inr x, s) k = k x s"

text \<open>An error that means \<open>target\<close> is replaced.\<close>

fun replace_error :: "goerror \<Rightarrow> goerror \<Rightarrow> 'a result \<times> 's \<Rightarrow> 'a result \<times> 's" where
  "replace_error target err' (Inl err, s) = (Inl (if errors_is err target then err' else err), s)"
| "replace_error target err' (Inr x, s) = (Inr x, s)"

section \<open>Tokens\<close>

definition hashToken :: "string \<Rightarrow> byte list" where
  "hashToken token = Sum256 (bytes_of_string token)"

definition generateSessionTokenPair :: "outside \<Rightarrow> (string \<times> byte list) result" where
  "generateSessionTokenPair w =
     (case rand_token w of
        None \<Rightarrow> Inl (ExtError ''rand.Read'')
      | Some rnd \<Rightarrow> let token = hex_EncodeToString (map rnd [0..<32]) in Inr (token, hashToken token))"

section \<open>Operations\<close>

definition defaultDeps :: "backend \<Rightarrow> (PPDatabase \<times> PPCache option) result" where
  "defaultDeps b =
     (case DefaultDB (b_db b) of
        Inl err \<Rightarrow> Inl err
      | Inr database \<Rightarrow>
          Inr (database, case DefaultCache (b_cache b) of Inl _ \<Rightarrow> None | Inr redis \<Rightarrow> Some redis))"

definition rejectIfPendingDeletion :: "outside \<Rightarrow> string \<Rightarrow> backend \<Rightarrow> unit result \<times> backend" where
  "rejectIfPendingDeletion w userID b =
     and_then (on_db (ExistsActiveByUserID w userID) b)
       (\<lambda>pending b1. if pending then (Inl ErrAccountPendingDeletion, b1) else (Inr (), b1))"

definition Register :: "outside \<Rightarrow> AuthCredentials \<Rightarrow> backend \<Rightarrow> AuthResult result \<times> backend" where
  "Register w creds b =
     and_then (defaultDeps b, b) (\<lambda>(database, redis) b.
     let normalized = NormalizeUsername (lower_table w) (c_Username creds) in
     if \<not> ValidUsername normalized then (Inl ErrInvalidUsername, b)
     else if TrimSpace (c_Password creds) = '''' then (Inl ErrPasswordRequired, b)
     else
     let deviceID = TrimSpace (c_DeviceID creds) in
     if deviceID = '''' then (Inl ErrDeviceIDRequired, b)
     else
     let deviceName = TrimSpace (c_DeviceName creds); displayName = TrimSpace (c_DisplayName creds) in
     and_then (if redis \<noteq> None then on_redis (UsernameExists w redis normalized) b else (Inr False, b)) (\<lambda>ex b.
     if ex then (Inl ErrUsernameTaken, b)
     else
     and_then (on_db (IsUsernameAvailable w normalized) b) (\<lambda>available b.
     if \<not> available then (Inl ErrUsernameTaken, b)
     else
     and_then (hashPassword w (c_Password creds), b) (\<lambda>passwordHash b.
     and_then (on_db (CreateUser w normalized displayName passwordHash) b) (\<lambda>user b.
     let b = (if redis \<noteq> None then snd (on_redis (SetUsername w redis normalized (u_ID user)) b) else b) in
     and_then (generateSessionTokenPair w, b) (\<lambda>(sessionToken, sessionTokenHash) b.
     and_then (on_db (UpsertActiveToken w (u_ID user) deviceID deviceName sessionTokenHash) b) (\<lambda>_ b.
     (Inr \<lparr>a_UserID = u_ID user, a_DeviceID = deviceID, a_DeviceName = deviceName,
           a_SessionToken = sessionToken\<rparr>, b))))))))"

definition LoginByCredentials :: "outside \<Rightarrow> AuthCredentials \<Rightarrow> backend \<Rightarrow> AuthResult result \<times> backend" where
  "LoginByCredentials w creds b =
     and_then (defaultDeps b, b) (\<lambda>_ b.
     let normalized = NormalizeUsername (lower_table w) (c_Username creds) in
     if \<not> ValidUsername normalized then (Inl ErrInvalidCredentials, b)
     else if TrimSpace (c_Password creds) = '''' then (Inl ErrInvalidCredentials, b)
     else
     let deviceID = TrimSpace (c_DeviceID creds) in
     if deviceID = '''' then (Inl ErrDeviceIDRequired, b)
     else
     let deviceName = TrimSpace (c_DeviceName creds) in
     and_then (replace_error ErrUserNotFound ErrInvalidCredentials (on_db (GetUserByUsername w normalized) b)) (\<lambda>user b.
     if verifyPassword (argon2_IDKey w) (c_Password creds) (u_PasswordHash user) \<noteq> Inr True
     then (Inl ErrInvalidCredentials, b)
     else
     and_then (rejectIfPendingDeletion w (u_ID user) b) (\<lambda>_ b.
     and_then (generateSessionTokenPair w, b) (\<lambda>(sessionToken, sessionTokenHash) b.
     and_then (on_db (UpsertActiveToken w (u_ID user) deviceID deviceName sessionTokenHash) b) (\<lambda>_ b.
     (Inr \<lparr>a_UserID = u_ID user, a_DeviceID = deviceID, a_DeviceName = deviceName,
           a_SessionToken = sessionToken\<rparr>, b))))))"

definition LoginByToken :: "outside \<Rightarrow> string \<Rightarrow> backend \<Rightarrow> AuthResult result \<times> backend" where
  "LoginByToken w sessionToken0 b =
     and_then (defaultDeps b, b) (\<lambda>_ b.
     let sessionToken = TrimSpace sessionToken0 in
     if sessionToken = '''' then (Inl ErrSessionTokenNeeded, b)
     else
     let currentTokenHash = hashToken sessionToken in
     and_then (replace_error ErrUserTokenNotFound ErrInvalidToken
                 (on_db (GetActiveByTokenHash w currentTokenHash) b)) (\<lambda>storedToken b.
     and_then (rejectIfPendingDeletion w (t_UserID storedToken) b) (\<lambda>_ b.
     and_then (generateSessionTokenPair w, b) (\<lambda>(newToken, newTokenHash) b.
     and_then (replace_error ErrUserTokenNotFound ErrInvalidToken
                 (on_db (RotateToken w (t_TokenID storedToken) newTokenHash) b)) (\<lambda>_ b.
     (Inr \<lparr>a_UserID = t_UserID storedToken, a_DeviceID = t_DeviceID storedToken,
           a_DeviceName = t_DeviceName storedToken, a_SessionToken = newToken\<rparr>, b))))))"

section \<open>Reading off a successful call\<close>

lemma and_then_Inr_iff: "and_then x k = (Inr y, s) \<longleftrightarrow> (\<exists>z s1. x = (Inr z, s1) \<and> k z s1 = (Inr y, s))"
  by (cases x; cases "fst x") auto

lemma replace_error_Inr_iff [simp]: "replace_error t e x = (Inr y, s) \<longleftrightarrow> x = (Inr y, s)"
  by (cases x; cases "fst x") auto

lemma on_db_iff: "on_db f b = (r, b') \<longleftrightarrow> (\<exists>db. f (b_tables b) = (r, db) \<and> b' = b\<lparr>b_tables := db\<rparr>)"
  by (auto simp: on_db_def split: prod.split)

lemma on_redis_iff: "on_redis f b = (r, b') \<longleftrightarrow> (\<exists>rs. f (b_redis b) = (r, rs) \<and> b' = b\<lparr>b_redis := rs\<rparr>)"
  by (auto simp: on_redis_def split: prod.split)

lemmas run_simps = and_then_Inr_iff on_db_iff on_redis_iff

lemma rejectIfPendingDeletion_InrD:
  assumes "rejectIfPendingDeletion w i b = (Inr x, b')"
  shows "b' = b \<and> (\<exists>u. uuid_text w (TrimSpace i) = Some u \<and> lookup_by p_UserID u (deletions (b_tables b)) = None)"
  using assms
  by (auto simp: rejectIfPendingDeletion_def run_simps dest!: ExistsActiveByUserID_InrD split: if_splits)

lemma LoginByCredentials_InrD:
  assumes "LoginByCredentials w creds b = (Inr res, b')"
  obtains user u db' h where
    "ValidUsername (NormalizeUsername (lower_table w) (c_Username creds))"
    "lookup_by u_Username (NormalizeUsername (lower_table w) (c_Username creds)) (users (b_tables b)) = Some user"
    "verifyPassword (argon2_IDKey w) (c_Password creds) (u_PasswordHash user) = Inr True"
    "uuid_text w (TrimSpace (u_ID user)) = Some u" "lookup_by p_UserID u (deletions (b_tables b)) = None"
    "generateSessionTokenPair w = Inr (a_SessionToken res, h)"
    "UpsertActiveToken w (u_ID user) (TrimSpace (c_DeviceID creds)) (TrimSpace (c_DeviceName creds)) h (b_tables b) = (Inr (), db')"
    "b' = b\<lparr>b_tables := db'\<rparr>" "a_UserID res = u_ID user"
    "a_DeviceID res = TrimSpace (c_DeviceID creds)" "a_DeviceName res = TrimSpace (c_DeviceName creds)"
proof -
  show thesis
    using assms that
    by (auto simp: LoginByCredentials_def run_simps Let_def TrimSpace_ValidUsername split: if_splits
        dest!: GetUserByUsername_InrD rejectIfPendingDeletion_InrD)
qed

lemma LoginByToken_InrD:
  assumes "LoginByToken w tok b = (Inr res, b')"
  obtains r u db' h where
    "TrimSpace tok \<noteq> ''''" "lookup_by r_TokenHash (hashToken (TrimSpace tok)) (tokens (b_tables b)) = Some r"
    "uuid_text w (TrimSpace (r_UserID r)) = Some u" "lookup_by p_UserID u (deletions (b_tables b)) = None"
    "generateSessionTokenPair w = Inr (a_SessionToken res, h)"
    "RotateToken w (r_TokenID r) h (b_tables b) = (Inr (), db')"
    "b' = b\<lparr>b_tables := db'\<rparr>" "a_UserID res = r_UserID r" "a_DeviceID res = r_DeviceID r"
    "a_DeviceName res = t_DeviceName (scan_token r)"
proof -
  show thesis
    using assms that
    by (auto simp: LoginByToken_def run_simps Let_def scan_token_def split: if_splits
        dest!: GetActiveByTokenHash_InrD rejectIfPendingDeletion_InrD)
qed

lemma UsernameExists_InrD: "UsernameExists w c n rs = (Inr ex, rs') \<Longrightarrow> rs' = rs"
  by (auto simp: UsernameExists_def Let_def dest!: exchange_InrD split: if_splits prod.splits sum.splits)

text \<open>What registration leaves in the cache.\<close>

definition cache_of :: "backend \<Rightarrow> PPCache option" where
  "cache_of b = (case DefaultCache (b_cache b) of Inl _ \<Rightarrow> None | Inr redis \<Rightarrow> Some redis)"

definition cached_after_register :: "outside \<Rightarrow> string \<Rightarrow> string \<Rightarrow> backend \<Rightarrow> redis_store" where
  "cached_after_register w n uid b =
     (if cache_of b = None then b_redis b else snd (SetUsername w (cache_of b) n uid (b_redis b)))"

lemma defaultDeps_eq:
  "defaultDeps b = (case DefaultDB (b_db b) of Inl err \<Rightarrow> Inl err | Inr d \<Rightarrow> Inr (d, cache_of b))"
  by (simp add: defaultDeps_def cache_of_def split: sum.split)

lemma snd_on_redis [simp]: "snd (on_redis f b) = b\<lparr>b_redis := snd (f (b_redis b))\<rparr>"
  by (simp add: on_redis_def split: prod.split)

lemma Register_InrD:
  assumes "Register w creds b = (Inr res, b')"
  obtains user ph db1 db' h where
    "ValidUsername (NormalizeUsername (lower_table w) (c_Username creds))" "TrimSpace (c_Password creds) \<noteq> ''''"
    "hashPassword w (c_Password creds) = Inr ph"
    "CreateUser w (NormalizeUsername (lower_table w) (c_Username creds)) (TrimSpace (c_DisplayName creds)) ph (b_tables b)
       = (Inr user, db1)"
    "generateSessionTokenPair w = Inr (a_SessionToken res, h)"
    "UpsertActiveToken w (u_ID user) (TrimSpace (c_DeviceID creds)) (TrimSpace (c_DeviceName creds)) h db1 = (Inr (), db')"
    "b' = b\<lparr>b_tables := db', b_redis := cached_after_register w
        (NormalizeUsername (lower_table w) (c_Username creds)) (u_ID user) b\<rparr>"
    "a_UserID res = u_ID user"
    "a_DeviceID res = TrimSpace (c_DeviceID creds)" "a_DeviceName res = TrimSpace (c_DeviceName creds)"
    "defaultDB (b_db b) \<noteq> None"
proof -
  obtain d where d: "DefaultDB (b_db b) = Inr d"
    using assms by (auto simp: Register_def defaultDeps_eq run_simps split: sum.splits)
  then have d': "defaultDB (b_db b) \<noteq> None" by (auto simp: DefaultDB_def split: option.splits)
  show thesis
  proof (cases "cache_of b")
    case None
    then show thesis using assms d d' that
      by (auto simp: Register_def defaultDeps_eq run_simps Let_def cached_after_register_def split: if_splits
          dest!: IsUsernameAvailable_InrD)
  next
    case (Some c)
    then show thesis using assms d d' that
      by (auto simp: Register_def defaultDeps_eq run_simps Let_def cached_after_register_def
          split: if_splits dest!: IsUsernameAvailable_InrD UsernameExists_InrD)
  qed
qed

section \<open>Logging in with a token\<close>

lemma token_pair:
  assumes "generateSessionTokenPair w = Inr (tok, h)"
  shows "h = hashToken tok" "TrimSpace tok = tok" "tok \<noteq> []" "length tok = 64"
proof -
  obtain rnd where t: "tok = hex_EncodeToString (map rnd [0..<32])" "h = hashToken tok"
    using assms by (auto simp: generateSessionTokenPair_def Let_def split: option.splits)
  then show "h = hashToken tok" "TrimSpace tok = tok" "length tok = 64" by (simp_all add: TrimSpace_hex)
  then show "tok \<noteq> []" by auto
qed

lemma hashToken_not_Nil [simp]: "hashToken tok \<noteq> []"
  by (simp add: hashToken_def Sum256_not_Nil)

text \<open>
  The backend is up; and the token a request draws does not collide with a stored one,
  except for the row it is about to replace.
\<close>

definition backend_up :: "outside \<Rightarrow> backend \<Rightarrow> bool" where
  "backend_up w b \<longleftrightarrow> db_live w \<and> redis_live w \<and> defaultDB (b_db b) \<noteq> None
     \<and> ids_canonical w (b_tables b) \<and> db_wf (b_tables b) \<and> token_seq (b_tables b) < max_bigint"

definition draws_token :: "outside \<Rightarrow> (token_row \<Rightarrow> bool) \<Rightarrow> backend \<Rightarrow> bool" where
  "draws_token w own b \<longleftrightarrow> (case generateSessionTokenPair w of
      Inl _ \<Rightarrow> False
    | Inr (tok, h) \<Rightarrow> \<forall>r\<in>set (tokens (b_tables b)). \<not> own r \<longrightarrow> r_TokenHash r \<noteq> h)"

lemma draws_tokenE:
  assumes "draws_token w own b"
  obtains tok h where "generateSessionTokenPair w = Inr (tok, h)"
    "\<And>r. r \<in> set (tokens (b_tables b)) \<Longrightarrow> \<not> own r \<Longrightarrow> r_TokenHash r \<noteq> h"
  using assms by (auto simp: draws_token_def split: sum.splits)

lemma token_user_canonical:
  assumes "backend_up w b" "r \<in> set (tokens (b_tables b))"
  shows "uuid_text w (r_UserID r) = Some (r_UserID r)" "good_id (r_UserID r)"
proof -
  obtain x where "x \<in> set (users (b_tables b))" "r_UserID r = u_ID x"
    using assms by (auto simp: backend_up_def db_wf_def)
  then show "uuid_text w (r_UserID r) = Some (r_UserID r)" "good_id (r_UserID r)"
    using assms(1) by (auto simp: backend_up_def ids_canonical_def)
qed

lemma defaultDeps_up: "backend_up w b \<Longrightarrow> \<exists>d. defaultDeps b = Inr (d, cache_of b)"
  by (auto simp: backend_up_def defaultDeps_eq DefaultDB_def)

lemma reject_live:
  assumes "db_live w" "good_id i" "uuid_text w i = Some u"
  shows "rejectIfPendingDeletion w i b =
    (if lookup_by p_UserID u (deletions (b_tables b)) \<noteq> None then Inl ErrAccountPendingDeletion else Inr (), b)"
  using assms by (simp add: rejectIfPendingDeletion_def on_db_def ExistsActiveByUserID_live)

lemma LoginByToken_up:
  assumes up: "backend_up w b" and tok: "TrimSpace tok \<noteq> ''''"
  shows "LoginByToken w tok b =
    (case lookup_by r_TokenHash (hashToken (TrimSpace tok)) (tokens (b_tables b)) of
       None \<Rightarrow> (Inl ErrInvalidToken, b)
     | Some r \<Rightarrow>
         if lookup_by p_UserID (r_UserID r) (deletions (b_tables b)) \<noteq> None then (Inl ErrAccountPendingDeletion, b)
         else and_then (generateSessionTokenPair w, b) (\<lambda>(newToken, newTokenHash) b.
           and_then (replace_error ErrUserTokenNotFound ErrInvalidToken
                       (on_db (RotateToken w (r_TokenID r) newTokenHash) b)) (\<lambda>_ b.
           (Inr \<lparr>a_UserID = r_UserID r, a_DeviceID = r_DeviceID r,
                 a_DeviceName = t_DeviceName (scan_token r), a_SessionToken = newToken\<rparr>, b))))"
proof -
  obtain d where d: "defaultDeps b = Inr d" using defaultDeps_up [OF up] by auto
  have l: "db_live w" "db_wf (b_tables b)" using up by (auto simp: backend_up_def)
  show ?thesis
  proof (cases "lookup_by r_TokenHash (hashToken (TrimSpace tok)) (tokens (b_tables b))")
    case None
    then show ?thesis using d tok l by (simp add: LoginByToken_def on_db_def GetActive_live)
  next
    case (Some r)
    then have "r \<in> set (tokens (b_tables b))" by (auto dest: lookup_by_SomeD)
    note c = token_user_canonical [OF up this]
    show ?thesis using Some d tok l reject_live [OF l(1) c(2,1), of b]
      by (simp add: LoginByToken_def on_db_def GetActive_live scan_token_def)
  qed
qed

lemma LoginByToken_succeeds:
  assumes up: "backend_up w b" and fresh: "draws_token w (\<lambda>y. r_TokenHash y = hashToken (TrimSpace tok)) b"
    and tok: "TrimSpace tok \<noteq> ''''"
    and r: "lookup_by r_TokenHash (hashToken (TrimSpace tok)) (tokens (b_tables b)) = Some r"
    and np: "lookup_by p_UserID (r_UserID r) (deletions (b_tables b)) = None"
  shows "\<exists>res b'. LoginByToken w tok b = (Inr res, b') \<and> a_UserID res = r_UserID r
    \<and> a_DeviceID res = r_DeviceID r \<and> a_DeviceName res = t_DeviceName (scan_token r)"
proof -
  obtain t h where g: "generateSessionTokenPair w = Inr (t, h)"
    and h: "\<And>y. y \<in> set (tokens (b_tables b)) \<Longrightarrow> r_TokenHash y \<noteq> hashToken (TrimSpace tok) \<Longrightarrow> r_TokenHash y \<noteq> h"
    using fresh by (rule draws_tokenE) blast
  have "h \<noteq> []" using token_pair(1) [OF g] by simp
  then obtain db' where "RotateToken w (r_TokenID r) h (b_tables b) = (Inr (), db')"
    using RotateToken_live [of w "b_tables b" r h] up h lookup_by_SomeD [OF r] by (auto simp: backend_up_def)
  then show ?thesis
    using LoginByToken_up [OF up tok] r np g by (simp add: on_db_def)
qed

text \<open>
  C1. Session tokens are single-use and are renewed: after a successful \<open>LoginByToken\<close>
  (whatever exchanges failed on the way), the token that was presented no longer logs in
  and the token that was returned does, for the same user and device. The old and the new
  token are assumed not to collide under SHA-256.
\<close>

theorem LoginByToken_rotates:
  assumes login: "LoginByToken w tok b = (Inr res, b')" and wf: "db_wf (b_tables b)"
    and diff: "hashToken (TrimSpace tok) \<noteq> hashToken (a_SessionToken res)"
    and up: "backend_up w' b'" and fresh: "draws_token w' (\<lambda>y. r_TokenHash y = hashToken (a_SessionToken res)) b'"
    and canon: "uuid_text w (TrimSpace (a_UserID res)) = Some (a_UserID res)"
  shows "LoginByToken w' tok b' = (Inl ErrInvalidToken, b')
    \<and> (\<exists>res2 b2. LoginByToken w' (a_SessionToken res) b' = (Inr res2, b2)
         \<and> a_UserID res2 = a_UserID res \<and> a_DeviceID res2 = a_DeviceID res \<and> a_DeviceName res2 = a_DeviceName res)"
  using login
proof (rule LoginByToken_InrD)
  fix r u db' h
  assume tok: "TrimSpace tok \<noteq> ''''"
    and r: "lookup_by r_TokenHash (hashToken (TrimSpace tok)) (tokens (b_tables b)) = Some r"
    and u: "uuid_text w (TrimSpace (r_UserID r)) = Some u" "lookup_by p_UserID u (deletions (b_tables b)) = None"
    and g: "generateSessionTokenPair w = Inr (a_SessionToken res, h)"
    and rot: "RotateToken w (r_TokenID r) h (b_tables b) = (Inr (), db')"
    and b': "b' = b\<lparr>b_tables := db'\<rparr>"
    and res: "a_UserID res = r_UserID r" "a_DeviceID res = r_DeviceID r" "a_DeviceName res = t_DeviceName (scan_token r)"
  note pair = token_pair [OF g]
  have rmem: "r \<in> set (tokens (b_tables b))" "r_TokenHash r = hashToken (TrimSpace tok)"
    using lookup_by_SomeD [OF r] by auto
  from rot wf show ?thesis
  proof (rule RotateToken_effect)
    fix y
    assume y: "y \<in> set (tokens (b_tables b))" "r_TokenID y = r_TokenID r"
      and new: "lookup_by r_TokenHash h (tokens db') = Some (y\<lparr>r_TokenHash := h, r_LastUsedAt := pg_now w Q_RotateToken\<rparr>)"
      and old: "r_TokenHash y \<noteq> h \<Longrightarrow> lookup_by r_TokenHash (r_TokenHash y) (tokens db') = None"
      and del: "deletions db' = deletions (b_tables b)"
    have yr: "y = r" using y rmem(1) wf by (auto simp: db_wf_def unique_by_def distinct_map dest: inj_onD)
    have "lookup_by p_UserID (r_UserID r) (deletions db') = None" using u canon res(1) del by simp
    then have "\<exists>res2 b2. LoginByToken w' (a_SessionToken res) b' = (Inr res2, b2) \<and> a_UserID res2 = r_UserID r
        \<and> a_DeviceID res2 = r_DeviceID r \<and> a_DeviceName res2 = t_DeviceName (scan_token r)"
      using LoginByToken_succeeds [OF up, of "a_SessionToken res"] fresh new pair b' yr
      by (simp add: scan_token_def)
    moreover have "LoginByToken w' tok b' = (Inl ErrInvalidToken, b')"
      using LoginByToken_up [OF up tok] old yr rmem(2) pair(1) diff b' by simp
    ultimately show ?thesis using res by simp
  qed
qed

definition phone_backend :: "byte list \<Rightarrow> backend" where
  "phone_backend h = \<lparr>b_db = \<lparr>defaultDB = Some (database_on 1), closed_pools = []\<rparr>,
     b_cache = \<lparr>defaultCache = Some (NewPPCache 1), closed_clients = []\<rparr>,
     b_tables = alice_db\<lparr>tokens := [issue_row 0 1 ''u1'' h ''phone'' ''Pixel''], token_seq := 1\<rparr>,
     b_redis = Map.empty\<rparr>"

lemma phone_backend_up: "backend_up quiet_outside (phone_backend h)"
proof -
  have "good_id ''u1''" by code_simp
  moreover have "db_wf (b_tables (phone_backend h))"
    by (simp add: phone_backend_def alice_db_def db_wf_def unique_by_def max_bigint_def)
  ultimately show ?thesis
    by (simp add: backend_up_def redis_live_def phone_backend_def ids_canonical_def alice_db_def max_bigint_def)
qed

lemma quiet_token: "\<exists>t. generateSessionTokenPair quiet_outside = Inr (t, hashToken t)"
  by (simp add: generateSessionTokenPair_def quiet_outside_def Let_def)

lemma phone_backend_rotated:
  assumes "RotateToken quiet_outside 1 h2 (b_tables (phone_backend h)) = (Inr (), db')"
  shows "(phone_backend h)\<lparr>b_tables := db'\<rparr> = phone_backend h2"
  using assms by (auto simp: RotateToken_def sql_rotate_token_def phone_backend_def alice_db_def
      quiet_outside_def issue_row_def split: if_splits)

theorem LoginByToken_rotates_witness:
  "\<exists>tok h res b'. LoginByToken quiet_outside tok (phone_backend h) = (Inr res, b') \<and> a_UserID res = ''u1''
     \<and> LoginByToken quiet_outside tok b' = (Inl ErrInvalidToken, b')"
proof -
  obtain new where new: "generateSessionTokenPair quiet_outside = Inr (new, hashToken new)"
    using quiet_token by blast
  have plain: "TrimSpace ''abc'' = ''abc''" "TrimSpace ''a'' = ''a''" by code_simp+
  obtain tok where tok: "TrimSpace tok = tok" "tok \<noteq> ''''" "hashToken tok \<noteq> hashToken new"
    using Sum256_not_constant [of "hashToken new"] plain unfolding hashToken_def by auto
  let ?b = "phone_backend (hashToken tok)"
  have own: "draws_token quiet_outside (\<lambda>y. r_TokenHash y = h) (phone_backend h)" for h
    using new by (simp add: draws_token_def phone_backend_def)
  have "\<exists>res b'. LoginByToken quiet_outside tok ?b = (Inr res, b') \<and> a_UserID res = ''u1''"
    using LoginByToken_succeeds [OF phone_backend_up [of "hashToken tok"], of tok "issue_row 0 1 ''u1'' (hashToken tok) ''phone'' ''Pixel''"]
      own [of "hashToken tok"] tok by (simp add: phone_backend_def alice_db_def) blast
  then obtain res b' where l: "LoginByToken quiet_outside tok ?b = (Inr res, b')" "a_UserID res = ''u1''"
    by blast
  have s: "a_SessionToken res = new \<and> b' = phone_backend (hashToken new)"
    using l(1)
  proof (rule LoginByToken_InrD)
    fix r u db' h
    assume "lookup_by r_TokenHash (hashToken (TrimSpace tok)) (tokens (b_tables ?b)) = Some r"
      and g: "generateSessionTokenPair quiet_outside = Inr (a_SessionToken res, h)"
      and rot: "RotateToken quiet_outside (r_TokenID r) h (b_tables ?b) = (Inr (), db')" and b': "b' = ?b\<lparr>b_tables := db'\<rparr>"
    then have "r_TokenID r = 1" by (auto simp: phone_backend_def split: if_splits)
    then show ?thesis using g new rot b' phone_backend_rotated by auto
  qed
  have "TrimSpace ''u1'' = ''u1''" by code_simp
  then show ?thesis
    using LoginByToken_rotates [OF l(1), of quiet_outside] phone_backend_up own [of "hashToken new"] tok s l
    by (auto simp: backend_up_def)
qed

section \<open>Logging in with a password\<close>

text \<open>
  C13. A successful \<open>LoginByCredentials\<close> is justified and confined, whatever exchanges
  failed: the normalised name belongs to a stored user whose password record accepts the
  password and who has no pending deletion; the returned token now resolves to that user
  on the named device; users, pending deletions and the cache are untouched, and so is
  every token of another device.
\<close>

theorem LoginByCredentials_sound:
  assumes login: "LoginByCredentials w creds b = (Inr res, b')" and wf: "db_wf (b_tables b)"
  shows "\<exists>user r u. user \<in> set (users (b_tables b))
    \<and> u_Username user = NormalizeUsername (lower_table w) (c_Username creds)
    \<and> verifyPassword (argon2_IDKey w) (c_Password creds) (u_PasswordHash user) = Inr True
    \<and> uuid_text w (TrimSpace (u_ID user)) = Some u \<and> u \<notin> p_UserID ` set (deletions (b_tables b))
    \<and> a_UserID res = u_ID user
    \<and> lookup_by r_TokenHash (hashToken (a_SessionToken res)) (tokens (b_tables b')) = Some r
    \<and> r_UserID r = u \<and> r_DeviceID r = a_DeviceID res \<and> a_DeviceID res = TrimSpace (c_DeviceID creds)
    \<and> users (b_tables b') = users (b_tables b) \<and> deletions (b_tables b') = deletions (b_tables b)
    \<and> b_redis b' = b_redis b
    \<and> (\<forall>y\<in>set (tokens (b_tables b)). r_DeviceID y \<noteq> a_DeviceID res \<longrightarrow> y \<in> set (tokens (b_tables b')))"
  using login
proof (rule LoginByCredentials_InrD)
  fix user u db' h
  assume user: "lookup_by u_Username (NormalizeUsername (lower_table w) (c_Username creds)) (users (b_tables b)) = Some user"
    and v: "verifyPassword (argon2_IDKey w) (c_Password creds) (u_PasswordHash user) = Inr True"
    and u: "uuid_text w (TrimSpace (u_ID user)) = Some u" "lookup_by p_UserID u (deletions (b_tables b)) = None"
    and g: "generateSessionTokenPair w = Inr (a_SessionToken res, h)"
    and ups: "UpsertActiveToken w (u_ID user) (TrimSpace (c_DeviceID creds)) (TrimSpace (c_DeviceName creds)) h (b_tables b) = (Inr (), db')"
    and b': "b' = b\<lparr>b_tables := db'\<rparr>" and res: "a_UserID res = u_ID user" "a_DeviceID res = TrimSpace (c_DeviceID creds)"
  have h: "h = hashToken (a_SessionToken res)" by (rule token_pair [OF g])
  from ups obtain u' where "sql_upsert_token w u' h (a_DeviceID res) (TrimSpace (c_DeviceName creds)) (b_tables b) = (Inr (), db')"
    using res(2) by (auto elim!: UpsertActiveToken_InrD)
  then have keep: "y \<in> set (tokens db')" if "y \<in> set (tokens (b_tables b))" "r_DeviceID y \<noteq> a_DeviceID res" for y
    using that sql_upsert_token_InrD(4) by (force split: if_splits)
  from ups wf show ?thesis
  proof (rule UpsertActiveToken_effect)
    fix r
    assume "lookup_by r_TokenHash h (tokens db') = Some r" "uuid_text w (TrimSpace (u_ID user)) = Some (r_UserID r)"
      "r_DeviceID r = TrimSpace (TrimSpace (c_DeviceID creds))"
      "users db' = users (b_tables b)" "deletions db' = deletions (b_tables b)"
    then show ?thesis using lookup_by_SomeD [OF user] v u h b' res keep
      by (intro exI [of _ user] exI [of _ r] exI [of _ u]) (auto simp: lookup_by_None_iff)
  qed
qed

lemma LoginByCredentials_up:
  assumes up: "backend_up w b" and name: "ValidUsername (NormalizeUsername (lower_table w) (c_Username creds))"
    and pw: "TrimSpace (c_Password creds) \<noteq> ''''" and dev: "TrimSpace (c_DeviceID creds) \<noteq> ''''"
    and user: "lookup_by u_Username (NormalizeUsername (lower_table w) (c_Username creds)) (users (b_tables b)) = Some user"
  shows "verifyPassword (argon2_IDKey w) (c_Password creds) (u_PasswordHash user) \<noteq> Inr True
      \<Longrightarrow> LoginByCredentials w creds b = (Inl ErrInvalidCredentials, b)"
    and "verifyPassword (argon2_IDKey w) (c_Password creds) (u_PasswordHash user) = Inr True
      \<Longrightarrow> lookup_by p_UserID (u_ID user) (deletions (b_tables b)) \<noteq> None
      \<Longrightarrow> LoginByCredentials w creds b = (Inl ErrAccountPendingDeletion, b)"
    and "verifyPassword (argon2_IDKey w) (c_Password creds) (u_PasswordHash user) = Inr True
      \<Longrightarrow> lookup_by p_UserID (u_ID user) (deletions (b_tables b)) = None
      \<Longrightarrow> draws_token w (\<lambda>r. r_DeviceID r = TrimSpace (c_DeviceID creds)) b
      \<Longrightarrow> \<exists>res b'. LoginByCredentials w creds b = (Inr res, b') \<and> a_UserID res = u_ID user"
proof -
  let ?n = "NormalizeUsername (lower_table w) (c_Username creds)"
  have live: "db_live w" using up by (simp add: backend_up_def)
  obtain d where d: "defaultDeps b = Inr d" using defaultDeps_up [OF up] by auto
  have mem: "user \<in> set (users (b_tables b))" using lookup_by_SomeD [OF user] by simp
  then have c: "uuid_text w (u_ID user) = Some (u_ID user)" "good_id (u_ID user)"
    using up by (auto simp: backend_up_def ids_canonical_def)
  have get: "GetUserByUsername w ?n (b_tables b) = (Inr user, b_tables b)"
    using GetUserByUsername_live [OF live, of ?n "b_tables b"] name user
    by (simp add: good_id_def TrimSpace_ValidUsername ValidUsername_nonempty)
  note step = LoginByCredentials_def d name pw dev on_db_def get reject_live [OF live c(2,1)] Let_def
  show "verifyPassword (argon2_IDKey w) (c_Password creds) (u_PasswordHash user) \<noteq> Inr True
      \<Longrightarrow> LoginByCredentials w creds b = (Inl ErrInvalidCredentials, b)"
    using name pw dev by (simp add: step)
  show "verifyPassword (argon2_IDKey w) (c_Password creds) (u_PasswordHash user) = Inr True
      \<Longrightarrow> lookup_by p_UserID (u_ID user) (deletions (b_tables b)) \<noteq> None
      \<Longrightarrow> LoginByCredentials w creds b = (Inl ErrAccountPendingDeletion, b)"
    using name pw dev by (simp add: step)
  assume v: "verifyPassword (argon2_IDKey w) (c_Password creds) (u_PasswordHash user) = Inr True"
    and np: "lookup_by p_UserID (u_ID user) (deletions (b_tables b)) = None"
    and dr: "draws_token w (\<lambda>r. r_DeviceID r = TrimSpace (c_DeviceID creds)) b"
  obtain t h where g: "generateSessionTokenPair w = Inr (t, h)"
    and h: "\<And>r. r \<in> set (tokens (b_tables b)) \<Longrightarrow> r_DeviceID r \<noteq> TrimSpace (c_DeviceID creds) \<Longrightarrow> r_TokenHash r \<noteq> h"
    using dr by (rule draws_tokenE) blast
  have "h \<noteq> []" using token_pair(1) [OF g] by simp
  then obtain db' where "UpsertActiveToken w (u_ID user) (TrimSpace (c_DeviceID creds)) (TrimSpace (c_DeviceName creds)) h (b_tables b) = (Inr (), db')"
    using UpsertActiveToken_live [OF live c(2,1), of "b_tables b" "TrimSpace (c_DeviceID creds)" h] mem dev h up
    by (auto simp: backend_up_def)
  then show "\<exists>res b'. LoginByCredentials w creds b = (Inr res, b') \<and> a_UserID res = u_ID user"
    using v np g name pw dev by (simp add: step)
qed

section \<open>Registration\<close>

text \<open>What registering needs from the outside: a new canonical identifier and random bytes.\<close>

definition can_register :: "outside \<Rightarrow> AuthCredentials \<Rightarrow> backend \<Rightarrow> bool" where
  "can_register w creds b \<longleftrightarrow> backend_up w b
     \<and> lookup_by u_ID (new_uuid w) (users (b_tables b)) = None
     \<and> good_id (new_uuid w) \<and> uuid_text w (new_uuid w) = Some (new_uuid w) \<and> rand_salt w \<noteq> None
     \<and> (\<forall>c. cache_of b = Some c \<longrightarrow> cache_client c \<noteq> None)
     \<and> draws_token w (\<lambda>r. r_DeviceID r = TrimSpace (c_DeviceID creds)) b"

lemma UsernameExists_live:
  "redis_live w \<Longrightarrow> cache_client c \<noteq> None \<Longrightarrow> ValidUsername n \<Longrightarrow>
   UsernameExists w (Some c) n rs = (Inr (n \<in> cached_names rs), rs)"
  by (simp add: UsernameExists_def no_client_def redis_live_def cached_names_def
      TrimSpace_ValidUsername ValidUsername_nonempty)

text \<open>Up to the two checks of the name, registering needs the stores only.\<close>

lemma Register_checks:
  assumes up: "backend_up w b" and cache: "\<forall>c. cache_of b = Some c \<longrightarrow> cache_client c \<noteq> None"
    and name: "ValidUsername (NormalizeUsername (lower_table w) (c_Username creds))"
  shows "(if cache_of b \<noteq> None then on_redis (UsernameExists w (cache_of b) (NormalizeUsername (lower_table w) (c_Username creds))) b else (Inr False, b))
      = (Inr (cache_of b \<noteq> None \<and> NormalizeUsername (lower_table w) (c_Username creds) \<in> cached_names (b_redis b)), b)"
    and "on_db (IsUsernameAvailable w (NormalizeUsername (lower_table w) (c_Username creds))) b
      = (Inr (NormalizeUsername (lower_table w) (c_Username creds) \<notin> u_Username ` set (users (b_tables b))), b)"
proof -
  let ?n = "NormalizeUsername (lower_table w) (c_Username creds)"
  have live: "db_live w" "redis_live w" using up by (simp_all add: backend_up_def)
  have good: "good_id ?n" using name by (simp add: good_id_def TrimSpace_ValidUsername ValidUsername_nonempty)
  show "(if cache_of b \<noteq> None then on_redis (UsernameExists w (cache_of b) ?n) b else (Inr False, b))
      = (Inr (cache_of b \<noteq> None \<and> ?n \<in> cached_names (b_redis b)), b)"
    using cache name live by (cases "cache_of b") (auto simp: on_redis_def UsernameExists_live)
  show "on_db (IsUsernameAvailable w ?n) b = (Inr (?n \<notin> u_Username ` set (users (b_tables b))), b)"
    using lookup_by_not_None [of u_Username ?n "users (b_tables b)"]
    by (auto simp: on_db_def IsUsernameAvailable_live [OF live(1) good])
qed

lemma Register_taken:
  assumes up: "backend_up w b" and cache: "\<forall>c. cache_of b = Some c \<longrightarrow> cache_client c \<noteq> None"
    and name: "ValidUsername (NormalizeUsername (lower_table w) (c_Username creds))"
    and pw: "TrimSpace (c_Password creds) \<noteq> ''''" and dev: "TrimSpace (c_DeviceID creds) \<noteq> ''''"
    and taken: "NormalizeUsername (lower_table w) (c_Username creds) \<in> u_Username ` set (users (b_tables b))
        \<or> cache_of b \<noteq> None \<and> NormalizeUsername (lower_table w) (c_Username creds) \<in> cached_names (b_redis b)"
  shows "Register w creds b = (Inl ErrUsernameTaken, b)"
proof -
  obtain d where d: "defaultDeps b = Inr (d, cache_of b)" using defaultDeps_up [OF up] by auto
  show ?thesis using name pw dev taken Register_checks [OF up cache name] by (auto simp: Register_def d Let_def)
qed

lemma Register_up:
  assumes can: "can_register w creds b"
    and name: "ValidUsername (NormalizeUsername (lower_table w) (c_Username creds))"
    and pw: "TrimSpace (c_Password creds) \<noteq> ''''" and dev: "TrimSpace (c_DeviceID creds) \<noteq> ''''"
  shows "NormalizeUsername (lower_table w) (c_Username creds) \<in> u_Username ` set (users (b_tables b))
        \<or> cache_of b \<noteq> None \<and> NormalizeUsername (lower_table w) (c_Username creds) \<in> cached_names (b_redis b)
      \<Longrightarrow> Register w creds b = (Inl ErrUsernameTaken, b)"
    and "NormalizeUsername (lower_table w) (c_Username creds) \<notin> u_Username ` set (users (b_tables b))
      \<Longrightarrow> cache_of b = None \<or> NormalizeUsername (lower_table w) (c_Username creds) \<notin> cached_names (b_redis b)
      \<Longrightarrow> \<exists>res b'. Register w creds b = (Inr res, b') \<and> a_UserID res = new_uuid w"
proof -
  let ?n = "NormalizeUsername (lower_table w) (c_Username creds)"
  have up: "backend_up w b" and cache: "\<forall>c. cache_of b = Some c \<longrightarrow> cache_client c \<noteq> None"
    using can by (simp_all add: can_register_def)
  then have live: "db_live w" "redis_live w" by (simp_all add: backend_up_def)
  obtain d where d: "defaultDeps b = Inr (d, cache_of b)" using defaultDeps_up [OF up] by auto
  have good: "good_id ?n" using name by (simp add: good_id_def TrimSpace_ValidUsername ValidUsername_nonempty)
  note cached = Register_checks(1) [OF up cache name] and avail = Register_checks(2) [OF up cache name]
  note step = Register_def d Let_def
  show "?n \<in> u_Username ` set (users (b_tables b)) \<or> cache_of b \<noteq> None \<and> ?n \<in> cached_names (b_redis b)
      \<Longrightarrow> Register w creds b = (Inl ErrUsernameTaken, b)"
    by (rule Register_taken [OF up cache name pw dev])
  assume free: "?n \<notin> u_Username ` set (users (b_tables b))" "cache_of b = None \<or> ?n \<notin> cached_names (b_redis b)"
  obtain ph where ph: "hashPassword w (c_Password creds) = Inr ph" "ph \<noteq> ''''"
    using can by (auto simp: can_register_def hashPassword_def Let_def format_record_def)
  obtain user db1 where cu: "CreateUser w ?n (TrimSpace (c_DisplayName creds)) ph (b_tables b) = (Inr user, db1)"
    using free(1) lookup_by_not_None [of u_Username ?n "users (b_tables b)"] live(1) good ph can
    by (auto simp: CreateUser_def sql_insert_user_def Let_def db_live_def good_id_def can_register_def)
  note cuD = CreateUser_InrD [OF cu]
  obtain t h where g: "generateSessionTokenPair w = Inr (t, h)"
    and h: "\<And>r. r \<in> set (tokens (b_tables b)) \<Longrightarrow> r_DeviceID r \<noteq> TrimSpace (c_DeviceID creds) \<Longrightarrow> r_TokenHash r \<noteq> h"
    using can unfolding can_register_def by (auto elim!: draws_tokenE)
  have "h \<noteq> []" using token_pair(1) [OF g] by simp
  then have "\<exists>db'. UpsertActiveToken w (u_ID user) (TrimSpace (c_DeviceID creds)) (TrimSpace (c_DeviceName creds)) h db1 = (Inr (), db')"
    using cuD(5,6) can dev h up
    by (intro UpsertActiveToken_live [OF live(1), where u = "u_ID user"]) (auto simp: backend_up_def can_register_def)
  then show "\<exists>res b'. Register w creds b = (Inr res, b') \<and> a_UserID res = new_uuid w"
    using free name pw dev cached avail ph cu g cuD(5) by (auto simp: step on_db_def)
qed

text \<open>The account a registration leaves behind.\<close>

lemma Register_account:
  assumes reg: "Register w creds b = (Inr res, b')" and wf: "db_wf (b_tables b)"
    and len: "argon2_key_length (argon2_IDKey w)"
  obtains user salt where "ValidUsername (NormalizeUsername (lower_table w) (c_Username creds))"
    "lookup_by u_Username (NormalizeUsername (lower_table w) (c_Username creds)) (users (b_tables b')) = Some user"
    "lookup_by p_UserID (u_ID user) (deletions (b_tables b')) = None" "a_UserID res = u_ID user"
    "\<And>q. verifyPassword (argon2_IDKey w) q (u_PasswordHash user) =
      Inr (argon2_IDKey w (bytes_of_string q) salt 3 65536 2 32
             = argon2_IDKey w (bytes_of_string (c_Password creds)) salt 3 65536 2 32)"
  using reg
proof (rule Register_InrD)
  let ?n = "NormalizeUsername (lower_table w) (c_Username creds)"
  fix user ph db1 db' h
  assume n: "ValidUsername ?n" and ph: "hashPassword w (c_Password creds) = Inr ph"
    and cu: "CreateUser w ?n (TrimSpace (c_DisplayName creds)) ph (b_tables b) = (Inr user, db1)"
    and ups: "UpsertActiveToken w (u_ID user) (TrimSpace (c_DeviceID creds)) (TrimSpace (c_DeviceName creds)) h db1 = (Inr (), db')"
    and b': "b' = b\<lparr>b_tables := db', b_redis := cached_after_register w ?n (u_ID user) b\<rparr>"
    and uid: "a_UserID res = u_ID user"
  note u = CreateUser_InrD [OF cu]
  have wf1: "db_wf db1" using wf_CreateUser [OF wf, of w ?n "TrimSpace (c_DisplayName creds)" ph] cu by simp
  from ups wf1 have tabs: "users db' = users db1" "deletions db' = deletions db1" by (auto elim: UpsertActiveToken_effect)
  have luser: "lookup_by u_Username ?n (users (b_tables b')) = Some user"
    using u(3,5,6) n tabs b' by (simp add: table_simps TrimSpace_ValidUsername)
  have np: "lookup_by p_UserID (u_ID user) (deletions (b_tables b')) = None"
    using u(4,6) wf tabs b' by (force simp: lookup_by_None_iff db_wf_def)
  obtain salt where v: "\<And>q. verifyPassword (argon2_IDKey w) q ph =
      Inr (argon2_IDKey w (bytes_of_string q) salt 3 65536 2 32
             = argon2_IDKey w (bytes_of_string (c_Password creds)) salt 3 65536 2 32)"
    using hashPassword_verifies [OF ph len] by blast
  have "u_PasswordHash user = ph" using u(5) by simp
  then show thesis using that n luser np uid v by metis
qed

text \<open>
  C2. Registering creates an account that can be used: after a successful
  \<open>Register\<close>, logging in with any spelling of the name that normalises to it and with the
  same password succeeds for the new user on any device, and with a password whose Argon2
  key differs it is refused as invalid credentials.
\<close>

theorem Register_then_login:
  assumes reg: "Register w creds b = (Inr res, b')" and wf: "db_wf (b_tables b)"
    and len: "argon2_key_length (argon2_IDKey w)" and same: "argon2_IDKey w' = argon2_IDKey w"
    and up: "backend_up w' b'" and dev: "TrimSpace (c_DeviceID creds') \<noteq> ''''" and pw': "TrimSpace (c_Password creds') \<noteq> ''''"
    and name: "NormalizeUsername (lower_table w') (c_Username creds') = NormalizeUsername (lower_table w) (c_Username creds)"
    and draw: "draws_token w' (\<lambda>r. r_DeviceID r = TrimSpace (c_DeviceID creds')) b'"
  shows "(c_Password creds' = c_Password creds \<longrightarrow>
           (\<exists>res2 b2. LoginByCredentials w' creds' b' = (Inr res2, b2) \<and> a_UserID res2 = a_UserID res))
    \<and> ((\<forall>salt. argon2_IDKey w (bytes_of_string (c_Password creds')) salt 3 65536 2 32
                \<noteq> argon2_IDKey w (bytes_of_string (c_Password creds)) salt 3 65536 2 32) \<longrightarrow>
         LoginByCredentials w' creds' b' = (Inl ErrInvalidCredentials, b'))"
proof -
  obtain user salt where n: "ValidUsername (NormalizeUsername (lower_table w) (c_Username creds))"
    and user: "lookup_by u_Username (NormalizeUsername (lower_table w) (c_Username creds)) (users (b_tables b')) = Some user"
    and np: "lookup_by p_UserID (u_ID user) (deletions (b_tables b')) = None" and uid: "a_UserID res = u_ID user"
    and v: "\<And>q. verifyPassword (argon2_IDKey w) q (u_PasswordHash user) =
      Inr (argon2_IDKey w (bytes_of_string q) salt 3 65536 2 32
             = argon2_IDKey w (bytes_of_string (c_Password creds)) salt 3 65536 2 32)"
    by (rule Register_account [OF reg wf len]) blast
  note L = LoginByCredentials_up [OF up, of creds', unfolded name, OF n pw' dev user, unfolded same]
  show ?thesis using L(1) L(3) v np draw uid by auto
qed

lemma UpsertActiveToken_seq:
  "UpsertActiveToken w i d n h db = (Inr x, db') \<Longrightarrow> token_seq db' = token_seq db + 1"
  by (erule UpsertActiveToken_InrD) (drule sql_upsert_token_InrD(4) [OF sym], simp)

lemma Register_keeps_up:
  assumes reg: "Register w creds b = (Inr res, b')" and can: "can_register w creds b"
    and seq: "token_seq (b_tables b) + 1 < max_bigint"
  shows "backend_up w b'"
  using reg
proof (rule Register_InrD)
  let ?n = "NormalizeUsername (lower_table w) (c_Username creds)"
  fix user ph db1 db' h
  assume cu: "CreateUser w ?n (TrimSpace (c_DisplayName creds)) ph (b_tables b) = (Inr user, db1)"
    and ups: "UpsertActiveToken w (u_ID user) (TrimSpace (c_DeviceID creds)) (TrimSpace (c_DeviceName creds)) h db1 = (Inr (), db')"
    and b': "b' = b\<lparr>b_tables := db', b_redis := cached_after_register w ?n (u_ID user) b\<rparr>"
  have up: "backend_up w b" using can by (simp add: can_register_def)
  have wf1: "db_wf db1"
    using wf_CreateUser [of "b_tables b" w ?n "TrimSpace (c_DisplayName creds)" ph] up cu by (simp add: backend_up_def)
  have users: "users db' = users (b_tables b) @ [user]" "u_ID user = new_uuid w" "token_seq db1 = token_seq (b_tables b)"
    using CreateUser_InrD(5,6) [OF cu] ups wf1 by (auto elim: UpsertActiveToken_effect)
  have "db_wf db'" using ups wf1 by (auto elim: UpsertActiveToken_effect)
  then show ?thesis
    using up can seq users b' UpsertActiveToken_seq [OF ups] by (simp add: backend_up_def can_register_def ids_canonical_def)
qed

definition new_backend :: backend where
  "new_backend = \<lparr>b_db = \<lparr>defaultDB = Some (database_on 1), closed_pools = []\<rparr>,
     b_cache = \<lparr>defaultCache = Some (NewPPCache 1), closed_clients = []\<rparr>,
     b_tables = empty_db, b_redis = Map.empty\<rparr>"

definition alice_creds :: AuthCredentials where
  "alice_creds = \<lparr>c_Username = ''Alice'', c_DisplayName = ''Alice'', c_Password = ''secret'',
     c_DeviceID = ''phone'', c_DeviceName = ''Pixel''\<rparr>"

lemma alice_name: "NormalizeUsername (lower_table quiet_outside) (c_Username alice_creds) = ''alice''"
  "ValidUsername ''alice''" "TrimSpace (c_Password alice_creds) = ''secret''"
  "TrimSpace (c_DeviceID alice_creds) = ''phone''" "TrimSpace ''u1'' = ''u1''" "TrimSpace ''phone'' = ''phone''"
  by code_simp+

lemma quiet_can_register: "can_register quiet_outside alice_creds new_backend"
proof -
  have "good_id ''u1''" by code_simp
  moreover have "draws_token quiet_outside own new_backend" for own
    using quiet_token by (auto simp: draws_token_def new_backend_def empty_db_def)
  moreover have "backend_up quiet_outside new_backend"
    by (auto simp: backend_up_def new_backend_def redis_live_def ids_canonical_def empty_db_def db_wf_def max_bigint_def)
  moreover have "new_uuid quiet_outside = ''u1''" "rand_salt quiet_outside \<noteq> None" by (simp_all add: quiet_outside_def)
  ultimately show ?thesis
    by (auto simp: can_register_def new_backend_def empty_db_def cache_of_def DefaultCache_def)
qed

lemma register_alice:
  obtains res b' where "Register quiet_outside alice_creds new_backend = (Inr res, b')" "a_UserID res = ''u1''"
    "backend_up quiet_outside b'" "draws_token quiet_outside (\<lambda>r. r_DeviceID r = ''phone'') b'"
    "tokens (b_tables b') \<noteq> []"
proof -
  obtain res b' where reg: "Register quiet_outside alice_creds new_backend = (Inr res, b')" "a_UserID res = ''u1''"
    using Register_up(2) [OF quiet_can_register] alice_name
    by (auto simp: new_backend_def empty_db_def cached_names_def quiet_outside_def)
  have up: "backend_up quiet_outside b'"
    using Register_keeps_up [OF reg(1) quiet_can_register] by (simp add: new_backend_def empty_db_def max_bigint_def)
  have "(\<forall>r\<in>set (tokens (b_tables b')). r_DeviceID r = ''phone'') \<and> tokens (b_tables b') \<noteq> []"
    using reg(1)
  proof (rule Register_InrD)
    fix user ph db1 db' h
    let ?n = "NormalizeUsername (lower_table quiet_outside) (c_Username alice_creds)"
    assume cu: "CreateUser quiet_outside ?n (TrimSpace (c_DisplayName alice_creds)) ph (b_tables new_backend) = (Inr user, db1)"
      and ups: "UpsertActiveToken quiet_outside (u_ID user) (TrimSpace (c_DeviceID alice_creds))
        (TrimSpace (c_DeviceName alice_creds)) h db1 = (Inr (), db')"
      and b': "b' = new_backend\<lparr>b_tables := db', b_redis := cached_after_register quiet_outside ?n (u_ID user) new_backend\<rparr>"
    have none: "tokens db1 = []" using CreateUser_InrD(6) [OF cu] by (simp add: new_backend_def empty_db_def)
    from ups show ?thesis
      by (rule UpsertActiveToken_InrD) (use none b' alice_name(4,6) in \<open>auto dest!: sql_upsert_token_InrD(4) [OF sym]\<close>)
  qed
  then show thesis using that reg up quiet_token by (auto simp: draws_token_def)
qed

lemma quiet_argon2: "argon2_key_length (argon2_IDKey quiet_outside)"
  by (simp add: argon2_key_length_def quiet_outside_def)

lemma new_backend_wf: "db_wf (b_tables new_backend)"
  by (simp add: new_backend_def)

theorem Register_then_login_witness:
  "\<exists>res b' res2 b2. Register quiet_outside alice_creds new_backend = (Inr res, b')
     \<and> LoginByCredentials quiet_outside alice_creds b' = (Inr res2, b2) \<and> a_UserID res2 = ''u1''"
proof -
  obtain res b' where r: "Register quiet_outside alice_creds new_backend = (Inr res, b')" "a_UserID res = ''u1''"
    and up: "backend_up quiet_outside b'" "draws_token quiet_outside (\<lambda>r. r_DeviceID r = ''phone'') b'"
    by (rule register_alice)
  show ?thesis
    using Register_then_login [OF r(1) new_backend_wf quiet_argon2 refl up(1), of alice_creds] alice_name r up(2) by auto
qed

theorem LoginByCredentials_sound_witness:
  "\<exists>b res b2. LoginByCredentials quiet_outside alice_creds b = (Inr res, b2)
     \<and> users (b_tables b2) = users (b_tables b)
     \<and> (\<exists>r. lookup_by r_TokenHash (hashToken (a_SessionToken res)) (tokens (b_tables b2)) = Some r)"
proof -
  obtain res0 b where r: "Register quiet_outside alice_creds new_backend = (Inr res0, b)"
    and up: "backend_up quiet_outside b" "draws_token quiet_outside (\<lambda>r. r_DeviceID r = ''phone'') b"
    by (rule register_alice)
  obtain user where u: "lookup_by u_Username ''alice'' (users (b_tables b)) = Some user"
    "verifyPassword (argon2_IDKey quiet_outside) (c_Password alice_creds) (u_PasswordHash user) = Inr True"
    "lookup_by p_UserID (u_ID user) (deletions (b_tables b)) = None"
    by (rule Register_account [OF r new_backend_wf quiet_argon2]) (use alice_name in auto)
  obtain res b2 where l: "LoginByCredentials quiet_outside alice_creds b = (Inr res, b2)"
    using LoginByCredentials_up(3) [OF up(1), of alice_creds] alice_name u up(2) by auto
  have wf: "db_wf (b_tables b)" using up(1) by (simp add: backend_up_def)
  show ?thesis using LoginByCredentials_sound [OF l wf] l by blast
qed

text \<open>
  C29. Registration is exclusive. A successful \<open>Register\<close> (whatever exchanges failed) adds
  exactly one user, with the normalised name, which no user had before, and touches no other
  user and no pending deletion. With the stores up, a name that a user has or that the cache
  remembers is refused as taken and nothing changes; this includes a name that only the
  cache still remembers.
\<close>

theorem Register_exclusive:
  assumes wf: "db_wf (b_tables b)"
  shows "(Register w creds b = (Inr res, b') \<longrightarrow>
      (\<exists>user. users (b_tables b') = users (b_tables b) @ [user] \<and> u_ID user = a_UserID res
        \<and> u_Username user = NormalizeUsername (lower_table w) (c_Username creds)
        \<and> ValidUsername (u_Username user) \<and> u_Username user \<notin> u_Username ` set (users (b_tables b)))
      \<and> deletions (b_tables b') = deletions (b_tables b))
    \<and> (can_register w2 creds b \<longrightarrow> TrimSpace (c_Password creds) \<noteq> '''' \<longrightarrow> TrimSpace (c_DeviceID creds) \<noteq> '''' \<longrightarrow>
       ValidUsername (NormalizeUsername (lower_table w2) (c_Username creds)) \<longrightarrow>
       NormalizeUsername (lower_table w2) (c_Username creds)
         \<in> u_Username ` set (users (b_tables b)) \<union> (if cache_of b = None then {} else cached_names (b_redis b)) \<longrightarrow>
       Register w2 creds b = (Inl ErrUsernameTaken, b))"
proof (intro conjI impI)
  assume reg: "Register w creds b = (Inr res, b')"
  let ?n = "NormalizeUsername (lower_table w) (c_Username creds)"
  from reg have "(\<exists>user. users (b_tables b') = users (b_tables b) @ [user] \<and> u_ID user = a_UserID res
        \<and> u_Username user = ?n \<and> ValidUsername (u_Username user) \<and> lookup_by u_Username ?n (users (b_tables b)) = None)
      \<and> deletions (b_tables b') = deletions (b_tables b)"
  proof (rule Register_InrD)
    fix user ph db1 db' h
    assume n: "ValidUsername ?n" and cu: "CreateUser w ?n (TrimSpace (c_DisplayName creds)) ph (b_tables b) = (Inr user, db1)"
      and ups: "UpsertActiveToken w (u_ID user) (TrimSpace (c_DeviceID creds)) (TrimSpace (c_DeviceName creds)) h db1 = (Inr (), db')"
      and b': "b' = b\<lparr>b_tables := db', b_redis := cached_after_register w ?n (u_ID user) b\<rparr>"
      and uid: "a_UserID res = u_ID user"
    have "db_wf db1" using wf_CreateUser [OF wf, of w ?n "TrimSpace (c_DisplayName creds)" ph] cu by simp
    with ups have "users db' = users db1" "deletions db' = deletions db1" by (auto elim: UpsertActiveToken_effect)
    then show ?thesis using CreateUser_InrD(3,5,6) [OF cu] n b' uid by (auto simp: TrimSpace_ValidUsername)
  qed
  then show "\<exists>user. users (b_tables b') = users (b_tables b) @ [user] \<and> u_ID user = a_UserID res
        \<and> u_Username user = ?n \<and> ValidUsername (u_Username user) \<and> u_Username user \<notin> u_Username ` set (users (b_tables b))"
    and "deletions (b_tables b') = deletions (b_tables b)"
    by (auto simp: lookup_by_None_iff)
next
  assume "can_register w2 creds b" "TrimSpace (c_Password creds) \<noteq> ''''" "TrimSpace (c_DeviceID creds) \<noteq> ''''"
    "ValidUsername (NormalizeUsername (lower_table w2) (c_Username creds))"
    "NormalizeUsername (lower_table w2) (c_Username creds)
       \<in> u_Username ` set (users (b_tables b)) \<union> (if cache_of b = None then {} else cached_names (b_redis b))"
  then show "Register w2 creds b = (Inl ErrUsernameTaken, b)"
    by (intro Register_up(1)) (auto split: if_splits)
qed

theorem Register_exclusive_witness:
  "\<exists>res b' user. Register quiet_outside alice_creds new_backend = (Inr res, b')
     \<and> users (b_tables b') = users (b_tables new_backend) @ [user] \<and> u_Username user = ''alice''
     \<and> Register quiet_outside alice_creds (new_backend\<lparr>b_redis := [usernameKey ''alice'' \<mapsto> ''u9'']\<rparr>)
         = (Inl ErrUsernameTaken, new_backend\<lparr>b_redis := [usernameKey ''alice'' \<mapsto> ''u9'']\<rparr>)"
proof -
  obtain res b' where r: "Register quiet_outside alice_creds new_backend = (Inr res, b')" by (rule register_alice)
  let ?stale = "new_backend\<lparr>b_redis := [usernameKey ''alice'' \<mapsto> ''u9'']\<rparr>"
  have can: "can_register quiet_outside alice_creds ?stale"
    using quiet_can_register
    by (auto simp: can_register_def backend_up_def draws_token_def cache_of_def split: sum.splits)
  have "cache_of ?stale \<noteq> None" "''alice'' \<in> cached_names (b_redis ?stale)" "db_wf (b_tables ?stale)"
    using new_backend_wf by (simp_all add: cache_of_def new_backend_def DefaultCache_def cached_names_def)
  then have "Register quiet_outside alice_creds ?stale = (Inl ErrUsernameTaken, ?stale)"
    using Register_exclusive [of ?stale quiet_outside alice_creds _ _ quiet_outside] can alice_name by auto
  then show ?thesis
    using Register_exclusive [OF new_backend_wf, of quiet_outside alice_creds res b' quiet_outside] r alice_name by auto
qed

text \<open>
  C14. While a deletion of an account is pending, nobody logs in to it: neither
  \<open>LoginByCredentials\<close> nor \<open>LoginByToken\<close> returns a session of that user, whatever
  exchanges fail.
\<close>

theorem pending_deletion_blocks_login:
  assumes "uid \<in> p_UserID ` set (deletions (b_tables b))" and "uuid_text w (TrimSpace uid) = Some uid"
  shows "(LoginByCredentials w creds b = (Inr res, b') \<longrightarrow> a_UserID res \<noteq> uid)
    \<and> (LoginByToken w tok b = (Inr res2, b2) \<longrightarrow> a_UserID res2 \<noteq> uid)"
proof (intro conjI impI)
  assume "LoginByCredentials w creds b = (Inr res, b')"
  then show "a_UserID res \<noteq> uid"
    by (rule LoginByCredentials_InrD) (use assms in \<open>auto simp: lookup_by_None_iff\<close>)
next
  assume "LoginByToken w tok b = (Inr res2, b2)"
  then show "a_UserID res2 \<noteq> uid"
    by (rule LoginByToken_InrD) (use assms in \<open>auto simp: lookup_by_None_iff\<close>)
qed

definition leaving_backend :: backend where
  "leaving_backend = (phone_backend (hashToken ''abc''))
     \<lparr>b_tables := (b_tables (phone_backend (hashToken ''abc'')))\<lparr>deletions := deletions alice_leaving\<rparr>\<rparr>"

theorem pending_deletion_blocks_login_witness:
  "lookup_by r_TokenHash (hashToken ''abc'') (tokens (b_tables leaving_backend)) \<noteq> None
   \<and> \<not> (\<exists>res b'. LoginByToken quiet_outside ''abc'' leaving_backend = (Inr res, b') \<and> a_UserID res = ''u1'')"
proof -
  have "''u1'' \<in> p_UserID ` set (deletions (b_tables leaving_backend))"
    by (simp add: leaving_backend_def alice_leaving_def)
  then have "\<not> (\<exists>res b'. LoginByToken quiet_outside ''abc'' leaving_backend = (Inr res, b') \<and> a_UserID res = ''u1'')"
    using pending_deletion_blocks_login [of "''u1''" leaving_backend quiet_outside] alice_name(5) by auto
  then show ?thesis by (simp add: leaving_backend_def phone_backend_def)
qed

end
