(* ===== verification/Deletion.thy ===== *)
theory Deletion
  imports Auth
begin

text \<open>
  \<open>src/server/auth/delete.go\<close>: scheduling and cancelling the deletion of an account,
  and the background worker that carries out the deletions that are due.
\<close>

section \<open>Operations\<close>

text \<open>Durations are nanoseconds.\<close>

definition AccountDeletionDelay :: int where
  "AccountDeletionDelay = 30 * 24 * (3600 * 10 ^ 9)"

definition DefaultDeletionWorkerInterval :: int where
  "DefaultDeletionWorkerInterval = 60 * 10 ^ 9"

definition verifyDeleteCredentials ::
    "outside \<Rightarrow> string \<Rightarrow> string \<Rightarrow> backend \<Rightarrow> User result \<times> backend" where
  "verifyDeleteCredentials w username password b =
     (let normalized = NormalizeUsername (lower_table w) username in
      if \<not> ValidUsername normalized \<or> TrimSpace password = '''' then (Inl ErrInvalidCredentials, b)
      else
      and_then (replace_error ErrUserNotFound ErrInvalidCredentials (on_db (GetUserByUsername w normalized) b)) (\<lambda>user b.
      if verifyPassword (argon2_IDKey w) password (u_PasswordHash user) \<noteq> Inr True
      then (Inl ErrInvalidCredentials, b)
      else (Inr user, b)))"

text \<open>\<open>DeleteAt.Unix()\<close> is the time in whole seconds; columns hold microseconds.\<close>

definition ScheduleAccountDeletion ::
    "outside \<Rightarrow> string \<Rightarrow> string \<Rightarrow> backend \<Rightarrow> uint64 result \<times> backend" where
  "ScheduleAccountDeletion w username password b =
     and_then (defaultDeps b, b) (\<lambda>_ b.
     and_then (verifyDeleteCredentials w username password b) (\<lambda>user b.
     let deleteAt = go_now w + AccountDeletionDelay in
     and_then (on_db (UpsertDeletion w (u_ID user) deleteAt) b) (\<lambda>deletion b.
     (Inr (word_of_int (p_DeleteAt deletion div 10 ^ 6)), b))))"

definition CancelAccountDeletion ::
    "outside \<Rightarrow> string \<Rightarrow> string \<Rightarrow> backend \<Rightarrow> unit result \<times> backend" where
  "CancelAccountDeletion w username password b =
     and_then (defaultDeps b, b) (\<lambda>_ b.
     and_then (verifyDeleteCredentials w username password b) (\<lambda>user b.
     and_then (on_db (CancelIfNotStarted w (u_ID user)) b) (\<lambda>(cancelled, inProgress) b.
     if inProgress then (Inl ErrAccountDeletionInProgress, b)
     else if cancelled then (Inr (), b)
     else (Inr (), b))))"

definition removeUsernameFromCache :: "outside \<Rightarrow> PPCache option \<Rightarrow> string \<Rightarrow> backend \<Rightarrow> backend" where
  "removeUsernameFromCache w redis username b =
     (if redis = None then b
      else let normalized = NormalizeUsername (lower_table w) username in
        if \<not> ValidUsername normalized then b
        else snd (on_redis (RemoveUsername w redis normalized) b))"

text \<open>One round of the loop over the claimed deletions, and the loop.\<close>

definition process_item :: "outside \<Rightarrow> PPCache option \<Rightarrow> PendingAccountDeletion \<Rightarrow> backend \<Rightarrow> backend" where
  "process_item w redis item b =
     (case on_db (DeleteUserByID w (p_UserID item)) b of
        (Inl err, b1) \<Rightarrow>
          if errors_is err ErrUserNotFound then snd (on_db (DeleteByUserID w (p_UserID item)) b1)
          else b1
      | (Inr username, b1) \<Rightarrow> removeUsernameFromCache w redis username b1)"

fun process_items :: "outside \<Rightarrow> PPCache option \<Rightarrow> PendingAccountDeletion list \<Rightarrow> backend \<Rightarrow> backend" where
  "process_items w redis [] b = b"
| "process_items w redis (item # items) b = process_items w redis items (process_item w redis item b)"

definition processDueAccountDeletions :: "outside \<Rightarrow> backend \<Rightarrow> backend" where
  "processDueAccountDeletions w b =
     (case defaultDeps b of
        Inl err \<Rightarrow> b
      | Inr (database, redis) \<Rightarrow>
          (case on_db (ClaimDue w 50) b of
             (Inl err, b1) \<Rightarrow> b1
           | (Inr claimed, b1) \<Rightarrow> process_items w redis claimed b1))"

text \<open>
  \<open>StartDeletionWorker\<close>: the period of the ticker, and the goroutine, which works once
  at once and then at every tick until its context is done. An event of the \<open>select\<close> is a
  tick, with the outside as that round finds it, or the end of the context.
\<close>

datatype worker_event = Tick outside | CtxDone

definition worker_interval :: "int \<Rightarrow> int" where
  "worker_interval interval = (if interval \<le> 0 then DefaultDeletionWorkerInterval else interval)"

fun worker_loop :: "worker_event list \<Rightarrow> backend \<Rightarrow> backend" where
  "worker_loop [] b = b"
| "worker_loop (CtxDone # evs) b = b"
| "worker_loop (Tick w # evs) b = worker_loop evs (processDueAccountDeletions w b)"

definition StartDeletionWorker :: "outside \<Rightarrow> worker_event list \<Rightarrow> backend \<Rightarrow> backend" where
  "StartDeletionWorker w evs b = worker_loop evs (processDueAccountDeletions w b)"

section \<open>Scheduling and cancelling\<close>

lemma verifyDeleteCredentials_InrD:
  assumes "verifyDeleteCredentials w username password b = (Inr user, b')"
  shows "b' = b" "ValidUsername (NormalizeUsername (lower_table w) username)" "TrimSpace password \<noteq> ''''"
    "lookup_by u_Username (NormalizeUsername (lower_table w) username) (users (b_tables b)) = Some user"
    "verifyPassword (argon2_IDKey w) password (u_PasswordHash user) = Inr True"
  using assms
  by (auto simp: verifyDeleteCredentials_def Let_def run_simps TrimSpace_ValidUsername split: if_splits
      dest!: GetUserByUsername_InrD)

lemma verifyDeleteCredentials_up:
  assumes up: "backend_up w b" and name: "ValidUsername (NormalizeUsername (lower_table w) username)"
    and pw: "TrimSpace password \<noteq> ''''"
    and user: "lookup_by u_Username (NormalizeUsername (lower_table w) username) (users (b_tables b)) = Some user"
    and v: "verifyPassword (argon2_IDKey w) password (u_PasswordHash user) = Inr True"
  shows "verifyDeleteCredentials w username password b = (Inr user, b)"
proof -
  let ?n = "NormalizeUsername (lower_table w) username"
  have "GetUserByUsername w ?n (b_tables b) = (Inr user, b_tables b)"
    using GetUserByUsername_live [of w ?n "b_tables b"] name user up
    by (simp add: good_id_def TrimSpace_ValidUsername ValidUsername_nonempty backend_up_def)
  then show ?thesis using name pw v by (simp add: verifyDeleteCredentials_def on_db_def)
qed

lemma UpsertDeletion_InrD:
  assumes "UpsertDeletion w i t db = (Inr row, db')"
  obtains u where "uuid_text w (TrimSpace i) = Some u" "u \<in> u_ID ` set (users db)"
    "row = \<lparr>p_UserID = u, p_ScheduledAt = pg_now w Q_UpsertDeletion, p_DeleteAt = t div 1000, p_StartedAt = None\<rparr>"
    "db' = snd (sql_upsert_deletion (pg_now w Q_UpsertDeletion) u (t div 1000) db)"
proof -
  have "\<exists>u. uuid_text w (TrimSpace i) = Some u
      \<and> sql_upsert_deletion (pg_now w Q_UpsertDeletion) u (t div 1000) db = (Inr row, db')"
    using assms
    by (auto simp: UpsertDeletion_def Let_def with_uuid_def dest!: exchange_InrD split: if_splits option.splits)
      (metis exchange_InrD surj_pair)
  then obtain u where u: "uuid_text w (TrimSpace i) = Some u"
    "sql_upsert_deletion (pg_now w Q_UpsertDeletion) u (t div 1000) db = (Inr row, db')" by blast
  then have "u \<in> u_ID ` set (users db)
      \<and> row = \<lparr>p_UserID = u, p_ScheduledAt = pg_now w Q_UpsertDeletion, p_DeleteAt = t div 1000, p_StartedAt = None\<rparr>"
    using lookup_by_not_None [of u_ID u "users db"]
    by (auto simp: sql_upsert_deletion_def Let_def split: if_splits option.splits)
  then show thesis using that u by simp
qed

lemma sql_upsert_deletion_rows:
  assumes "u \<in> u_ID ` set (users db)"
  shows "filter (\<lambda>r. p_UserID r \<noteq> u) (deletions (snd (sql_upsert_deletion now u t db)))
      = filter (\<lambda>r. p_UserID r \<noteq> u) (deletions db)"
    "\<lparr>p_UserID = u, p_ScheduledAt = now, p_DeleteAt = t, p_StartedAt = None\<rparr> \<in> set (deletions (snd (sql_upsert_deletion now u t db)))"
    "users (snd (sql_upsert_deletion now u t db)) = users db"
    "tokens (snd (sql_upsert_deletion now u t db)) = tokens db"
    "token_seq (snd (sql_upsert_deletion now u t db)) = token_seq db"
proof -
  obtain x where u: "lookup_by u_ID u (users db) = Some x"
    using assms lookup_by_not_None [of u_ID u "users db"] by blast
  let ?row = "\<lparr>p_UserID = u, p_ScheduledAt = now, p_DeleteAt = t, p_StartedAt = None\<rparr>"
  have f: "filter (\<lambda>r. p_UserID r \<noteq> u) (map (\<lambda>r. if p_UserID r = u then ?row else r) rows)
      = filter (\<lambda>r. p_UserID r \<noteq> u) rows" for rows
    by (induction rows) auto
  show "filter (\<lambda>r. p_UserID r \<noteq> u) (deletions (snd (sql_upsert_deletion now u t db)))
      = filter (\<lambda>r. p_UserID r \<noteq> u) (deletions db)"
    "users (snd (sql_upsert_deletion now u t db)) = users db" "tokens (snd (sql_upsert_deletion now u t db)) = tokens db"
    "token_seq (snd (sql_upsert_deletion now u t db)) = token_seq db"
    using u f by (auto simp: sql_upsert_deletion_def Let_def split: option.split)
  show "?row \<in> set (deletions (snd (sql_upsert_deletion now u t db)))"
    using u by (auto simp: sql_upsert_deletion_def Let_def image_iff split: option.split dest!: lookup_by_SomeD)
qed

text \<open>
  A successful \<open>ScheduleAccountDeletion\<close> was authorised by the account's name and
  password, leaves for that user exactly one pending deletion, unclaimed and due 30 days
  after the request, and returns that deadline in Unix seconds; users, tokens and the
  pending deletions of others are unchanged.
\<close>

theorem ScheduleAccountDeletion_deadline:
  assumes sch: "ScheduleAccountDeletion w username password b = (Inr ts, b')" and wf: "db_wf (b_tables b)"
  shows "\<exists>user u row. user \<in> set (users (b_tables b))
    \<and> u_Username user = NormalizeUsername (lower_table w) username
    \<and> verifyPassword (argon2_IDKey w) password (u_PasswordHash user) = Inr True
    \<and> uuid_text w (TrimSpace (u_ID user)) = Some u
    \<and> filter (\<lambda>r. p_UserID r = u) (deletions (b_tables b')) = [row]
    \<and> p_DeleteAt row = (go_now w + 2592000000000000) div 1000 \<and> p_StartedAt row = None
    \<and> ts = word_of_int ((go_now w + 2592000000000000) div 1000000000)
    \<and> filter (\<lambda>r. p_UserID r \<noteq> u) (deletions (b_tables b')) = filter (\<lambda>r. p_UserID r \<noteq> u) (deletions (b_tables b))
    \<and> users (b_tables b') = users (b_tables b) \<and> tokens (b_tables b') = tokens (b_tables b)"
proof -
  obtain user row db' where ver: "verifyDeleteCredentials w username password b = (Inr user, b)"
    and ups: "UpsertDeletion w (u_ID user) (go_now w + AccountDeletionDelay) (b_tables b) = (Inr row, db')"
    and b': "b' = b\<lparr>b_tables := db'\<rparr>" and ts: "ts = word_of_int (p_DeleteAt row div 10 ^ 6)"
    using sch by (auto simp: ScheduleAccountDeletion_def run_simps Let_def dest: verifyDeleteCredentials_InrD(1))
  note v = verifyDeleteCredentials_InrD [OF ver]
  from ups obtain u where u: "uuid_text w (TrimSpace (u_ID user)) = Some u" "u \<in> u_ID ` set (users (b_tables b))"
    and row: "row = \<lparr>p_UserID = u, p_ScheduledAt = pg_now w Q_UpsertDeletion,
      p_DeleteAt = (go_now w + AccountDeletionDelay) div 1000, p_StartedAt = None\<rparr>"
    and db': "db' = snd (sql_upsert_deletion (pg_now w Q_UpsertDeletion) u ((go_now w + AccountDeletionDelay) div 1000) (b_tables b))"
    by (rule UpsertDeletion_InrD)
  note rows = sql_upsert_deletion_rows [OF u(2), of "pg_now w Q_UpsertDeletion" "(go_now w + AccountDeletionDelay) div 1000",
      folded db' row]
  have "unique_by p_UserID (deletions db')"
    using wf_upsert_deletion [OF wf] by (simp add: db' db_wf_def)
  then have "filter (\<lambda>r. p_UserID r = u) (deletions db') = [row]"
    using rows(2) row by (intro filter_unique_by) auto
  moreover have "p_DeleteAt row div 10 ^ 6 = (go_now w + 2592000000000000) div 1000000000"
    using row by (simp add: AccountDeletionDelay_def zdiv_zmult2_eq [symmetric])
  ultimately show ?thesis
    using v u rows row b' ts lookup_by_SomeD [OF v(4)]
    by (intro exI [of _ user] exI [of _ u] exI [of _ row]) (auto simp: AccountDeletionDelay_def)
qed

lemma ScheduleAccountDeletion_up:
  assumes up: "backend_up w b" and name: "ValidUsername (NormalizeUsername (lower_table w) username)"
    and pw: "TrimSpace password \<noteq> ''''"
    and user: "lookup_by u_Username (NormalizeUsername (lower_table w) username) (users (b_tables b)) = Some user"
    and v: "verifyPassword (argon2_IDKey w) password (u_PasswordHash user) = Inr True"
    and t: "go_now w + AccountDeletionDelay \<noteq> zero_time"
  shows "ScheduleAccountDeletion w username password b =
    (Inr (word_of_int ((go_now w + AccountDeletionDelay) div 1000 div 10 ^ 6)),
     b\<lparr>b_tables := snd (sql_upsert_deletion (pg_now w Q_UpsertDeletion) (u_ID user)
          ((go_now w + AccountDeletionDelay) div 1000) (b_tables b))\<rparr>)"
proof -
  obtain d where d: "defaultDeps b = Inr d" using defaultDeps_up [OF up] by auto
  have mem: "user \<in> set (users (b_tables b))" using lookup_by_SomeD [OF user] by simp
  then have "lookup_by u_ID (u_ID user) (users (b_tables b)) \<noteq> None" by (simp only: lookup_by_not_None imageI)
  moreover have "uuid_text w (u_ID user) = Some (u_ID user)" "good_id (u_ID user)" "db_live w"
    using up mem by (auto simp: backend_up_def ids_canonical_def)
  ultimately have "UpsertDeletion w (u_ID user) (go_now w + AccountDeletionDelay) (b_tables b) =
      (Inr \<lparr>p_UserID = u_ID user, p_ScheduledAt = pg_now w Q_UpsertDeletion,
            p_DeleteAt = (go_now w + AccountDeletionDelay) div 1000, p_StartedAt = None\<rparr>,
       snd (sql_upsert_deletion (pg_now w Q_UpsertDeletion) (u_ID user)
          ((go_now w + AccountDeletionDelay) div 1000) (b_tables b)))"
    using t by (auto simp: UpsertDeletion_def Let_def with_uuid_def db_live_def good_id_def wrap_def
        sql_upsert_deletion_def split: option.split)
  then show ?thesis
    using d verifyDeleteCredentials_up [OF up name pw user v]
    by (simp add: ScheduleAccountDeletion_def on_db_def Let_def)
qed

lemma ScheduleAccountDeletion_InrD:
  assumes sch: "ScheduleAccountDeletion w username password b = (Inr ts, b')"
  obtains user u where "verifyDeleteCredentials w username password b = (Inr user, b)"
    "uuid_text w (TrimSpace (u_ID user)) = Some u" "u \<in> u_ID ` set (users (b_tables b))"
    "b' = b\<lparr>b_tables := snd (sql_upsert_deletion (pg_now w Q_UpsertDeletion) u
          ((go_now w + AccountDeletionDelay) div 1000) (b_tables b))\<rparr>"
    "ts = word_of_int ((go_now w + AccountDeletionDelay) div 1000 div 10 ^ 6)"
proof -
  obtain user row db' where ver: "verifyDeleteCredentials w username password b = (Inr user, b)"
    and ups: "UpsertDeletion w (u_ID user) (go_now w + AccountDeletionDelay) (b_tables b) = (Inr row, db')"
    and b': "b' = b\<lparr>b_tables := db'\<rparr>" and ts: "ts = word_of_int (p_DeleteAt row div 10 ^ 6)"
    using sch by (auto simp: ScheduleAccountDeletion_def run_simps Let_def dest: verifyDeleteCredentials_InrD(1))
  from ups show thesis by (rule UpsertDeletion_InrD) (use that ver b' ts in auto)
qed

lemma CancelAccountDeletion_up:
  assumes up: "backend_up w b" and name: "ValidUsername (NormalizeUsername (lower_table w) username)"
    and pw: "TrimSpace password \<noteq> ''''"
    and user: "lookup_by u_Username (NormalizeUsername (lower_table w) username) (users (b_tables b)) = Some user"
    and v: "verifyPassword (argon2_IDKey w) password (u_PasswordHash user) = Inr True"
  shows "CancelAccountDeletion w username password b =
    (case lookup_by p_UserID (u_ID user) (deletions (b_tables b)) of
       None \<Rightarrow> (Inr (), b)
     | Some r \<Rightarrow> if p_StartedAt r = None then (Inr (), b\<lparr>b_tables := sql_delete_deletion (u_ID user) (b_tables b)\<rparr>)
                else (Inl ErrAccountDeletionInProgress, b))"
proof -
  obtain d where d: "defaultDeps b = Inr d" using defaultDeps_up [OF up] by auto
  have "user \<in> set (users (b_tables b))" using lookup_by_SomeD [OF user] by simp
  then have c: "uuid_text w (u_ID user) = Some (u_ID user)" "good_id (u_ID user)" "db_live w" "db_wf (b_tables b)"
    using up by (auto simp: backend_up_def ids_canonical_def)
  show ?thesis
    using d verifyDeleteCredentials_up [OF up name pw user v] CancelIfNotStarted_live [OF c(3,2,1,4)]
    by (simp add: CancelAccountDeletion_def on_db_def split: option.split)
qed

text \<open>
  C15. Scheduling and cancelling from end to end: once a deletion is scheduled, a login with
  the right password is refused as pending deletion; cancelling with the same credentials
  succeeds and removes the pending deletion and nothing else; after that the login works
  again.
\<close>

theorem schedule_blocks_cancel_restores:
  assumes sch: "ScheduleAccountDeletion w (c_Username creds) (c_Password creds) b = (Inr ts, b1)"
    and wf: "db_wf (b_tables b)" and can: "ids_canonical w (b_tables b)"
    and up: "backend_up w' b1" and same: "argon2_IDKey w' = argon2_IDKey w" "lower_table w' = lower_table w"
    and dev: "TrimSpace (c_DeviceID creds) \<noteq> ''''"
    and draw: "draws_token w' (\<lambda>r. r_DeviceID r = TrimSpace (c_DeviceID creds)) b1"
  shows "LoginByCredentials w' creds b1 = (Inl ErrAccountPendingDeletion, b1)
    \<and> (\<exists>b2 uid res b3. CancelAccountDeletion w' (c_Username creds) (c_Password creds) b1 = (Inr (), b2)
        \<and> users (b_tables b2) = users (b_tables b) \<and> tokens (b_tables b2) = tokens (b_tables b)
        \<and> deletions (b_tables b2) = filter (\<lambda>r. p_UserID r \<noteq> uid) (deletions (b_tables b))
        \<and> LoginByCredentials w' creds b2 = (Inr res, b3) \<and> a_UserID res = uid)"
  using sch
proof (rule ScheduleAccountDeletion_InrD)
  fix user u
  assume ver: "verifyDeleteCredentials w (c_Username creds) (c_Password creds) b = (Inr user, b)"
    and u: "uuid_text w (TrimSpace (u_ID user)) = Some u" "u \<in> u_ID ` set (users (b_tables b))"
    and b1: "b1 = b\<lparr>b_tables := snd (sql_upsert_deletion (pg_now w Q_UpsertDeletion) u
          ((go_now w + AccountDeletionDelay) div 1000) (b_tables b))\<rparr>"
  note v = verifyDeleteCredentials_InrD [OF ver]
  note rows = sql_upsert_deletion_rows [OF u(2), of "pg_now w Q_UpsertDeletion" "(go_now w + AccountDeletionDelay) div 1000"]
  have uid: "u = u_ID user" using u(1) can lookup_by_SomeD [OF v(4)] by (auto simp: ids_canonical_def good_id_def)
  define row where "row = \<lparr>p_UserID = u, p_ScheduledAt = pg_now w Q_UpsertDeletion,
      p_DeleteAt = (go_now w + AccountDeletionDelay) div 1000, p_StartedAt = None\<rparr>"
  have mem: "row \<in> set (deletions (b_tables b1))" using rows(2) b1 by (simp add: row_def)
  have uq: "unique_by p_UserID (deletions (b_tables b1))" using up by (simp add: backend_up_def db_wf_def)
  have pend: "lookup_by p_UserID (u_ID user) (deletions (b_tables b1)) = Some row"
    using lookup_by_unique [OF uq mem] uid by (simp add: row_def)
  have lu: "lookup_by u_Username (NormalizeUsername (lower_table w') (c_Username creds)) (users (b_tables b1)) = Some user"
    using v(4) rows(3) b1 same by simp
  have n: "ValidUsername (NormalizeUsername (lower_table w') (c_Username creds))"
    and vp: "verifyPassword (argon2_IDKey w') (c_Password creds) (u_PasswordHash user) = Inr True" using v same by simp_all
  define b2 where "b2 = b1\<lparr>b_tables := sql_delete_deletion (u_ID user) (b_tables b1)\<rparr>"
  have c: "CancelAccountDeletion w' (c_Username creds) (c_Password creds) b1 = (Inr (), b2)"
    using CancelAccountDeletion_up [OF up n v(3) lu vp] pend by (simp add: b2_def row_def)
  have up2: "backend_up w' b2" using up wf_delete_deletion
    by (simp add: b2_def backend_up_def ids_canonical_def) (simp add: sql_delete_deletion_def)
  have draw2: "draws_token w' (\<lambda>r. r_DeviceID r = TrimSpace (c_DeviceID creds)) b2"
    using draw by (auto simp: b2_def draws_token_def sql_delete_deletion_def split: sum.splits)
  have tabs: "users (b_tables b2) = users (b_tables b)" "tokens (b_tables b2) = tokens (b_tables b)"
    "deletions (b_tables b2) = filter (\<lambda>r. p_UserID r \<noteq> u_ID user) (deletions (b_tables b))"
    using rows(1,3,4) b1 uid by (simp_all add: b2_def sql_delete_deletion_def)
  obtain res b3 where l: "LoginByCredentials w' creds b2 = (Inr res, b3)" "a_UserID res = u_ID user"
    using LoginByCredentials_up(3) [OF up2 n v(3) dev _ vp] draw2 lu rows(3) b1 tabs
    by (auto simp: lookup_by_filter_neq)
  show ?thesis
    using LoginByCredentials_up(2) [OF up n v(3) dev lu vp] pend c tabs l by auto
qed

lemma schedule_registered_alice:
  obtains b ts b1 where "ScheduleAccountDeletion quiet_outside (c_Username alice_creds) (c_Password alice_creds) b = (Inr ts, b1)"
    "backend_up quiet_outside b" "backend_up quiet_outside b1"
    "draws_token quiet_outside (\<lambda>r. r_DeviceID r = ''phone'') b1"
    "b = snd (Register quiet_outside alice_creds new_backend)"
proof -
  obtain res b where r: "Register quiet_outside alice_creds new_backend = (Inr res, b)"
    and up: "backend_up quiet_outside b" and draw: "draws_token quiet_outside (\<lambda>r. r_DeviceID r = ''phone'') b"
    by (rule register_alice)
  obtain user where u: "lookup_by u_Username ''alice'' (users (b_tables b)) = Some user"
    "verifyPassword (argon2_IDKey quiet_outside) (c_Password alice_creds) (u_PasswordHash user) = Inr True"
    by (rule Register_account [OF r new_backend_wf quiet_argon2]) (use alice_name in auto)
  have t: "go_now quiet_outside + AccountDeletionDelay \<noteq> zero_time"
    by (simp add: quiet_outside_def AccountDeletionDelay_def zero_time_def)
  define b1 where "b1 = b\<lparr>b_tables := snd (sql_upsert_deletion (pg_now quiet_outside Q_UpsertDeletion) (u_ID user)
          ((go_now quiet_outside + AccountDeletionDelay) div 1000) (b_tables b))\<rparr>"
  have "u_ID user \<in> u_ID ` set (users (b_tables b))" using lookup_by_SomeD [OF u(1)] by simp
  note rows = sql_upsert_deletion_rows [OF this]
  have "backend_up quiet_outside b1" "draws_token quiet_outside (\<lambda>r. r_DeviceID r = ''phone'') b1"
    using up draw rows wf_upsert_deletion
    by (auto simp: b1_def backend_up_def ids_canonical_def draws_token_def split: sum.splits)
  then show thesis
    using that ScheduleAccountDeletion_up [OF up, of "c_Username alice_creds" "c_Password alice_creds"] alice_name u t up r
    by (auto simp: b1_def)
qed

theorem ScheduleAccountDeletion_deadline_witness:
  "\<exists>b b1 user. ScheduleAccountDeletion quiet_outside (c_Username alice_creds) (c_Password alice_creds) b = (Inr 2592000, b1)
     \<and> user \<in> set (users (b_tables b))"
proof -
  obtain b ts b1 where s: "ScheduleAccountDeletion quiet_outside (c_Username alice_creds) (c_Password alice_creds) b = (Inr ts, b1)"
    and up: "backend_up quiet_outside b" by (rule schedule_registered_alice)
  have wf: "db_wf (b_tables b)" using up by (simp add: backend_up_def)
  have "go_now quiet_outside = 0" by (simp add: quiet_outside_def)
  then show ?thesis using ScheduleAccountDeletion_deadline [OF s wf] s by auto
qed

theorem schedule_blocks_cancel_restores_witness:
  "\<exists>b1 b2. LoginByCredentials quiet_outside alice_creds b1 = (Inl ErrAccountPendingDeletion, b1)
     \<and> CancelAccountDeletion quiet_outside (c_Username alice_creds) (c_Password alice_creds) b1 = (Inr (), b2)"
proof -
  obtain b ts b1 where s: "ScheduleAccountDeletion quiet_outside (c_Username alice_creds) (c_Password alice_creds) b = (Inr ts, b1)"
    and up: "backend_up quiet_outside b" "backend_up quiet_outside b1"
      "draws_token quiet_outside (\<lambda>r. r_DeviceID r = ''phone'') b1" by (rule schedule_registered_alice)
  show ?thesis
    using schedule_blocks_cancel_restores [OF s _ _ up(2) refl refl] up alice_name(4) by (auto simp: backend_up_def)
qed

section \<open>The worker\<close>

text \<open>Erasing a set of users from the tables.\<close>

definition erase_users :: "string set \<Rightarrow> tables \<Rightarrow> tables" where
  "erase_users ids db = db\<lparr>users := filter (\<lambda>r. u_ID r \<notin> ids) (users db),
     tokens := filter (\<lambda>r. r_UserID r \<notin> ids) (tokens db),
     deletions := filter (\<lambda>r. p_UserID r \<notin> ids) (deletions db)\<rparr>"

lemma erase_empty [simp]: "erase_users {} db = db"
  by (simp add: erase_users_def)

lemma erase_erase: "erase_users A (erase_users B db) = erase_users (B \<union> A) db"
  by (simp add: erase_users_def)

lemma sql_delete_user_erase:
  "lookup_by u_ID u (users db) = Some row \<Longrightarrow> sql_delete_user u db = (Inr (u_Username row), erase_users {u} db)"
  by (simp add: sql_delete_user_def erase_users_def)

lemma lookup_erase: "u \<notin> ids \<Longrightarrow> lookup_by u_ID u (users (erase_users ids db)) = lookup_by u_ID u (users db)"
  by (simp add: erase_users_def lookup_by_filter_other)

text \<open>Usernames in the database have passed \<open>ValidUsername\<close>.\<close>

definition names_valid :: "tables \<Rightarrow> bool" where
  "names_valid db \<longleftrightarrow> (\<forall>u\<in>set (users db). ValidUsername (u_Username u))"

definition names_of :: "string set \<Rightarrow> tables \<Rightarrow> string set" where
  "names_of ids db = u_Username ` {u \<in> set (users db). u_ID u \<in> ids}"

lemma process_item_live:
  assumes live: "db_live w" "redis_live w" and id: "good_id (p_UserID item)" "uuid_text w (p_UserID item) = Some (p_UserID item)"
    and row: "lookup_by u_ID (p_UserID item) (users (b_tables b)) = Some row" and name: "ValidUsername (u_Username row)"
    and cache: "\<And>c. redis = Some c \<Longrightarrow> cache_client c \<noteq> None"
  shows "b_tables (process_item w redis item b) = erase_users {p_UserID item} (b_tables b)"
    "cached_names (b_redis (process_item w redis item b)) =
       (if redis = None then cached_names (b_redis b) else cached_names (b_redis b) - {u_Username row})"
    "b_db (process_item w redis item b) = b_db b" "b_cache (process_item w redis item b) = b_cache b"
proof -
  have d: "on_db (DeleteUserByID w (p_UserID item)) b =
      (Inr (u_Username row), b\<lparr>b_tables := erase_users {p_UserID item} (b_tables b)\<rparr>)"
    using id live(1) by (simp add: on_db_def DeleteUserByID_def Let_def good_id_def with_uuid_def db_live_def
        sql_delete_user_erase [OF row])
  have "cached_names (snd (RemoveUsername w redis (u_Username row) (b_redis b))) = cached_names (b_redis b) - {u_Username row}"
    if "redis \<noteq> None"
    using that cache live(2) name
    by (auto simp: RemoveUsername_def no_client_def redis_live_def cached_names_def Let_def
        TrimSpace_ValidUsername ValidUsername_nonempty)
  then show "b_tables (process_item w redis item b) = erase_users {p_UserID item} (b_tables b)"
    "cached_names (b_redis (process_item w redis item b)) =
       (if redis = None then cached_names (b_redis b) else cached_names (b_redis b) - {u_Username row})"
    "b_db (process_item w redis item b) = b_db b" "b_cache (process_item w redis item b) = b_cache b"
    using d name by (auto simp: process_item_def removeUsernameFromCache_def Normalize_ValidUsername Let_def)
qed

lemma names_of_insert:
  assumes "unique_by u_ID (users db)" "lookup_by u_ID i (users db) = Some row"
  shows "names_of (insert i ids) db = insert (u_Username row) (names_of ids db)"
proof -
  have "{u \<in> set (users db). u_ID u = i} = {row}"
    using assms lookup_by_SomeD [OF assms(2)] by (auto simp: unique_by_def distinct_map dest: inj_onD)
  moreover have "{u \<in> set (users db). u_ID u \<in> insert i ids} = {u \<in> set (users db). u_ID u = i} \<union> {u \<in> set (users db). u_ID u \<in> ids}"
    by auto
  ultimately show ?thesis by (simp add: names_of_def)
qed

lemma names_of_erase: "ids \<inter> ids' = {} \<Longrightarrow> names_of ids (erase_users ids' db) = names_of ids db"
  by (auto simp: names_of_def erase_users_def)

lemma process_items_live:
  assumes live: "db_live w" "redis_live w" and cache: "\<And>c. redis = Some c \<Longrightarrow> cache_client c \<noteq> None"
  shows "\<lbrakk>ids_canonical w (b_tables b); names_valid (b_tables b); unique_by u_ID (users (b_tables b));
      distinct (map p_UserID items); \<forall>it\<in>set items. p_UserID it \<in> u_ID ` set (users (b_tables b))\<rbrakk> \<Longrightarrow>
    b_tables (process_items w redis items b) = erase_users (p_UserID ` set items) (b_tables b)
    \<and> cached_names (b_redis (process_items w redis items b)) =
       (if redis = None then cached_names (b_redis b)
        else cached_names (b_redis b) - names_of (p_UserID ` set items) (b_tables b))"
proof (induction items arbitrary: b)
  case Nil
  then show ?case by (simp add: names_of_def)
next
  case (Cons item items)
  let ?i = "p_UserID item" and ?b = "process_item w redis item b"
  have "lookup_by u_ID ?i (users (b_tables b)) \<noteq> None"
    using Cons.prems(5) by (simp only: lookup_by_not_None list.set_intros)
  then obtain row where row: "lookup_by u_ID ?i (users (b_tables b)) = Some row" by blast
  have c: "good_id ?i" "uuid_text w ?i = Some ?i" "ValidUsername (u_Username row)"
    using lookup_by_SomeD [OF row] Cons.prems(1,2) by (auto simp: ids_canonical_def names_valid_def)
  note step = process_item_live [OF live c(1,2) row c(3) cache]
  have i: "?i \<notin> p_UserID ` set items" using Cons.prems(4) by auto
  have "b_tables (process_items w redis items ?b) = erase_users (p_UserID ` set items) (b_tables ?b)
      \<and> cached_names (b_redis (process_items w redis items ?b)) =
       (if redis = None then cached_names (b_redis ?b)
        else cached_names (b_redis ?b) - names_of (p_UserID ` set items) (b_tables ?b))"
  proof (rule Cons.IH)
    show "ids_canonical w (b_tables ?b)" "names_valid (b_tables ?b)" "unique_by u_ID (users (b_tables ?b))"
      using Cons.prems(1-3) step(1) by (auto simp: ids_canonical_def names_valid_def erase_users_def)
    show "distinct (map p_UserID items)" using Cons.prems(4) by simp
    show "\<forall>it\<in>set items. p_UserID it \<in> u_ID ` set (users (b_tables ?b))"
    proof
      fix it assume it: "it \<in> set items"
      then have "p_UserID it \<in> u_ID ` set (users (b_tables b))" "p_UserID it \<noteq> ?i"
        using Cons.prems(5) i by (simp, metis imageI)
      then show "p_UserID it \<in> u_ID ` set (users (b_tables ?b))" using step(1) by (auto simp: erase_users_def)
    qed
  qed
  then show ?case
    using step(1,2) i names_of_insert [OF Cons.prems(3) row, of "p_UserID ` set items"]
    by (auto simp: erase_erase names_of_erase)
qed

text \<open>The users whose deletion a round of the worker claims.\<close>

abbreviation due_users :: "outside \<Rightarrow> backend \<Rightarrow> string set" where
  "due_users w b \<equiv> set (due_ids w 50 (b_tables b))"

lemma ClaimDue_live: "db_live w \<Longrightarrow> 0 < n \<Longrightarrow> ClaimDue w n db = sql_claim_due w (nat n) db"
  by (simp add: ClaimDue_def db_live_def wrap_def sql_claim_due_def Let_def)

lemma erase_claimed:
  "erase_users (set (due_ids w n db)) (snd (sql_claim_due w n db)) = erase_users (set (due_ids w n db)) db"
proof -
  have "filter (\<lambda>r. p_UserID r \<notin> S) (map (\<lambda>r. if p_UserID r \<in> S then claim_row w r else r) rows)
      = filter (\<lambda>r. p_UserID r \<notin> S) rows" for S rows
    by (induction rows) auto
  then show ?thesis by (simp add: erase_users_def sql_claim_due_def Let_def)
qed

lemma due_ids_mem: "u \<in> set (due_ids w n db) \<Longrightarrow> \<exists>r\<in>set (deletions db). p_UserID r = u"
  using set_due_rows [of w n db] by (auto simp: due_ids_rows)

lemma worker_round:
  assumes up: "backend_up w b" and names: "names_valid (b_tables b)"
    and cache: "\<forall>c. cache_of b = Some c \<longrightarrow> cache_client c \<noteq> None"
  shows "b_tables (processDueAccountDeletions w b) = erase_users (due_users w b) (b_tables b)
    \<and> cached_names (b_redis (processDueAccountDeletions w b)) =
       (if cache_of b = None then cached_names (b_redis b)
        else cached_names (b_redis b) - names_of (due_users w b) (b_tables b))"
proof -
  let ?db = "b_tables b"
  obtain d where d: "defaultDeps b = Inr (d, cache_of b)" using defaultDeps_up [OF up] by auto
  have live: "db_live w" "redis_live w" and wf: "db_wf ?db" and can: "ids_canonical w ?db"
    using up by (auto simp: backend_up_def)
  obtain items db1 where c: "sql_claim_due w 50 ?db = (Inr items, db1)" by (simp add: sql_claim_due_def Let_def)
  then have claim: "ClaimDue w 50 ?db = (Inr items, db1)" using ClaimDue_live [OF live(1), of 50 ?db] by simp
  note e = ClaimDue_effect [OF claim wf]
  have tabs: "users db1 = users ?db" using c by (auto simp: sql_claim_due_def Let_def)
  have ids: "p_UserID ` set items = due_users w b"
    using e(1) by (simp add: due_ids_rows claim_limit_def image_image)
  let ?b1 = "b\<lparr>b_tables := db1\<rparr>"
  have "b_tables (process_items w (cache_of b) items ?b1) = erase_users (p_UserID ` set items) (b_tables ?b1)
    \<and> cached_names (b_redis (process_items w (cache_of b) items ?b1)) =
       (if cache_of b = None then cached_names (b_redis ?b1)
        else cached_names (b_redis ?b1) - names_of (p_UserID ` set items) (b_tables ?b1))"
  proof (rule process_items_live [OF live])
    show "\<forall>it\<in>set items. p_UserID it \<in> u_ID ` set (users (b_tables ?b1))"
    proof
      fix it assume "it \<in> set items"
      then have "p_UserID it \<in> due_users w b" using ids by blast
      then obtain r where r: "r \<in> set (deletions ?db)" "p_UserID r = p_UserID it" using due_ids_mem by blast
      have "p_UserID r \<in> u_ID ` set (users ?db)" using wf r(1) by (simp add: db_wf_def)
      then show "p_UserID it \<in> u_ID ` set (users (b_tables ?b1))" using r(2) tabs by simp
    qed
  qed (use can names wf tabs e(3) cache in \<open>auto simp: ids_canonical_def names_valid_def db_wf_def\<close>)
  moreover have "processDueAccountDeletions w b = process_items w (cache_of b) items ?b1"
    using d claim by (simp add: processDueAccountDeletions_def on_db_def)
  moreover have "names_of ids db1 = names_of ids ?db" for ids using tabs by (simp add: names_of_def)
  ultimately show ?thesis using erase_claimed [of w 50 ?db] c ids by simp
qed

lemma leaving_up:
  "backend_up quiet_outside (new_backend\<lparr>b_tables := alice_leaving\<rparr>)" "names_valid (b_tables (new_backend\<lparr>b_tables := alice_leaving\<rparr>))"
  "\<forall>c. cache_of (new_backend\<lparr>b_tables := alice_leaving\<rparr>) = Some c \<longrightarrow> cache_client c \<noteq> None"
proof -
  have "good_id ''u1''" "ValidUsername ''alice''" by code_simp+
  then show "backend_up quiet_outside (new_backend\<lparr>b_tables := alice_leaving\<rparr>)" "names_valid (b_tables (new_backend\<lparr>b_tables := alice_leaving\<rparr>))"
    "\<forall>c. cache_of (new_backend\<lparr>b_tables := alice_leaving\<rparr>) = Some c \<longrightarrow> cache_client c \<noteq> None"
    using leaving_wf by (auto simp: backend_up_def redis_live_def new_backend_def names_valid_def ids_canonical_def
        alice_leaving_def alice_db_def max_bigint_def cache_of_def DefaultCache_def)
qed

text \<open>
  C10. One round of the deletion worker, with the stores up, is exactly the erasure of the
  accounts it claims: the first 50 (in the order of their deadlines) of the due, unclaimed
  and unlocked deletions. Their users, tokens and pending deletions are gone and their names
  leave the cache; every other row and every other cached name stays.
\<close>

theorem worker_erases_due_accounts:
  assumes up: "backend_up w b" and names: "names_valid (b_tables b)"
    and cache: "\<forall>c. cache_of b = Some c \<longrightarrow> cache_client c \<noteq> None"
  shows "b_tables (processDueAccountDeletions w b) = erase_users (due_users w b) (b_tables b)
    \<and> cached_names (b_redis (processDueAccountDeletions w b)) =
       (if cache_of b = None then cached_names (b_redis b)
        else cached_names (b_redis b) - names_of (due_users w b) (b_tables b))"
  using worker_round [OF assms] .

theorem worker_erases_due_accounts_witness:
  "b_tables (processDueAccountDeletions quiet_outside (new_backend\<lparr>b_tables := alice_leaving\<rparr>)) = empty_db"
proof -
  let ?b = "new_backend\<lparr>b_tables := alice_leaving\<rparr>"
  have "erase_users (due_users quiet_outside ?b) (b_tables ?b) = empty_db"
    by (simp add: alice_leaving_def alice_db_def empty_db_def erase_users_def due_ids_def quiet_outside_def)
  then show ?thesis using worker_erases_due_accounts [OF leaving_up] by simp
qed

section \<open>Deletions that were claimed and not carried out\<close>

text \<open>Whatever its exchanges do, one round of the loop touches the rows of its own user only.\<close>

lemma DeleteUserByID_state:
  assumes "uuid_text w (TrimSpace i) = Some i"
  shows "snd (DeleteUserByID w i db) = db \<or> snd (DeleteUserByID w i db) = erase_users {i} db"
  using assms
  by (cases "db_fault w (Q_DeleteUserByID (TrimSpace i))") (auto simp: DeleteUserByID_def Let_def with_uuid_def sql_delete_user_def erase_users_def split: option.split)

lemma DeleteByUserID_state:
  assumes "uuid_text w (TrimSpace i) = Some i"
  shows "snd (DeleteByUserID w i db) = db \<or> snd (DeleteByUserID w i db) = sql_delete_deletion i db"
  using assms
  by (cases "db_fault w (Q_DeleteByUserID (TrimSpace i))") (auto simp: DeleteByUserID_def Let_def with_uuid_def)

lemma b_tables_removeUsername [simp]: "b_tables (removeUsernameFromCache w redis n b) = b_tables b"
  by (simp add: removeUsernameFromCache_def Let_def)

definition rows_of_others :: "string \<Rightarrow> tables \<Rightarrow> tables \<Rightarrow> bool" where
  "rows_of_others i db db' \<longleftrightarrow>
     (\<forall>r\<in>set (users db). u_ID r \<noteq> i \<longrightarrow> r \<in> set (users db')) \<and> set (users db') \<subseteq> set (users db)
   \<and> (\<forall>r\<in>set (deletions db). p_UserID r \<noteq> i \<longrightarrow> r \<in> set (deletions db'))"

lemma process_item_others:
  assumes "uuid_text w (TrimSpace (p_UserID item)) = Some (p_UserID item)"
  shows "rows_of_others (p_UserID item) (b_tables b) (b_tables (process_item w redis item b))"
proof -
  obtain res b1 where d: "on_db (DeleteUserByID w (p_UserID item)) b = (res, b1)" by (meson surj_pair)
  have "b_tables b1 = b_tables b \<or> b_tables b1 = erase_users {p_UserID item} (b_tables b)"
    using DeleteUserByID_state [OF assms, of "b_tables b"] d by (auto simp: on_db_iff)
  moreover have "b_tables (process_item w redis item b) = b_tables b1
      \<or> b_tables (process_item w redis item b) = sql_delete_deletion (p_UserID item) (b_tables b1)"
    using d DeleteByUserID_state [OF assms, of "b_tables b1"]
    by (auto simp: process_item_def on_db_def split: sum.split prod.split)
  ultimately show ?thesis by (auto simp: rows_of_others_def erase_users_def sql_delete_deletion_def)
qed

lemma process_items_others:
  "\<lbrakk>\<forall>it\<in>set items. p_UserID it \<noteq> p_UserID r \<and> uuid_text w (TrimSpace (p_UserID it)) = Some (p_UserID it);
    r \<in> set (deletions (b_tables b)); user \<in> set (users (b_tables b)); u_ID user = p_UserID r\<rbrakk> \<Longrightarrow>
   r \<in> set (deletions (b_tables (process_items w redis items b)))
   \<and> user \<in> set (users (b_tables (process_items w redis items b)))
   \<and> set (users (b_tables (process_items w redis items b))) \<subseteq> set (users (b_tables b))"
proof (induction items arbitrary: b)
  case (Cons item items)
  have "rows_of_others (p_UserID item) (b_tables b) (b_tables (process_item w redis item b))"
    using Cons.prems(1) by (intro process_item_others) simp
  then have "r \<in> set (deletions (b_tables (process_item w redis item b)))"
    "user \<in> set (users (b_tables (process_item w redis item b)))"
    "set (users (b_tables (process_item w redis item b))) \<subseteq> set (users (b_tables b))"
    using Cons.prems by (auto simp: rows_of_others_def)
  then show ?case using Cons.IH [of "process_item w redis item b"] Cons.prems by auto
qed simp

lemma wf_process_item: "db_wf (b_tables b) \<Longrightarrow> db_wf (b_tables (process_item w redis item b))"
  using wf_DeleteUserByID [of "b_tables b" w "p_UserID item"]
  by (auto simp: process_item_def on_db_def split: sum.split prod.split intro: wf_DeleteByUserID)
    (metis snd_conv wf_DeleteByUserID)+

lemma wf_process_items: "db_wf (b_tables b) \<Longrightarrow> db_wf (b_tables (process_items w redis items b))"
  by (induction items arbitrary: b) (auto intro: wf_process_item)

lemma ClaimDue_tables:
  assumes "ClaimDue w n db = (res, db1)"
  shows "users db1 = users db" "tokens db1 = tokens db" "r \<in> set (deletions db) \<Longrightarrow> p_StartedAt r \<noteq> None \<Longrightarrow> db_wf db \<Longrightarrow> r \<in> set (deletions db1)"
proof -
  have s: "db1 = db \<or> db1 = snd (sql_claim_due w (nat (if n \<le> 0 then 50 else n)) db)"
    using arg_cong [OF assms, of snd]
    by (cases "db_fault w Q_ClaimDue"; cases "sql_claim_due w (nat (if n \<le> 0 then 50 else n)) db")
      (auto simp: ClaimDue_def Let_def)
  then show "users db1 = users db" "tokens db1 = tokens db" by (auto simp: sql_claim_due_def Let_def)
  assume "r \<in> set (deletions db)" "p_StartedAt r \<noteq> None" "db_wf db"
  moreover from this have "r \<notin> set (due_rows w k db)" for k using set_due_rows [of w k db] by (auto simp: claimable_def)
  ultimately show "r \<in> set (deletions db1)" using s by (force simp: sql_claim_due_eq)
qed

lemma worker_round_keeps_started:
  assumes r: "r \<in> set (deletions (b_tables b))" "p_StartedAt r \<noteq> None"
    and user: "user \<in> set (users (b_tables b))" "u_ID user = p_UserID r"
    and wf: "db_wf (b_tables b)" and can: "ids_canonical w (b_tables b)"
  shows "r \<in> set (deletions (b_tables (processDueAccountDeletions w b)))
    \<and> user \<in> set (users (b_tables (processDueAccountDeletions w b)))
    \<and> set (users (b_tables (processDueAccountDeletions w b))) \<subseteq> set (users (b_tables b))
    \<and> db_wf (b_tables (processDueAccountDeletions w b))"
proof (cases "defaultDeps b")
  case Inl
  then show ?thesis using assms by (simp add: processDueAccountDeletions_def)
next
  case (Inr deps)
  obtain d redis where deps: "deps = (d, redis)" by (cases deps)
  obtain res db1 where c: "ClaimDue w 50 (b_tables b) = (res, db1)" by (meson surj_pair)
  note t = ClaimDue_tables [OF c]
  have wf1: "db_wf db1" using wf_ClaimDue [OF wf, of w 50] c by simp
  have r1: "r \<in> set (deletions db1)" using t(3) r wf by blast
  show ?thesis
  proof (cases res)
    case Inl
    then show ?thesis using \<open>defaultDeps b = Inr deps\<close> deps c r1 user t wf1
      by (simp add: processDueAccountDeletions_def on_db_def)
  next
    case items: (Inr items)
    note e = ClaimDue_effect(1) [OF c [unfolded items] wf]
    have "p_UserID it \<noteq> p_UserID r \<and> uuid_text w (TrimSpace (p_UserID it)) = Some (p_UserID it)" if it: "it \<in> set items" for it
    proof -
      obtain x where x: "x \<in> set (deletions (b_tables b))" "claimable w x" "p_UserID it = p_UserID x"
        using it e set_due_rows [of w _ "b_tables b"] by fastforce
      have "p_UserID x \<noteq> p_UserID r"
        using x r wf by (auto simp: claimable_def db_wf_def unique_by_def distinct_map dest: inj_onD)
      moreover obtain u where "u \<in> set (users (b_tables b))" "p_UserID x = u_ID u"
        using x(1) wf by (auto simp: db_wf_def)
      ultimately show ?thesis using x(3) can by (auto simp: ids_canonical_def good_id_def)
    qed
    then have "r \<in> set (deletions (b_tables (process_items w redis items (b\<lparr>b_tables := db1\<rparr>))))
        \<and> user \<in> set (users (b_tables (process_items w redis items (b\<lparr>b_tables := db1\<rparr>))))
        \<and> set (users (b_tables (process_items w redis items (b\<lparr>b_tables := db1\<rparr>)))) \<subseteq> set (users (b_tables (b\<lparr>b_tables := db1\<rparr>)))"
      using r1 user t(1) by (intro process_items_others) auto
    then show ?thesis using Inr deps c items t(1) wf1
      by (simp add: processDueAccountDeletions_def on_db_def wf_process_items)
  qed
qed

text \<open>
  C30. A claimed deletion is never taken up again. If a round of the worker has claimed the
  deletion of an account but could not carry it out, no later round of any worker deletes the
  account or the pending deletion: after any number of rounds both rows are still there, so
  the account stays blocked.
\<close>

theorem claimed_deletion_never_retried:
  "\<lbrakk>r \<in> set (deletions (b_tables b)); p_StartedAt r \<noteq> None; user \<in> set (users (b_tables b));
    u_ID user = p_UserID r; db_wf (b_tables b); \<forall>w. Tick w \<in> set evs \<longrightarrow> ids_canonical w (b_tables b)\<rbrakk> \<Longrightarrow>
   r \<in> set (deletions (b_tables (worker_loop evs b))) \<and> user \<in> set (users (b_tables (worker_loop evs b)))"
proof (induction evs b rule: worker_loop.induct)
  case (3 w evs b)
  let ?b = "processDueAccountDeletions w b"
  have step: "r \<in> set (deletions (b_tables ?b)) \<and> user \<in> set (users (b_tables ?b))
      \<and> set (users (b_tables ?b)) \<subseteq> set (users (b_tables b)) \<and> db_wf (b_tables ?b)"
    using "3.prems" by (intro worker_round_keeps_started) auto
  then have "\<forall>w. Tick w \<in> set evs \<longrightarrow> ids_canonical w (b_tables ?b)"
    using "3.prems"(6) by (auto simp: ids_canonical_def)
  then show ?case using "3.IH" "3.prems" step by simp
qed auto

definition lossy_outside :: outside where
  "lossy_outside = quiet_outside\<lparr>db_fault := (\<lambda>q. case q of Q_DeleteUserByID _ \<Rightarrow> RequestLost ''conn closed'' | _ \<Rightarrow> Delivered)\<rparr>"

theorem claimed_deletion_never_retried_witness:
  "\<exists>r b. b = processDueAccountDeletions lossy_outside (new_backend\<lparr>b_tables := alice_leaving\<rparr>)
     \<and> r \<in> set (deletions (b_tables (worker_loop [Tick quiet_outside, Tick quiet_outside] b))) \<and> p_UserID r = ''u1''"
proof -
  define b where "b = processDueAccountDeletions lossy_outside (new_backend\<lparr>b_tables := alice_leaving\<rparr>)"
  have g: "good_id ''u1''" by code_simp
  have "b_tables b = alice_claimed" unfolding b_def by code_simp
  then have "deletions (b_tables b) = deletions alice_claimed" "users (b_tables b) = [alice_row]" "db_wf (b_tables b)"
    using wf_ClaimDue [OF leaving_wf, of quiet_outside 0] claim_alice(1) by (auto simp: alice_claimed_def alice_db_def)
  then show ?thesis
    using claimed_deletion_never_retried [of "hd (deletions alice_claimed)" b alice_row "[Tick quiet_outside, Tick quiet_outside]"] g b_def
    by (auto simp: alice_claimed_def ids_canonical_def)
qed

section \<open>The account service as a state machine\<close>

text \<open>Well-formed tables in which every username has passed \<open>ValidUsername\<close>.\<close>

definition backend_ok :: "backend \<Rightarrow> bool" where
  "backend_ok b \<longleftrightarrow> db_wf (b_tables b) \<and> names_valid (b_tables b)"

lemma and_then_keeps: "P (snd x) \<Longrightarrow> (\<And>y s. P s \<Longrightarrow> P (snd (k y s))) \<Longrightarrow> P (snd (and_then x k))"
  by (cases x; cases "fst x") auto

lemma and_then_keeps_from:
  "x = (r, s) \<Longrightarrow> P s \<Longrightarrow> (\<And>y. r = Inr y \<Longrightarrow> P (snd (k y s))) \<Longrightarrow> P (snd (and_then x k))"
  by (cases r) auto

lemma snd_replace_error [simp]: "snd (replace_error t e x) = snd x"
  by (cases x; cases "fst x") auto

lemma snd_on_db [simp]: "snd (on_db f b) = b\<lparr>b_tables := snd (f (b_tables b))\<rparr>"
  by (simp add: on_db_def split: prod.split)

text \<open>Calls that never add or rename a user keep the names.\<close>

lemma users_UpsertActiveToken [simp]: "users (snd (UpsertActiveToken w a b c h db)) = users db"
proof -
  have "users (snd (sql_upsert_token w u h d n db)) = users db" for u d n
    by (auto simp: sql_upsert_token_def Let_def split: option.split)
  then show ?thesis
    by (auto simp: UpsertActiveToken_def Let_def intro!: exchange_keeps [where P = "\<lambda>d. users d = users db"]
        with_uuid_keeps [where P = "\<lambda>d. users d = users db"])
qed

lemma users_RotateToken [simp]: "users (snd (RotateToken w i h db)) = users db"
proof -
  obtain r d where s: "sql_rotate_token (pg_now w Q_RotateToken) i h db = (r, d)" by (meson surj_pair)
  then have "users d = users db" by (auto simp: sql_rotate_token_def split: option.splits if_splits)
  then show ?thesis
    by (cases "db_fault w Q_RotateToken") (auto simp: RotateToken_def s split: sum.split)
qed

lemma users_UpsertDeletion [simp]: "users (snd (UpsertDeletion w a t db)) = users db"
proof -
  have "users (snd (sql_upsert_deletion now u x db)) = users db" for now u x
    by (auto simp: sql_upsert_deletion_def Let_def split: option.split)
  then show ?thesis
    by (auto simp: UpsertDeletion_def Let_def intro!: exchange_keeps [where P = "\<lambda>d. users d = users db"]
        with_uuid_keeps [where P = "\<lambda>d. users d = users db"])
qed

lemma users_CancelIfNotStarted [simp]: "users (snd (CancelIfNotStarted w a db)) = users db"
proof -
  let ?del = "with_uuid w (TrimSpace a)
    (\<lambda>u. exchange (db_fault w Q_CancelDelete) (sql_cancel_deletion u db) db) db"
  have "users (snd ?del) = users db"
    by (auto intro!: exchange_keeps [where P = "\<lambda>d. users d = users db"]
        with_uuid_keeps [where P = "\<lambda>d. users d = users db"] simp: sql_cancel_deletion_def)
  then show ?thesis
    by (cases ?del) (auto simp: CancelIfNotStarted_def Let_def snd_with_uuid_readonly split: sum.split)
qed

lemma users_CreateUser: "set (users (snd (CreateUser w n d h db))) \<subseteq> set (users db) \<union> {u. u_Username u = TrimSpace n}"
proof -
  obtain r d' where s: "sql_insert_user w (TrimSpace n) (TrimSpace d) h db = (r, d')" by (meson surj_pair)
  then have "set (users d') \<subseteq> set (users db) \<union> {u. u_Username u = TrimSpace n}"
    by (auto simp: sql_insert_user_def Let_def split: if_splits)
  then show ?thesis
    by (cases "db_fault w Q_CreateUser") (auto simp: CreateUser_def Let_def s split: sum.split)
qed

lemma ok_CreateUser:
  "backend_ok b \<Longrightarrow> ValidUsername n \<Longrightarrow> backend_ok (b\<lparr>b_tables := snd (CreateUser w n d h (b_tables b))\<rparr>)"
  using users_CreateUser [of w n d h "b_tables b"]
  by (auto simp: backend_ok_def names_valid_def TrimSpace_ValidUsername intro: wf_CreateUser)

lemma ok_tokens:
  "backend_ok b \<Longrightarrow> backend_ok (b\<lparr>b_tables := snd (UpsertActiveToken w u d n h (b_tables b))\<rparr>)"
  "backend_ok b \<Longrightarrow> backend_ok (b\<lparr>b_tables := snd (RotateToken w i h (b_tables b))\<rparr>)"
  "backend_ok b \<Longrightarrow> backend_ok (b\<lparr>b_tables := snd (UpsertDeletion w u t (b_tables b))\<rparr>)"
  "backend_ok b \<Longrightarrow> backend_ok (b\<lparr>b_tables := snd (CancelIfNotStarted w u (b_tables b))\<rparr>)"
  "backend_ok b \<Longrightarrow> backend_ok (b\<lparr>b_redis := rs\<rparr>)"
  by (simp_all add: backend_ok_def names_valid_def wf_intros)

lemmas ok_intros = ok_tokens ok_CreateUser and_then_keeps [where P = backend_ok]

lemma ok_reject: "backend_ok b \<Longrightarrow> backend_ok (snd (rejectIfPendingDeletion w i b))"
  by (auto simp: rejectIfPendingDeletion_def intro!: ok_intros)

lemma ok_verifyDelete: "backend_ok b \<Longrightarrow> backend_ok (snd (verifyDeleteCredentials w n p b))"
  by (auto simp: verifyDeleteCredentials_def Let_def intro!: ok_intros)

lemma ok_Register: "backend_ok b \<Longrightarrow> backend_ok (snd (Register w creds b))"
  by (auto simp: Register_def Let_def split: prod.split intro!: ok_intros)

lemma ok_LoginByCredentials: "backend_ok b \<Longrightarrow> backend_ok (snd (LoginByCredentials w creds b))"
  by (auto simp: LoginByCredentials_def Let_def split: prod.split intro!: ok_intros ok_reject)

lemma ok_LoginByToken: "backend_ok b \<Longrightarrow> backend_ok (snd (LoginByToken w tok b))"
  by (auto simp: LoginByToken_def Let_def split: prod.split intro!: ok_intros ok_reject)

lemma ok_Schedule: "backend_ok b \<Longrightarrow> backend_ok (snd (ScheduleAccountDeletion w n p b))"
  by (auto simp: ScheduleAccountDeletion_def Let_def intro!: ok_intros ok_verifyDelete)

lemma ok_Cancel: "backend_ok b \<Longrightarrow> backend_ok (snd (CancelAccountDeletion w n p b))"
  by (auto simp: CancelAccountDeletion_def Let_def split: prod.split intro!: ok_intros ok_verifyDelete)

lemma users_DeleteUserByID: "set (users (snd (DeleteUserByID w i db))) \<subseteq> set (users db)"
proof -
  have s: "set (users (snd (sql_delete_user u db))) \<subseteq> set (users db)" for u
    by (auto simp: sql_delete_user_def split: option.split)
  let ?del = "with_uuid w (TrimSpace i) (\<lambda>u. exchange (db_fault w (Q_DeleteUserByID (TrimSpace i))) (sql_delete_user u db) db) db"
  have "set (users (snd ?del)) \<subseteq> set (users db)"
    by (rule with_uuid_keeps [where P = "\<lambda>d. set (users d) \<subseteq> set (users db)"], simp)
      (rule exchange_keeps [where P = "\<lambda>d. set (users d) \<subseteq> set (users db)"], simp_all only: s order_refl)
  then show ?thesis by (simp add: DeleteUserByID_def Let_def)
qed

lemma users_DeleteByUserID [simp]: "users (snd (DeleteByUserID w i db)) = users db"
  by (auto simp: DeleteByUserID_def Let_def sql_delete_deletion_def
      intro!: exchange_keeps [where P = "\<lambda>d. users d = users db"] with_uuid_keeps [where P = "\<lambda>d. users d = users db"])

lemma ok_process_item: "backend_ok b \<Longrightarrow> backend_ok (process_item w redis item b)"
proof -
  assume ok: "backend_ok b"
  obtain res b1 where d: "on_db (DeleteUserByID w (p_UserID item)) b = (res, b1)" by (meson surj_pair)
  then have "set (users (b_tables b1)) \<subseteq> set (users (b_tables b))"
    using users_DeleteUserByID [of w "p_UserID item" "b_tables b"] by (auto simp: on_db_iff)
  moreover have "set (users (b_tables (process_item w redis item b))) \<subseteq> set (users (b_tables b1))"
    using d by (auto simp: process_item_def split: sum.split)
  ultimately show ?thesis
    using ok wf_process_item [of b w redis item] by (auto simp: backend_ok_def names_valid_def)
qed

lemma ok_process_items: "backend_ok b \<Longrightarrow> backend_ok (process_items w redis items b)"
  by (induction items arbitrary: b) (auto intro: ok_process_item)

lemma ok_worker: "backend_ok b \<Longrightarrow> backend_ok (processDueAccountDeletions w b)"
proof -
  assume ok: "backend_ok b"
  obtain res db1 where c: "ClaimDue w 50 (b_tables b) = (res, db1)" by (meson surj_pair)
  have "backend_ok (b\<lparr>b_tables := db1\<rparr>)"
    using ok ClaimDue_tables(1) [OF c] wf_ClaimDue [of "b_tables b" w 50] c
    by (simp add: backend_ok_def names_valid_def)
  then show ?thesis using ok c
    by (auto simp: processDueAccountDeletions_def on_db_def ok_process_items split: sum.split)
qed

inductive backend_step :: "backend \<Rightarrow> backend \<Rightarrow> bool" where
  bs_Register: "backend_step b (snd (Register w creds b))"
| bs_LoginByCredentials: "backend_step b (snd (LoginByCredentials w creds b))"
| bs_LoginByToken: "backend_step b (snd (LoginByToken w tok b))"
| bs_Schedule: "backend_step b (snd (ScheduleAccountDeletion w username password b))"
| bs_Cancel: "backend_step b (snd (CancelAccountDeletion w username password b))"
| bs_Worker: "backend_step b (processDueAccountDeletions w b)"

inductive_cases backend_stepE: "backend_step b b'"

interpretation accounts: reachable_invariant backend_step backend_ok "\<lambda>b. b_tables b = empty_db"
proof (unfold_locales, goal_cases)
  case (1 b b')
  then show ?case
    by (elim backend_stepE) (auto intro: ok_Register ok_LoginByCredentials ok_LoginByToken ok_Schedule ok_Cancel ok_worker)
next
  case (2 b)
  then show ?case by (simp add: backend_ok_def names_valid_def empty_db_def db_wf_def max_bigint_def)
qed

text \<open>
  In every state the account service can reach from an empty database, by any sequence
  of registrations, logins, scheduled and cancelled deletions and worker rounds under any
  failures, the tables satisfy all their constraints and every stored username is valid, so
  it is its own normal form (the key the worker removes from the cache is the one
  registration wrote).
\<close>

theorem reachable_accounts_ok:
  assumes "b_tables b0 = empty_db" and "backend_step\<^sup>*\<^sup>* b0 b" and "user \<in> set (users (b_tables b))"
  shows "db_wf (b_tables b) \<and> ValidUsername (u_Username user)
    \<and> NormalizeUsername table (u_Username user) = u_Username user"
  using accounts.reachable_inv [OF assms(1,2)] assms(3)
  by (auto simp: backend_ok_def names_valid_def Normalize_ValidUsername)

theorem reachable_accounts_ok_witness:
  "\<exists>res b user. Register quiet_outside alice_creds new_backend = (Inr res, b) \<and> user \<in> set (users (b_tables b))
     \<and> ValidUsername (u_Username user)"
proof -
  obtain res b where r: "Register quiet_outside alice_creds new_backend = (Inr res, b)" by (rule register_alice)
  obtain user where u: "lookup_by u_Username ''alice'' (users (b_tables b)) = Some user"
    by (rule Register_account [OF r new_backend_wf quiet_argon2]) (use alice_name in auto)
  have "backend_step\<^sup>*\<^sup>* new_backend b"
    using bs_Register [of new_backend quiet_outside alice_creds] r by (auto intro: r_into_rtranclp)
  then show ?thesis
    using reachable_accounts_ok [of new_backend b user] lookup_by_SomeD [OF u] r by (auto simp: new_backend_def)
qed

end
