(* ===== verification/Session.thy ===== *)
theory Session
  imports Deletion
begin

text \<open>
  \<open>src/server/core/session/session.go\<close>: the login state of a connection
  (\<open>DeviceSession\<close>) and the process-wide registry of the sessions of each user
  (\<open>userStates\<close>). Sessions and user states are shared through pointers, so the model has
  an explicit store: addresses are numbers, \<open>None\<close> is the nil pointer. A channel is a
  number too; closing a closed channel panics, which the model records.

  Every section of the code between \<open>Lock\<close> and \<open>Unlock\<close> is one definition. The
  methods compose them; the races are interleavings of the sections of two calls.
\<close>

section \<open>State\<close>

record DeviceSession =
  s_userID :: string
  s_deviceID :: string
  s_deviceName :: string
  s_conn :: "nat option"
  s_revoked :: bool
  s_revokedCh :: nat

record UserState =
  us_userID :: string
  us_devices :: "(string \<times> nat) list"

record registry =
  sessions :: "nat \<Rightarrow> DeviceSession option"
  ustates :: "nat \<Rightarrow> UserState option"
  userStates :: "string \<Rightarrow> nat option"
  next_session :: nat
  next_ustate :: nat
  next_chan :: nat
  closed_chans :: "nat list"
  closed_conns :: "(nat \<times> nat \<times> string) list"
  chan_panic :: bool

definition empty_registry :: registry where
  "empty_registry = \<lparr>sessions = (\<lambda>_. None), ustates = (\<lambda>_. None), userStates = (\<lambda>_. None),
     next_session = 0, next_ustate = 0, next_chan = 0, closed_chans = [], closed_conns = [], chan_panic = False\<rparr>"

definition put_session :: "nat \<Rightarrow> DeviceSession \<Rightarrow> registry \<Rightarrow> registry" where
  "put_session a s g = g\<lparr>sessions := (sessions g)(a := Some s)\<rparr>"

definition put_ustate :: "nat \<Rightarrow> UserState \<Rightarrow> registry \<Rightarrow> registry" where
  "put_ustate p st g = g\<lparr>ustates := (ustates g)(p := Some st)\<rparr>"

definition make_chan :: "registry \<Rightarrow> nat \<times> registry" where
  "make_chan g = (next_chan g, g\<lparr>next_chan := next_chan g + 1\<rparr>)"

definition close_chan :: "nat \<Rightarrow> registry \<Rightarrow> registry" where
  "close_chan c g =
     (if c \<in> set (closed_chans g) then g\<lparr>chan_panic := True\<rparr> else g\<lparr>closed_chans := c # closed_chans g\<rparr>)"

section \<open>Operations on a session\<close>

definition NewDeviceSession :: "nat option \<Rightarrow> registry \<Rightarrow> nat \<times> registry" where
  "NewDeviceSession conn g =
     (let (ch, g1) = make_chan g; a = next_session g1 in
      (a, (put_session a \<lparr>s_userID = '''', s_deviceID = '''', s_deviceName = '''', s_conn = conn,
             s_revoked = False, s_revokedCh = ch\<rparr> g1)\<lparr>next_session := a + 1\<rparr>))"

text \<open>The first section of \<open>Authenticate\<close>: the fields, and a fresh channel after a revocation.\<close>

definition auth_fields :: "nat \<Rightarrow> string \<Rightarrow> string \<Rightarrow> string \<Rightarrow> registry \<Rightarrow> registry" where
  "auth_fields a userID deviceID deviceName g =
     (case sessions g a of
        None \<Rightarrow> g
      | Some s \<Rightarrow>
          let (s1, g1) = (if s_revoked s
                then (let (ch, g1) = make_chan g in (s\<lparr>s_revoked := False, s_revokedCh := ch\<rparr>, g1))
                else (s, g))
          in put_session a (s1\<lparr>s_userID := userID, s_deviceID := deviceID, s_deviceName := deviceName\<rparr>) g1)"

text \<open>The second: find or create the state of the user, if the database knows the user.\<close>

definition auth_state :: "outside \<Rightarrow> backend \<Rightarrow> string \<Rightarrow> registry \<Rightarrow> nat option \<times> registry" where
  "auth_state w b userID g =
     (case userStates g userID of
        Some p \<Rightarrow> (Some p, g)
      | None \<Rightarrow>
          (case DefaultDB (b_db b) of
             Inl err \<Rightarrow> (None, g)
           | Inr _ \<Rightarrow>
               (case GetUserByID w userID (b_tables b) of
                  (Inl err, _) \<Rightarrow> (None, g)
                | (Inr _, _) \<Rightarrow>
                    let p = next_ustate g in
                    (Some p, (put_ustate p \<lparr>us_userID = userID, us_devices = []\<rparr> g)
                               \<lparr>userStates := (userStates g)(userID := Some p), next_ustate := p + 1\<rparr>))))"

text \<open>The third: register the session as the one of its device.\<close>

definition set_device :: "string \<Rightarrow> nat \<Rightarrow> (string \<times> nat) list \<Rightarrow> (string \<times> nat) list" where
  "set_device d a devs = (d, a) # filter (\<lambda>(d', _). d' \<noteq> d) devs"

definition auth_register :: "nat \<Rightarrow> nat \<Rightarrow> string \<Rightarrow> registry \<Rightarrow> registry" where
  "auth_register p a deviceID g =
     (case ustates g p of
        None \<Rightarrow> g
      | Some st \<Rightarrow> put_ustate p (st\<lparr>us_devices := set_device deviceID a (us_devices st)\<rparr>) g)"

definition Authenticate ::
    "outside \<Rightarrow> backend \<Rightarrow> nat option \<Rightarrow> string \<Rightarrow> string \<Rightarrow> string \<Rightarrow> registry \<Rightarrow> registry" where
  "Authenticate w b sp userID0 deviceID0 deviceName0 g =
     (case sp of
        None \<Rightarrow> g
      | Some a \<Rightarrow>
          let userID = TrimSpace userID0; deviceID = TrimSpace deviceID0; deviceName = TrimSpace deviceName0 in
          if userID = '''' \<or> deviceID = '''' then g
          else
          let g1 = auth_fields a userID deviceID deviceName g in
          (case auth_state w b userID g1 of
             (None, g2) \<Rightarrow> g2
           | (Some p, g2) \<Rightarrow> auth_register p a deviceID g2))"

definition IsAuthenticated :: "nat option \<Rightarrow> registry \<Rightarrow> bool" where
  "IsAuthenticated sp g =
     (case sp of None \<Rightarrow> False
      | Some a \<Rightarrow> (case sessions g a of None \<Rightarrow> False | Some s \<Rightarrow> s_userID s \<noteq> '''' \<and> s_deviceID s \<noteq> ''''))"

definition session_UserID :: "nat option \<Rightarrow> registry \<Rightarrow> string" where
  "session_UserID sp g =
     (case sp of None \<Rightarrow> ''''
      | Some a \<Rightarrow> (case sessions g a of None \<Rightarrow> '''' | Some s \<Rightarrow> s_userID s))"

definition IsRevoked :: "nat option \<Rightarrow> registry \<Rightarrow> bool" where
  "IsRevoked sp g =
     (case sp of None \<Rightarrow> True
      | Some a \<Rightarrow> (case sessions g a of None \<Rightarrow> True | Some s \<Rightarrow> s_revoked s))"

text \<open>\<open>Revoked\<close> returns the channel that is closed on revocation: here, whether it is closed.\<close>

definition Revoked_closed :: "nat option \<Rightarrow> registry \<Rightarrow> bool" where
  "Revoked_closed sp g =
     (case sp of None \<Rightarrow> True
      | Some a \<Rightarrow> (case sessions g a of None \<Rightarrow> True | Some s \<Rightarrow> s_revokedCh s \<in> set (closed_chans g)))"

definition Revoke :: "nat option \<Rightarrow> registry \<Rightarrow> registry" where
  "Revoke sp g =
     (case sp of None \<Rightarrow> g
      | Some a \<Rightarrow>
          (case sessions g a of None \<Rightarrow> g
           | Some s \<Rightarrow>
               if s_revoked s then g
               else close_chan (s_revokedCh s)
                 (put_session a (s\<lparr>s_revoked := True, s_userID := '''', s_deviceID := '''', s_deviceName := ''''\<rparr>) g)))"

section \<open>Operations on the sessions of a user\<close>

definition detachUserSessions :: "string \<Rightarrow> registry \<Rightarrow> nat list \<times> registry" where
  "detachUserSessions userID0 g =
     (let userID = TrimSpace userID0 in
      if userID = '''' then ([], g)
      else case userStates g userID of
          None \<Rightarrow> ([], g)
        | Some p \<Rightarrow>
            (case ustates g p of
               None \<Rightarrow> ([], g)
             | Some st \<Rightarrow>
                 (map snd (us_devices st),
                  (put_ustate p (st\<lparr>us_devices := []\<rparr>) g)\<lparr>userStates := (userStates g)(userID := None)\<rparr>)))"

fun revoke_all :: "nat list \<Rightarrow> registry \<Rightarrow> registry" where
  "revoke_all [] g = g"
| "revoke_all (a # as) g = revoke_all as (Revoke (Some a) g)"

definition InvalidateUserSessions :: "string \<Rightarrow> registry \<Rightarrow> registry" where
  "InvalidateUserSessions userID g = (case detachUserSessions userID g of (as, g1) \<Rightarrow> revoke_all as g1)"

fun close_all :: "nat \<Rightarrow> string \<Rightarrow> nat list \<Rightarrow> registry \<Rightarrow> registry" where
  "close_all code reason [] g = g"
| "close_all code reason (a # as) g =
     (let g1 = Revoke (Some a) g;
          g2 = (case sessions g1 a of
                  None \<Rightarrow> g1
                | Some s \<Rightarrow> (case s_conn s of
                    None \<Rightarrow> g1
                  | Some c \<Rightarrow> g1\<lparr>closed_conns := (c, code, reason) # closed_conns g1\<rparr>))
      in close_all code reason as g2)"

definition CloseUserSessions :: "string \<Rightarrow> nat \<Rightarrow> string \<Rightarrow> registry \<Rightarrow> registry" where
  "CloseUserSessions userID code reason g =
     (case detachUserSessions userID g of (as, g1) \<Rightarrow> close_all code reason as g1)"

section \<open>Invariant under every interleaving\<close>

definition session_ok :: "registry \<Rightarrow> DeviceSession \<Rightarrow> bool" where
  "session_ok g s \<longleftrightarrow> s_revokedCh s < next_chan g \<and> (s_revoked s \<longleftrightarrow> s_revokedCh s \<in> set (closed_chans g))
     \<and> (s_revoked s \<longrightarrow> s_userID s = '''' \<and> s_deviceID s = '''')"

definition sessions_ok :: "registry \<Rightarrow> bool" where
  "sessions_ok g \<longleftrightarrow>
     (\<forall>a s. sessions g a = Some s \<longrightarrow> a < next_session g \<and> session_ok g s)
   \<and> (\<forall>a b s t. sessions g a = Some s \<longrightarrow> sessions g b = Some t \<longrightarrow> a \<noteq> b \<longrightarrow> s_revokedCh s \<noteq> s_revokedCh t)
   \<and> (\<forall>c\<in>set (closed_chans g). c < next_chan g) \<and> \<not> chan_panic g"

definition states_ok :: "registry \<Rightarrow> bool" where
  "states_ok g \<longleftrightarrow>
     (\<forall>u p. userStates g u = Some p \<longrightarrow> u \<noteq> '''' \<and> (\<exists>st. ustates g p = Some st \<and> us_userID st = u))
   \<and> (\<forall>p st. ustates g p = Some st \<longrightarrow> p < next_ustate g \<and> distinct (map fst (us_devices st))
        \<and> (\<forall>a\<in>snd ` set (us_devices st). sessions g a \<noteq> None))"

definition registry_ok :: "registry \<Rightarrow> bool" where
  "registry_ok g \<longleftrightarrow> sessions_ok g \<and> states_ok g"

lemma ok_empty [simp]: "registry_ok empty_registry"
  by (simp add: registry_ok_def sessions_ok_def states_ok_def empty_registry_def)

text \<open>
  One locked section of some goroutine. A section of \<open>Authenticate\<close> can run at any time
  after the one before it, between sections of other calls.
\<close>

inductive session_step :: "registry \<Rightarrow> registry \<Rightarrow> bool" where
  ss_new: "session_step g (snd (NewDeviceSession conn g))"
| ss_fields: "session_step g (auth_fields a u d n g)"
| ss_state: "u \<noteq> '''' \<Longrightarrow> session_step g (snd (auth_state w b u g))"
| ss_register: "sessions g a \<noteq> None \<Longrightarrow> session_step g (auth_register p a d g)"
| ss_revoke: "session_step g (Revoke sp g)"
| ss_detach: "session_step g (snd (detachUserSessions u g))"
| ss_close_conn: "session_step g (g\<lparr>closed_conns := cs\<rparr>)"

inductive_cases session_stepE: "session_step g g'"

text \<open>The parts of the store an operation leaves alone.\<close>

lemma sessions_ok_cong:
  "sessions g' = sessions g \<Longrightarrow> next_session g' = next_session g \<Longrightarrow> next_chan g' = next_chan g \<Longrightarrow>
   closed_chans g' = closed_chans g \<Longrightarrow> chan_panic g' = chan_panic g \<Longrightarrow> sessions_ok g \<Longrightarrow> sessions_ok g'"
  by (simp add: sessions_ok_def session_ok_def)

lemma states_ok_mono:
  assumes "states_ok g" "userStates g' = userStates g" "ustates g' = ustates g" "next_ustate g' = next_ustate g"
    "\<And>a. sessions g a \<noteq> None \<Longrightarrow> sessions g' a \<noteq> None"
  shows "states_ok g'"
  using assms(1,5) unfolding states_ok_def assms(2-4) by blast

lemma sessions_ok_put:
  assumes "sessions_ok g" "a < next_session g" "session_ok g s"
    "\<And>b t. b \<noteq> a \<Longrightarrow> sessions g b = Some t \<Longrightarrow> s_revokedCh s \<noteq> s_revokedCh t"
  shows "sessions_ok (put_session a s g)"
  using assms unfolding sessions_ok_def put_session_def session_ok_def by (auto dest: not_sym)

lemma sessions_ok_chan: "sessions_ok g \<Longrightarrow> sessions_ok (g\<lparr>next_chan := next_chan g + 1\<rparr>)"
  unfolding sessions_ok_def session_ok_def by (auto simp: less_Suc_eq)

lemma next_chan_fresh:
  assumes "sessions_ok g"
  shows "next_chan g \<notin> set (closed_chans g)" "\<And>b t. sessions g b = Some t \<Longrightarrow> next_chan g \<noteq> s_revokedCh t"
  using assms unfolding sessions_ok_def session_ok_def by (blast, metis less_irrefl)

lemma sessions_ok_next: "sessions_ok g \<Longrightarrow> sessions_ok (g\<lparr>next_session := next_session g + 1\<rparr>)"
  unfolding sessions_ok_def session_ok_def by (auto simp: less_Suc_eq)

lemma ok_new: "registry_ok g \<Longrightarrow> registry_ok (snd (NewDeviceSession conn g))"
proof -
  assume ok: "registry_ok g"
  let ?g = "g\<lparr>next_chan := next_chan g + 1, next_session := next_session g + 1\<rparr>"
  let ?s = "\<lparr>s_userID = '''', s_deviceID = '''', s_deviceName = '''', s_conn = conn, s_revoked = False, s_revokedCh = next_chan g\<rparr>"
  have s: "sessions_ok g" using ok by (simp add: registry_ok_def)
  note fresh = next_chan_fresh [OF s]
  have "sessions_ok (put_session (next_session g) ?s ?g)"
  proof (rule sessions_ok_put)
    show "sessions_ok ?g" using sessions_ok_next [OF sessions_ok_chan [OF s]] by simp
    show "session_ok ?g ?s" using fresh(1) by (simp add: session_ok_def)
    show "\<And>b t. sessions ?g b = Some t \<Longrightarrow> s_revokedCh ?s \<noteq> s_revokedCh t" using fresh(2) by simp
  qed simp
  moreover have "snd (NewDeviceSession conn g) = put_session (next_session g) ?s ?g"
    by (simp add: NewDeviceSession_def make_chan_def put_session_def Let_def)
  moreover have "states_ok (put_session (next_session g) ?s ?g)"
    by (rule states_ok_mono [of g]) (use ok in \<open>auto simp: registry_ok_def put_session_def\<close>)
  ultimately show ?thesis by (simp add: registry_ok_def)
qed

lemma ok_fields:
  assumes ok: "registry_ok g" shows "registry_ok (auth_fields a u d n g)"
proof (cases "sessions g a")
  case None
  then show ?thesis using ok by (simp add: auth_fields_def)
next
  case (Some s)
  have so: "sessions_ok g" and st: "states_ok g" using ok by (auto simp: registry_ok_def)
  have a: "a < next_session g" "session_ok g s"
    "\<And>b t. b \<noteq> a \<Longrightarrow> sessions g b = Some t \<Longrightarrow> s_revokedCh s \<noteq> s_revokedCh t"
    using so Some unfolding sessions_ok_def by blast+
  have "sessions_ok (auth_fields a u d n g)"
  proof (cases "s_revoked s")
    case True
    let ?s = "s\<lparr>s_revoked := False, s_revokedCh := next_chan g, s_userID := u, s_deviceID := d, s_deviceName := n\<rparr>"
    note fresh = next_chan_fresh [OF so]
    have "sessions_ok (put_session a ?s (g\<lparr>next_chan := next_chan g + 1\<rparr>))"
    proof (rule sessions_ok_put [OF sessions_ok_chan [OF so]])
      show "session_ok (g\<lparr>next_chan := next_chan g + 1\<rparr>) ?s" using fresh(1) by (simp add: session_ok_def)
      show "\<And>b t. sessions (g\<lparr>next_chan := next_chan g + 1\<rparr>) b = Some t \<Longrightarrow> s_revokedCh ?s \<noteq> s_revokedCh t"
        using fresh(2) by simp
    qed (use a(1) in simp)
    then show ?thesis using Some True by (simp add: auth_fields_def make_chan_def)
  next
    case False
    have "sessions_ok (put_session a (s\<lparr>s_userID := u, s_deviceID := d, s_deviceName := n\<rparr>) g)"
      by (rule sessions_ok_put [OF so]) (use a(1,2) False in \<open>simp_all add: session_ok_def a(3)\<close>)
    then show ?thesis using Some False by (simp add: auth_fields_def)
  qed
  moreover have "states_ok (auth_fields a u d n g)"
    by (rule states_ok_mono [OF st]) (use Some in \<open>auto simp: auth_fields_def make_chan_def put_session_def Let_def\<close>)
  ultimately show ?thesis by (simp add: registry_ok_def)
qed

lemma ok_state: "registry_ok g \<Longrightarrow> u \<noteq> '''' \<Longrightarrow> registry_ok (snd (auth_state w b u g))"
proof -
  assume ok: "registry_ok g" and u: "u \<noteq> ''''"
  let ?g = "(put_ustate (next_ustate g) \<lparr>us_userID = u, us_devices = []\<rparr> g)
      \<lparr>userStates := (userStates g)(u := Some (next_ustate g)), next_ustate := next_ustate g + 1\<rparr>"
  have so: "sessions_ok g" and st: "states_ok g" using ok by (auto simp: registry_ok_def)
  have fresh: "ustates g (next_ustate g) = None"
    using st unfolding states_ok_def by (metis less_irrefl_nat option.exhaust)
  have "sessions_ok ?g" using so by (rule sessions_ok_cong [rotated -1]) (simp_all add: put_ustate_def)
  moreover have "states_ok ?g" using st u fresh
    unfolding states_ok_def put_ustate_def by (auto simp: less_Suc_eq)
  ultimately have "registry_ok ?g" by (simp add: registry_ok_def)
  then show ?thesis using ok by (auto simp: auth_state_def Let_def split: option.split sum.split prod.split)
qed

text \<open>Replacing the devices of one user state.\<close>

lemma states_ok_devices:
  assumes st: "states_ok g" and p: "ustates g p = Some us"
    and d: "distinct (map fst devs)" "\<And>a. a \<in> snd ` set devs \<Longrightarrow> sessions g a \<noteq> None"
  shows "states_ok (put_ustate p (us\<lparr>us_devices := devs\<rparr>) g)"
proof -
  have "p < next_ustate g" using st p unfolding states_ok_def by blast
  moreover have "us_userID us = u" if "userStates g u = Some p" for u
    using st p that unfolding states_ok_def by (metis option.inject)
  ultimately show ?thesis using st p d unfolding states_ok_def put_ustate_def by auto
qed

lemma ok_register:
  assumes ok: "registry_ok g" and a: "sessions g a \<noteq> None"
  shows "registry_ok (auth_register p a d g)"
proof (cases "ustates g p")
  case None
  then show ?thesis using ok by (simp add: auth_register_def)
next
  case (Some st)
  let ?g = "put_ustate p (st\<lparr>us_devices := set_device d a (us_devices st)\<rparr>) g"
  have so: "sessions_ok g" and ok': "states_ok g" using ok by (auto simp: registry_ok_def)
  have dev: "distinct (map fst (us_devices st))" "\<forall>a\<in>snd ` set (us_devices st). sessions g a \<noteq> None"
    using ok' Some unfolding states_ok_def by blast+
  have "states_ok ?g"
    by (rule states_ok_devices [OF ok' Some])
      (use dev a in \<open>auto simp: set_device_def distinct_map inj_on_def\<close>)
  moreover have "sessions_ok ?g" using so by (rule sessions_ok_cong [rotated -1]) (simp_all add: put_ustate_def)
  ultimately show ?thesis using Some by (simp add: registry_ok_def auth_register_def)
qed

lemma Revoke_eq:
  assumes "sessions_ok g" "sessions g a = Some s" "\<not> s_revoked s"
  shows "Revoke (Some a) g = g\<lparr>sessions := (sessions g)(a := Some (s\<lparr>s_revoked := True, s_userID := '''',
      s_deviceID := '''', s_deviceName := ''''\<rparr>)), closed_chans := s_revokedCh s # closed_chans g\<rparr>"
proof -
  have "s_revokedCh s \<notin> set (closed_chans g)" using assms unfolding sessions_ok_def session_ok_def by blast
  then show ?thesis using assms by (simp add: Revoke_def close_chan_def put_session_def)
qed

lemma ok_revoke: "registry_ok g \<Longrightarrow> registry_ok (Revoke sp g)"
proof -
  assume ok: "registry_ok g"
  show ?thesis
  proof (cases "\<exists>a s. sp = Some a \<and> sessions g a = Some s \<and> \<not> s_revoked s")
    case False
    then show ?thesis using ok by (auto simp: Revoke_def split: option.split)
  next
    case True
    then obtain a s where as: "sp = Some a" "sessions g a = Some s" "\<not> s_revoked s" by blast
    have so: "sessions_ok g" and st: "states_ok g" using ok by (auto simp: registry_ok_def)
    note r = Revoke_eq [OF so as(2,3)]
    have ch: "s_revokedCh s < next_chan g" "a < next_session g"
      "\<And>b t. sessions g b = Some t \<Longrightarrow> b \<noteq> a \<Longrightarrow> s_revokedCh t \<noteq> s_revokedCh s"
      using so as unfolding sessions_ok_def session_ok_def by blast+
    have others: "b < next_session g \<and> session_ok (Revoke (Some a) g) t" if "sessions g b = Some t" "b \<noteq> a" for b t
      using so that ch(3) [OF that] unfolding r sessions_ok_def session_ok_def by auto
    have chans: "s_revokedCh t \<noteq> s_revokedCh t'" if "sessions g b = Some t" "sessions g b' = Some t'" "b \<noteq> b'" for b b' t t'
      using so that unfolding sessions_ok_def by blast
    have "sessions_ok (Revoke (Some a) g)"
      unfolding sessions_ok_def
    proof (intro conjI allI impI)
      fix b t assume t: "sessions (Revoke (Some a) g) b = Some t"
      have "b < next_session g \<and> session_ok (Revoke (Some a) g) t"
      proof (cases "b = a")
        case True
        then show ?thesis using t ch(1,2) by (auto simp: r session_ok_def)
      next
        case False
        then have "sessions g b = Some t" using t by (simp add: r)
        then show ?thesis using others False by blast
      qed
      then show "b < next_session (Revoke (Some a) g)" "session_ok (Revoke (Some a) g) t" by (simp_all add: r)
    next
      fix b b' t t' assume "sessions (Revoke (Some a) g) b = Some t" "sessions (Revoke (Some a) g) b' = Some t'" "b \<noteq> b'"
      then show "s_revokedCh t \<noteq> s_revokedCh t'"
        using chans as(2) by (auto simp: r split: if_splits)
    qed (use so ch(1) in \<open>auto simp: r sessions_ok_def\<close>)
    moreover have "states_ok (Revoke (Some a) g)"
      unfolding r by (rule states_ok_mono [OF st]) auto
    ultimately show ?thesis using as by (simp add: registry_ok_def)
  qed
qed

lemma ok_detach: "registry_ok g \<Longrightarrow> registry_ok (snd (detachUserSessions u g))"
proof -
  assume ok: "registry_ok g"
  have so: "sessions_ok g" and st: "states_ok g" using ok by (auto simp: registry_ok_def)
  show ?thesis
  proof (cases "\<exists>p us. TrimSpace u \<noteq> '''' \<and> userStates g (TrimSpace u) = Some p \<and> ustates g p = Some us")
    case False
    then show ?thesis using ok by (auto simp: detachUserSessions_def Let_def split: option.split)
  next
    case True
    then obtain p us where p: "TrimSpace u \<noteq> ''''" "userStates g (TrimSpace u) = Some p" "ustates g p = Some us" by blast
    let ?g = "put_ustate p (us\<lparr>us_devices := []\<rparr>) g"
    have "states_ok ?g" by (rule states_ok_devices [OF st p(3)]) auto
    then have "states_ok (?g\<lparr>userStates := (userStates g)(TrimSpace u := None)\<rparr>)"
      unfolding states_ok_def by (auto simp: put_ustate_def)
    moreover have "sessions_ok (?g\<lparr>userStates := (userStates g)(TrimSpace u := None)\<rparr>)"
      using so by (rule sessions_ok_cong [rotated -1]) (simp_all add: put_ustate_def)
    ultimately show ?thesis using p by (simp add: registry_ok_def detachUserSessions_def)
  qed
qed

lemma ok_close_conn: "registry_ok g \<Longrightarrow> registry_ok (g\<lparr>closed_conns := cs\<rparr>)"
  by (simp add: registry_ok_def sessions_ok_def session_ok_def states_ok_def)

interpretation reg: reachable_invariant session_step registry_ok "\<lambda>g. g = empty_registry"
proof (unfold_locales, goal_cases)
  case (1 g g')
  then show ?case
    by (elim session_stepE) (auto simp: ok_new ok_fields ok_state ok_register ok_revoke ok_detach ok_close_conn)
next
  case (2 g)
  then show ?case by (simp add: registry_ok_def sessions_ok_def states_ok_def empty_registry_def)
qed

section \<open>What the operations do\<close>

text \<open>
  C5. Under every interleaving of the locked sections of any number of goroutines, no
  channel is ever closed twice (which would panic), a session is revoked exactly when its
  channel is closed, and a revoked session is not authenticated.
\<close>

theorem reachable_registry_safe:
  assumes "session_step\<^sup>*\<^sup>* empty_registry g" and "sessions g a \<noteq> None"
  shows "\<not> chan_panic g \<and> IsRevoked (Some a) g = Revoked_closed (Some a) g
    \<and> \<not> (IsRevoked (Some a) g \<and> IsAuthenticated (Some a) g)"
proof -
  have "registry_ok g" by (rule reg.reachable_inv [OF _ assms(1)]) simp
  then have ok: "sessions_ok g" by (simp add: registry_ok_def)
  obtain s where s: "sessions g a = Some s" using assms(2) by blast
  have "session_ok g s" "\<not> chan_panic g" using ok s unfolding sessions_ok_def by blast+
  then show ?thesis using s by (auto simp: IsRevoked_def Revoked_closed_def IsAuthenticated_def session_ok_def)
qed

theorem reachable_registry_safe_witness:
  "let g = Revoke (Some 0) (Revoke (Some 0) (snd (NewDeviceSession None empty_registry)))
   in \<not> chan_panic g \<and> IsRevoked (Some 0) g \<and> Revoked_closed (Some 0) g"
proof -
  let ?g = "Revoke (Some 0) (Revoke (Some 0) (snd (NewDeviceSession None empty_registry)))"
  have "session_step\<^sup>*\<^sup>* empty_registry ?g"
    by (rule rtranclp.rtrancl_into_rtrancl [OF rtranclp.rtrancl_into_rtrancl [OF r_into_rtranclp]])
      (rule ss_new, rule ss_revoke, rule ss_revoke)
  moreover have "sessions ?g 0 \<noteq> None" "IsRevoked (Some 0) ?g"
    by (simp_all add: Revoke_def NewDeviceSession_def make_chan_def put_session_def close_chan_def empty_registry_def IsRevoked_def)
  ultimately show ?thesis using reachable_registry_safe [of ?g 0] by (simp add: Let_def)
qed

definition revoked_session :: "DeviceSession \<Rightarrow> DeviceSession" where
  "revoked_session s =
     (if s_revoked s then s else s\<lparr>s_revoked := True, s_userID := '''', s_deviceID := '''', s_deviceName := ''''\<rparr>)"

lemma revoked_session_revoked [simp]: "s_revoked (revoked_session s)"
  by (simp add: revoked_session_def)

lemma revoked_session_idem [simp]: "revoked_session (revoked_session s) = revoked_session s"
  by (simp add: revoked_session_def)

lemma sessions_Revoke: "sessions (Revoke (Some a) g) x = (if x = a then map_option revoked_session (sessions g x) else sessions g x)"
  by (auto simp: Revoke_def close_chan_def put_session_def revoked_session_def split: option.split)

lemma Revoke_states [simp]: "userStates (Revoke sp g) = userStates g" "ustates (Revoke sp g) = ustates g"
  by (auto simp: Revoke_def close_chan_def put_session_def split: option.split)

lemma sessions_revoke_all:
  "sessions (revoke_all as g) x = (if x \<in> set as then map_option revoked_session (sessions g x) else sessions g x)"
  by (induction as arbitrary: g) (auto simp: sessions_Revoke option.map_comp comp_def)

lemma revoke_all_states [simp]: "userStates (revoke_all as g) = userStates g" "ustates (revoke_all as g) = ustates g"
  by (induction as arbitrary: g) auto

lemma ok_revoke_all: "registry_ok g \<Longrightarrow> registry_ok (revoke_all as g)"
  by (induction as arbitrary: g) (auto intro: ok_revoke)

lemma ok_Invalidate: "registry_ok g \<Longrightarrow> registry_ok (InvalidateUserSessions u g)"
  using ok_detach [of g u] by (auto simp: InvalidateUserSessions_def ok_revoke_all split: prod.split)

text \<open>The sessions registered for a user.\<close>

definition devices_of :: "registry \<Rightarrow> string \<Rightarrow> (string \<times> nat) list" where
  "devices_of g u = (case userStates g u of None \<Rightarrow> []
     | Some p \<Rightarrow> (case ustates g p of None \<Rightarrow> [] | Some st \<Rightarrow> us_devices st))"

definition registered :: "registry \<Rightarrow> string \<Rightarrow> nat set" where
  "registered g u = snd ` set (devices_of g u)"

lemma devices_of_cong: "userStates g' = userStates g \<Longrightarrow> ustates g' = ustates g \<Longrightarrow> devices_of g' u = devices_of g u"
  by (simp add: devices_of_def split: option.split)

lemma detach_effect:
  assumes u: "TrimSpace u \<noteq> ''''" and ok: "states_ok g" and d: "detachUserSessions u g = (as, g')"
  shows "set as = registered g (TrimSpace u)" "sessions g' = sessions g"
    "userStates g' = (userStates g)(TrimSpace u := None)"
    "\<And>v. v \<noteq> TrimSpace u \<Longrightarrow> registered g' v = registered g v"
proof -
  have st: "\<exists>us. ustates g p = Some us \<and> us_userID us = v" if "userStates g v = Some p" for v p
    using ok that unfolding states_ok_def by blast
  have other: "q \<noteq> p" if "userStates g v = Some q" "userStates g (TrimSpace u) = Some p" "v \<noteq> TrimSpace u" for v p q
    using st [OF that(1)] st [OF that(2)] that(3) by auto
  have "set as = registered g (TrimSpace u) \<and> sessions g' = sessions g \<and> userStates g' = (userStates g)(TrimSpace u := None)
    \<and> (\<forall>v. v \<noteq> TrimSpace u \<longrightarrow> registered g' v = registered g v)"
  proof (cases "userStates g (TrimSpace u)")
    case None
    then have "as = []" "g' = g" using d u by (auto simp: detachUserSessions_def Let_def)
    then show ?thesis using None by (auto simp: registered_def devices_of_def)
  next
    case (Some p)
    then obtain us where us: "ustates g p = Some us" using st by blast
    then have as: "as = map snd (us_devices us)"
      and g': "g' = (put_ustate p (us\<lparr>us_devices := []\<rparr>) g)\<lparr>userStates := (userStates g)(TrimSpace u := None)\<rparr>"
      using d u Some by (auto simp: detachUserSessions_def Let_def)
    have "devices_of g' v = devices_of g v" if "v \<noteq> TrimSpace u" for v
      using that other [OF _ Some, of v] g' by (cases "userStates g v") (auto simp: devices_of_def put_ustate_def)
    then show ?thesis
      using Some us as g' by (auto simp: registered_def devices_of_def put_ustate_def)
  qed
  then show "set as = registered g (TrimSpace u)" "sessions g' = sessions g"
    "userStates g' = (userStates g)(TrimSpace u := None)" "\<And>v. v \<noteq> TrimSpace u \<Longrightarrow> registered g' v = registered g v"
    by blast+
qed

lemma invalidated:
  assumes ok: "registry_ok g" and u: "TrimSpace u \<noteq> ''''" and g': "g' = InvalidateUserSessions u g"
  shows "(\<forall>a\<in>registered g (TrimSpace u). IsRevoked (Some a) g' \<and> \<not> IsAuthenticated (Some a) g' \<and> Revoked_closed (Some a) g')
    \<and> (\<forall>a. a \<notin> registered g (TrimSpace u) \<longrightarrow> sessions g' a = sessions g a)
    \<and> userStates g' (TrimSpace u) = None
    \<and> (\<forall>v. v \<noteq> TrimSpace u \<longrightarrow> registered g' v = registered g v)"
proof -
  obtain as g1 where d: "detachUserSessions u g = (as, g1)" by (meson surj_pair)
  have st: "states_ok g" using ok by (simp add: registry_ok_def)
  note e = detach_effect [OF u st d]
  have g2: "g' = revoke_all as g1" using g' d by (simp add: InvalidateUserSessions_def)
  have ok1: "registry_ok g1" using ok_detach [OF ok, of u] d by simp
  have ok2: "sessions_ok g'" using ok_revoke_all [OF ok1] g2 by (simp add: registry_ok_def)
  have "IsRevoked (Some a) g' \<and> \<not> IsAuthenticated (Some a) g' \<and> Revoked_closed (Some a) g'" if a: "a \<in> registered g (TrimSpace u)" for a
  proof (cases "sessions g' a")
    case None
    then show ?thesis by (simp add: IsRevoked_def IsAuthenticated_def Revoked_closed_def)
  next
    case (Some s)
    then have "s_revoked s"
      using a e(1) by (auto simp: g2 sessions_revoke_all)
    moreover have "session_ok g' s" using ok2 Some unfolding sessions_ok_def by blast
    ultimately show ?thesis using Some by (simp add: IsRevoked_def IsAuthenticated_def Revoked_closed_def session_ok_def)
  qed
  moreover have "registered g' v = registered g1 v" for v by (simp add: g2 registered_def devices_of_def split: option.split)
  ultimately show ?thesis using e by (auto simp: g2 sessions_revoke_all)
qed

text \<open>
  C26. \<open>InvalidateUserSessions\<close> revokes exactly the sessions registered for the user:
  each of them ends up revoked, unauthenticated and with its channel closed; every other
  session is unchanged; the user has no registered session any more and the registrations of
  all other users are as before.
\<close>

theorem InvalidateUserSessions_effect:
  assumes ok: "registry_ok g" and u: "TrimSpace u \<noteq> ''''" and g': "g' = InvalidateUserSessions u g"
  shows "(\<forall>a\<in>registered g (TrimSpace u). IsRevoked (Some a) g' \<and> \<not> IsAuthenticated (Some a) g' \<and> Revoked_closed (Some a) g')
    \<and> (\<forall>a. a \<notin> registered g (TrimSpace u) \<longrightarrow> sessions g' a = sessions g a)
    \<and> userStates g' (TrimSpace u) = None
    \<and> (\<forall>v. v \<noteq> TrimSpace u \<longrightarrow> registered g' v = registered g v)"
  using invalidated [OF assms] .

theorem InvalidateUserSessions_effect_witness:
  "let g = auth_register 0 0 ''phone'' (snd (auth_state quiet_outside (new_backend\<lparr>b_tables := alice_db\<rparr>) ''u1''
        (auth_fields 0 ''u1'' ''phone'' ''Pixel'' (snd (NewDeviceSession None empty_registry)))))
   in registered g ''u1'' = {0} \<and> IsAuthenticated (Some 0) g \<and> IsRevoked (Some 0) (InvalidateUserSessions ''u1'' g)"
proof -
  let ?h = "auth_fields 0 ''u1'' ''phone'' ''Pixel'' (snd (NewDeviceSession None empty_registry))"
  let ?g = "auth_register 0 0 ''phone'' (snd (auth_state quiet_outside (new_backend\<lparr>b_tables := alice_db\<rparr>) ''u1'' ?h))"
  have fields: "sessions ?h 0 \<noteq> None" "userStates ?h = (\<lambda>_. None)" "next_ustate ?h = 0" "IsAuthenticated (Some 0) ?h"
    by (simp_all add: auth_fields_def NewDeviceSession_def make_chan_def put_session_def empty_registry_def IsAuthenticated_def)
  have st: "auth_state quiet_outside (new_backend\<lparr>b_tables := alice_db\<rparr>) ''u1'' ?h =
      (Some 0, (put_ustate 0 \<lparr>us_userID = ''u1'', us_devices = []\<rparr> ?h)
         \<lparr>userStates := (userStates ?h)(''u1'' := Some 0), next_ustate := 1\<rparr>)"
    using fields by (simp add: auth_state_def new_backend_def DefaultDB_def GetUserByID_live alice_db_def Let_def)
  have ok: "registry_ok ?g"
    by (intro ok_register ok_state ok_fields ok_new ok_empty) (use fields in \<open>simp_all add: st put_ustate_def\<close>)
  have r: "registered ?g ''u1'' = {0}" "IsAuthenticated (Some 0) ?g"
    using fields by (simp_all add: st auth_register_def put_ustate_def registered_def devices_of_def set_device_def IsAuthenticated_def)
  have t: "TrimSpace ''u1'' = ''u1''" by (rule alice_name(5))
  show ?thesis using InvalidateUserSessions_effect [OF ok _ refl, of "''u1''"] t r by (simp add: Let_def)
qed

lemma auth_fields_session:
  assumes "sessions g a \<noteq> None" "sessions_ok g"
  shows "\<exists>s. sessions (auth_fields a u d n g) a = Some s \<and> s_userID s = u \<and> s_deviceID s = d \<and> \<not> s_revoked s"
    "x \<noteq> a \<Longrightarrow> sessions (auth_fields a u d n g) x = sessions g x"
    "userStates (auth_fields a u d n g) = userStates g" "ustates (auth_fields a u d n g) = ustates g"
  using assms by (auto simp: auth_fields_def make_chan_def put_session_def Let_def)

lemma auth_state_Some:
  assumes "auth_state w b u g = (Some p, g')" and "states_ok g"
  shows "sessions g' = sessions g" "userStates g' u = Some p" "\<exists>us. ustates g' p = Some us \<and> us_userID us = u"
    "devices_of g' u = devices_of g u"
  using assms unfolding states_ok_def
  by (auto simp: auth_state_def put_ustate_def devices_of_def Let_def split: option.splits sum.splits prod.splits)

lemma auth_register_effect:
  assumes "userStates g u = Some p" "ustates g p = Some us"
  shows "devices_of (auth_register p a d g) u = set_device d a (devices_of g u)"
    "sessions (auth_register p a d g) = sessions g" "userStates (auth_register p a d g) = userStates g"
  using assms by (simp_all add: auth_register_def put_ustate_def devices_of_def)

text \<open>The database knows the user, or the user already has a state.\<close>

definition user_known :: "outside \<Rightarrow> backend \<Rightarrow> registry \<Rightarrow> string \<Rightarrow> bool" where
  "user_known w b g u \<longleftrightarrow> userStates g u \<noteq> None
     \<or> defaultDB (b_db b) \<noteq> None \<and> (\<exists>usr. fst (GetUserByID w u (b_tables b)) = Inr usr)"

lemma auth_state_known: "user_known w b g u \<Longrightarrow> \<exists>p g'. auth_state w b u g = (Some p, g')"
  by (auto simp: user_known_def auth_state_def DefaultDB_def Let_def split: option.split prod.split sum.split)

lemma Authenticate_effect:
  assumes ok: "registry_ok g" and a: "sessions g a \<noteq> None" and u: "TrimSpace u \<noteq> ''''" and d: "TrimSpace d \<noteq> ''''"
    and known: "user_known w b g (TrimSpace u)" and g': "g' = Authenticate w b (Some a) u d n g"
  shows "registry_ok g'"
    "\<exists>s. sessions g' a = Some s \<and> s_userID s = TrimSpace u \<and> s_deviceID s = TrimSpace d \<and> \<not> s_revoked s"
    "x \<noteq> a \<Longrightarrow> sessions g' x = sessions g x" "userStates g' (TrimSpace u) \<noteq> None"
    "devices_of g' (TrimSpace u) = set_device (TrimSpace d) a (devices_of g (TrimSpace u))"
proof -
  let ?u = "TrimSpace u" and ?d = "TrimSpace d"
  let ?g1 = "auth_fields a ?u ?d (TrimSpace n) g"
  have so: "sessions_ok g" and st: "states_ok g" using ok by (auto simp: registry_ok_def)
  note f = auth_fields_session [OF a so, where u = ?u and d = ?d and n = "TrimSpace n"]
  have ok1: "registry_ok ?g1" by (rule ok_fields [OF ok])
  have st1: "states_ok ?g1" using ok1 by (simp add: registry_ok_def)
  have "user_known w b ?g1 ?u" using known f(3) by (simp add: user_known_def)
  then obtain p g2 where s2: "auth_state w b ?u ?g1 = (Some p, g2)" using auth_state_known by blast
  note e = auth_state_Some [OF s2 st1]
  obtain us where us: "ustates g2 p = Some us" using e(3) by blast
  note r = auth_register_effect [OF e(2) us, of a ?d]
  have eq: "g' = auth_register p a ?d g2" using g' u d s2 by (simp add: Authenticate_def Let_def)
  have ok2: "registry_ok g2" using ok_state [OF ok1 u, of w b] s2 by simp
  have a2: "sessions g2 a \<noteq> None" using f(1) e(1) by auto
  show "registry_ok g'" unfolding eq by (rule ok_register [OF ok2 a2])
  show "\<exists>s. sessions g' a = Some s \<and> s_userID s = ?u \<and> s_deviceID s = ?d \<and> \<not> s_revoked s"
    using f(1) r(2) e(1) eq by simp
  show "x \<noteq> a \<Longrightarrow> sessions g' x = sessions g x" using f(2) r(2) e(1) eq by simp
  show "userStates g' ?u \<noteq> None" "devices_of g' ?u = set_device ?d a (devices_of g ?u)"
    using r(1,3) e(2,4) devices_of_cong [OF f(3,4), of ?u] eq by simp_all
qed

text \<open>
  \<open>Authenticate\<close> logs a session in and files it where invalidation finds it: for a
  user the database knows, the session is afterwards authenticated as that user, not revoked
  (even if it had been revoked before) and registered, and \<open>InvalidateUserSessions\<close> for
  that user logs it out again. No other session changes.
\<close>

theorem Authenticate_then_Invalidate:
  assumes ok: "registry_ok g" and a: "sessions g a \<noteq> None" and u: "TrimSpace u \<noteq> ''''" and d: "TrimSpace d \<noteq> ''''"
    and known: "user_known w b g (TrimSpace u)" and g': "g' = Authenticate w b (Some a) u d n g"
  shows "IsAuthenticated (Some a) g' \<and> session_UserID (Some a) g' = TrimSpace u \<and> \<not> IsRevoked (Some a) g'
    \<and> \<not> Revoked_closed (Some a) g' \<and> (\<forall>x. x \<noteq> a \<longrightarrow> sessions g' x = sessions g x)
    \<and> \<not> IsAuthenticated (Some a) (InvalidateUserSessions u g') \<and> IsRevoked (Some a) (InvalidateUserSessions u g')"
proof -
  note e = Authenticate_effect [OF assms]
  obtain s where s: "sessions g' a = Some s" "s_userID s = TrimSpace u" "s_deviceID s = TrimSpace d" "\<not> s_revoked s"
    using e(2) by blast
  have "session_ok g' s" using e(1) s(1) unfolding registry_ok_def sessions_ok_def by blast
  moreover obtain as g1 where det: "detachUserSessions u g' = (as, g1)" by (meson surj_pair)
  moreover have "a \<in> set as" "sessions g1 = sessions g'"
    using detach_effect [OF u _ det] e(1,5) by (auto simp: registry_ok_def registered_def set_device_def)
  ultimately show ?thesis using s u d e(3)
    by (auto simp: IsAuthenticated_def session_UserID_def IsRevoked_def Revoked_closed_def session_ok_def
        InvalidateUserSessions_def sessions_revoke_all revoked_session_def)
qed

text \<open>A registry with two fresh sessions, for the examples.\<close>

definition two_sessions :: registry where
  "two_sessions = snd (NewDeviceSession (Some 2) (snd (NewDeviceSession (Some 1) empty_registry)))"

lemma two_sessions_ok: "registry_ok two_sessions" "sessions two_sessions 0 \<noteq> None" "sessions two_sessions 1 \<noteq> None"
  "registered two_sessions u = {}"
proof -
  show "registry_ok two_sessions" unfolding two_sessions_def by (intro ok_new ok_empty)
qed (simp_all add: two_sessions_def NewDeviceSession_def make_chan_def put_session_def empty_registry_def registered_def devices_of_def)

definition alice_backend :: backend where
  "alice_backend = new_backend\<lparr>b_tables := alice_db\<rparr>"

lemma alice_known: "user_known quiet_outside alice_backend g ''u1''"
  by (simp add: user_known_def alice_backend_def new_backend_def GetUserByID_live alice_db_def)

theorem Authenticate_then_Invalidate_witness:
  "let g' = Authenticate quiet_outside alice_backend (Some 0) ''u1'' ''phone'' ''Pixel'' two_sessions
   in IsAuthenticated (Some 0) g' \<and> IsRevoked (Some 0) (InvalidateUserSessions ''u1'' g')"
  using Authenticate_then_Invalidate [OF two_sessions_ok(1,2) _ _ _ refl, of "''u1''" "''phone''"]
    alice_known [of two_sessions] alice_name(5,6)
  by (simp add: Let_def)

section \<open>Sessions that invalidation misses\<close>

text \<open>
  C34. One device logged in over two connections: the second login takes over the
  registration of the device, and the session of the first connection stays authenticated but
  is no longer registered, so \<open>InvalidateUserSessions\<close> revokes the second session and
  leaves the first one logged in.
\<close>

theorem second_login_orphans_first:
  assumes ok: "registry_ok g" and a: "sessions g a1 \<noteq> None" "sessions g a2 \<noteq> None" "a1 \<noteq> a2"
    and new: "a1 \<notin> registered g (TrimSpace u)" and u: "TrimSpace u \<noteq> ''''" and d: "TrimSpace d \<noteq> ''''"
    and known: "user_known w b g (TrimSpace u)"
    and g1: "g1 = Authenticate w b (Some a1) u d n g" and g2: "g2 = Authenticate w b (Some a2) u d n g1"
    and g3: "g3 = InvalidateUserSessions u g2"
  shows "IsAuthenticated (Some a1) g3 \<and> session_UserID (Some a1) g3 = TrimSpace u \<and> \<not> IsAuthenticated (Some a2) g3"
proof -
  note e1 = Authenticate_effect [OF ok a(1) u d known g1]
  have known1: "user_known w b g1 (TrimSpace u)" using e1(4) by (simp add: user_known_def)
  have a2: "sessions g1 a2 \<noteq> None" using e1(3) [of a2] a by simp
  note e2 = Authenticate_effect [OF e1(1) a2 u d known1 g2]
  have st2: "states_ok g2" using e2(1) by (simp add: registry_ok_def)
  obtain as g' where det: "detachUserSessions u g2 = (as, g')" by (meson surj_pair)
  note dt = detach_effect [OF u st2 det]
  have reg: "registered g2 (TrimSpace u) \<subseteq> insert a2 (registered g (TrimSpace u))" "a2 \<in> registered g2 (TrimSpace u)"
    using e1(5) e2(5) by (auto simp: registered_def set_device_def)
  obtain s where s: "sessions g1 a1 = Some s" "s_userID s = TrimSpace u" "s_deviceID s = TrimSpace d"
    using e1(2) by blast
  have "a1 \<notin> set as" "a2 \<in> set as" using dt(1) reg new a(3) by auto
  moreover have "sessions g' a1 = Some s" using dt(2) e2(3) [of a1] a(3) s(1) by simp
  moreover obtain s2 where "sessions g' a2 = Some s2" "s_revoked (revoked_session s2)" "\<not> s_revoked s2"
    using dt(2) e2(2) by auto
  ultimately show ?thesis using s(2,3) u d det g3
    by (auto simp: InvalidateUserSessions_def sessions_revoke_all IsAuthenticated_def session_UserID_def revoked_session_def)
qed

theorem second_login_orphans_first_witness:
  "let g1 = Authenticate quiet_outside alice_backend (Some 0) ''u1'' ''phone'' ''Pixel'' two_sessions;
       g2 = Authenticate quiet_outside alice_backend (Some 1) ''u1'' ''phone'' ''Pixel'' g1
   in IsAuthenticated (Some 0) (InvalidateUserSessions ''u1'' g2)"
  using second_login_orphans_first [OF two_sessions_ok(1,2,3) _ _ _ _ _ refl refl refl, of "''u1''" "''phone''" quiet_outside alice_backend "''Pixel''"]
    alice_known [of two_sessions] alice_name(5,6) two_sessions_ok(4)
  by (simp add: Let_def)

text \<open>
  What the other goroutines can do to the registry while one session is left alone: every
  locked section except those of an \<open>Authenticate\<close> of this session. The first component holds
  the sessions that \<open>detachUserSessions\<close> has handed out; only those are ever revoked.
\<close>

inductive others_step :: "nat \<Rightarrow> nat set \<times> registry \<Rightarrow> nat set \<times> registry \<Rightarrow> bool" for a where
  os_new: "others_step a (A, g) (A, snd (NewDeviceSession conn g))"
| os_fields: "b \<noteq> a \<Longrightarrow> others_step a (A, g) (A, auth_fields b u d n g)"
| os_state: "others_step a (A, g) (A, snd (auth_state w st u g))"
| os_register: "b \<noteq> a \<Longrightarrow> others_step a (A, g) (A, auth_register p b d g)"
| os_detach: "others_step a (A, g) (A \<union> set (fst (detachUserSessions u g)), snd (detachUserSessions u g))"
| os_revoke: "b \<in> A \<Longrightarrow> others_step a (A, g) (A, Revoke (Some b) g)"
| os_close_conn: "others_step a (A, g) (A, g\<lparr>closed_conns := cs\<rparr>)"

definition orphaned :: "nat \<Rightarrow> DeviceSession \<Rightarrow> nat set \<times> registry \<Rightarrow> bool" where
  "orphaned a s t \<longleftrightarrow> sessions (snd t) a = Some s \<and> a < next_session (snd t) \<and> a \<notin> fst t \<and> (\<forall>v. a \<notin> registered (snd t) v)"

lemma mem_registered:
  "a \<in> registered g v \<longleftrightarrow> (\<exists>p st d. userStates g v = Some p \<and> ustates g p = Some st \<and> (d, a) \<in> set (us_devices st))"
  by (force simp: registered_def devices_of_def split: option.splits)

lemma registered_subset:
  "registered (auth_register p b d g) v \<subseteq> insert b (registered g v)" "registered (snd (auth_state w st u g)) v \<subseteq> registered g v"
  "registered (snd (detachUserSessions u g)) v \<subseteq> registered g v" "set (fst (detachUserSessions u g)) \<subseteq> registered g (TrimSpace u)"
proof -
  show "registered (auth_register p b d g) v \<subseteq> insert b (registered g v)"
    by (auto simp: mem_registered auth_register_def set_device_def put_ustate_def split: option.splits if_splits)
  show "registered (snd (auth_state w st u g)) v \<subseteq> registered g v"
    by (fastforce simp: mem_registered auth_state_def put_ustate_def Let_def split: option.splits sum.splits prod.splits if_splits)
  show "registered (snd (detachUserSessions u g)) v \<subseteq> registered g v" "set (fst (detachUserSessions u g)) \<subseteq> registered g (TrimSpace u)"
    by (fastforce simp: mem_registered detachUserSessions_def put_ustate_def Let_def split: option.splits if_splits)+
qed

lemma registered_same:
  "registered (snd (NewDeviceSession conn g)) = registered g" "registered (auth_fields b u d n g) = registered g"
  "registered (Revoke sp g) = registered g" "registered (g\<lparr>closed_conns := cs\<rparr>) = registered g"
  by (auto simp: registered_def devices_of_def NewDeviceSession_def make_chan_def put_session_def auth_fields_def Revoke_def close_chan_def
      Let_def fun_eq_iff split: option.splits)

lemma session_kept:
  "a < next_session g \<Longrightarrow> sessions (snd (NewDeviceSession conn g)) a = sessions g a" "b \<noteq> a \<Longrightarrow> sessions (auth_fields b u d n g) a = sessions g a"
  "sessions (snd (auth_state w st u g)) = sessions g" "sessions (auth_register p b d g) = sessions g" "sessions (snd (detachUserSessions u g)) = sessions g"
  "b \<noteq> a \<Longrightarrow> sessions (Revoke (Some b) g) a = sessions g a"
  by (auto simp: NewDeviceSession_def make_chan_def put_session_def auth_fields_def auth_state_def put_ustate_def auth_register_def
      detachUserSessions_def Revoke_def close_chan_def Let_def split: option.splits sum.splits prod.splits)

lemma invalidate_misses: "a \<notin> registered g (TrimSpace u) \<Longrightarrow> sessions (InvalidateUserSessions u g) a = sessions g a"
  using registered_subset(4) [of u g] by (auto simp: InvalidateUserSessions_def case_prod_beta sessions_revoke_all session_kept)

lemma next_session_grows:
  "next_session g \<le> next_session (snd (NewDeviceSession conn g))" "next_session (auth_fields b u d n g) = next_session g"
  "next_session (snd (auth_state w st u g)) = next_session g" "next_session (auth_register p b d g) = next_session g"
  "next_session (snd (detachUserSessions u g)) = next_session g" "next_session (Revoke sp g) = next_session g"
  by (auto simp: NewDeviceSession_def make_chan_def put_session_def auth_fields_def auth_state_def put_ustate_def auth_register_def
      detachUserSessions_def Revoke_def close_chan_def Let_def split: option.splits sum.splits prod.splits)

interpretation orphan: step_invariant "others_step a" "orphaned a s" for a s
proof
  fix t t'
  assume "others_step a t t'" "orphaned a s t"
  then show "orphaned a s t'"
  proof cases
    case (os_detach A g u)
    then show ?thesis using \<open>orphaned a s t\<close> registered_subset(3,4) [of u g] by (auto simp: orphaned_def session_kept next_session_grows)
  next
    case (os_new A g conn)
    then show ?thesis using \<open>orphaned a s t\<close> next_session_grows(1) [of g conn] by (auto simp: orphaned_def registered_same session_kept)
  next
    case (os_revoke b A g)
    then have "b \<noteq> a" using \<open>orphaned a s t\<close> by (auto simp: orphaned_def)
    then show ?thesis using \<open>orphaned a s t\<close> os_revoke by (auto simp: orphaned_def registered_same session_kept next_session_grows)
  qed (use \<open>orphaned a s t\<close> registered_subset(1,2) in \<open>(fastforce simp: orphaned_def registered_same session_kept next_session_grows)+\<close>)
qed



end
