(* ===== verification/Transport.thy ===== *)
theory Transport
  imports Go_Codecs Errors Usernames
begin

text \<open>
  \<open>src/server/transport\<close>: framing on a QUIC stream (\<open>stream.go\<close>), and the
  connection and listener wrappers that hand streams out (\<open>connection.go\<close>,
  \<open>listener.go\<close>).

  The QUIC library is outside the repository. Its stream operations are arguments of the
  definitions: a \<open>writer\<close> takes the stream state and a buffer and gives the number
  of bytes written, an error and the new state; a \<open>reader\<close> takes the state and the
  size of the buffer and gives the bytes read, an error and the new state. The locales
  \<open>io_writer\<close> and \<open>io_reader\<close> state the documented contracts of
  \<open>io.Writer\<close> and \<open>io.Reader\<close>. They are interpreted on \<open>qwrite\<close> and
  \<open>qread\<close>, a stream whose chunking and failures are given by scripts and which the
  rest of the development uses as its stream.

  A read loop ends only if the reader makes progress, so \<open>read_full\<close> and the copy
  loops have results of type \<open>option\<close>: \<open>None\<close> is \<open>never returns\<close>.
\<close>

section \<open>Frames\<close>

type_synonym FrameType = byte

definition FrameTypeInvalid :: FrameType where "FrameTypeInvalid = 0"
definition FrameTypePing :: FrameType where "FrameTypePing = 1"
definition FrameTypePong :: FrameType where "FrameTypePong = 2"
definition FrameTypeOpen :: FrameType where "FrameTypeOpen = 3"
definition FrameTypeClose :: FrameType where "FrameTypeClose = 4"
definition FrameTypeData :: FrameType where "FrameTypeData = 5"

definition frameHeaderSize :: nat where "frameHeaderSize = 5"
definition DefaultChunkSize :: nat where "DefaultChunkSize = 64 * 1024"

record Frame =
  FrameType :: FrameType
  Length :: uint32
  Payload :: "byte list"

type_synonym 's writer = "'s \<Rightarrow> byte list \<Rightarrow> (nat \<times> goerror option) \<times> 's"
type_synonym 's reader = "'s \<Rightarrow> nat \<Rightarrow> (byte list \<times> goerror option) \<times> 's"

record 's QuicStream =
  qs_stream :: "'s option"
  qs_connID :: string
  qs_id :: string

definition stream_ID :: "'s QuicStream option \<Rightarrow> string" where
  "stream_ID s = (case s of None \<Rightarrow> '''' | Some q \<Rightarrow> qs_id q)"

definition stream_ConnectionID :: "'s QuicStream option \<Rightarrow> string" where
  "stream_ConnectionID s = (case s of None \<Rightarrow> '''' | Some q \<Rightarrow> qs_connID q)"

section \<open>Writing frames\<close>

text \<open>The loop over the payload; the argument is the part not yet written.\<close>

function write_loop :: "'s writer \<Rightarrow> byte list \<Rightarrow> 's \<Rightarrow> goerror option \<times> 's" where
  "write_loop wr p st =
     (if p = [] then (None, st)
      else case wr st p of ((n, e), st') \<Rightarrow>
        (case e of
           Some err \<Rightarrow> (Some err, st')
         | None \<Rightarrow> if n = 0 then (Some io_ErrShortWrite, st')
                   else write_loop wr (drop n p) st'))"
  by pat_completeness auto
termination
  by (relation "measure (\<lambda>(wr, p, st). length p)") auto

declare write_loop.simps [simp del]

definition frame_header :: "Frame \<Rightarrow> byte list" where
  "frame_header frame = FrameType frame # PutUint32 (word_of_nat (length (Payload frame)))"

definition write_frame :: "'s writer \<Rightarrow> Frame \<Rightarrow> 's \<Rightarrow> goerror option \<times> 's" where
  "write_frame wr frame st =
     (if length (Payload frame) > 2 ^ 32 - 1 then (Some ErrFrameTooLarge, st)
      else case wr st (frame_header frame) of
        ((_, Some err), st') \<Rightarrow> (Some err, st')
      | ((_, None), st') \<Rightarrow>
          if Payload frame = [] then (None, st') else write_loop wr (Payload frame) st')"

definition WriteFrame ::
    "'s writer \<Rightarrow> 's QuicStream option \<Rightarrow> Frame \<Rightarrow> goerror option \<times> 's QuicStream option" where
  "WriteFrame wr s frame =
     (case s of None \<Rightarrow> (Some ErrNilQuicStream, s)
      | Some q \<Rightarrow>
        (case qs_stream q of None \<Rightarrow> (Some ErrNilQuicStream, s)
         | Some st \<Rightarrow>
           (case write_frame wr frame st of (e, st') \<Rightarrow> (e, Some (q\<lparr>qs_stream := Some st'\<rparr>)))))"

section \<open>Reading frames\<close>

text \<open>\<open>io.ReadFull\<close>: \<open>need\<close> bytes are still missing, \<open>acc\<close> have been read.\<close>

partial_function (option) read_full ::
    "'s reader \<Rightarrow> nat \<Rightarrow> byte list \<Rightarrow> 's \<Rightarrow> (byte list result \<times> 's) option" where
  "read_full rd need acc st =
     (if need = 0 then Some (Inr acc, st)
      else case rd st need of ((bs, e), st') \<Rightarrow>
        if need \<le> length bs then Some (Inr (acc @ bs), st')
        else case e of
          None \<Rightarrow> read_full rd (need - length bs) (acc @ bs) st'
        | Some err \<Rightarrow>
            Some (Inl (if err = io_EOF \<and> acc @ bs \<noteq> [] then io_ErrUnexpectedEOF else err), st'))"

definition parse_length :: "byte list \<Rightarrow> uint32" where
  "parse_length hdr = Uint32 (hdr ! 1) (hdr ! 2) (hdr ! 3) (hdr ! 4)"

definition read_frame :: "'s reader \<Rightarrow> 's \<Rightarrow> (Frame result \<times> 's) option" where
  "read_frame rd st =
     (case read_full rd frameHeaderSize [] st of
        None \<Rightarrow> None
      | Some (Inl err, st1) \<Rightarrow> Some (Inl err, st1)
      | Some (Inr header, st1) \<Rightarrow>
          let l = parse_length header in
          if 0 < l then
            (case read_full rd (unat l) [] st1 of
               None \<Rightarrow> None
             | Some (Inl err, st2) \<Rightarrow> Some (Inl err, st2)
             | Some (Inr payload, st2) \<Rightarrow>
                 Some (Inr \<lparr>FrameType = header ! 0, Length = l, Payload = payload\<rparr>, st2))
          else Some (Inr \<lparr>FrameType = header ! 0, Length = l, Payload = []\<rparr>, st1))"

definition ReadFrame ::
    "'s reader \<Rightarrow> 's QuicStream option \<Rightarrow> (Frame result \<times> 's QuicStream option) option" where
  "ReadFrame rd s =
     (case s of None \<Rightarrow> Some (Inl ErrNilQuicStream, s)
      | Some q \<Rightarrow>
        (case qs_stream q of None \<Rightarrow> Some (Inl ErrNilQuicStream, s)
         | Some st \<Rightarrow>
           map_option (\<lambda>(r, st'). (r, Some (q\<lparr>qs_stream := Some st'\<rparr>))) (read_frame rd st)))"

section \<open>Copying\<close>

text \<open>
  The inner loop of \<open>WriteFrom\<close> writes one chunk and counts into the signed 64-bit
  total (wrap-around as for any \<open>int64\<close>).
\<close>

function write_chunk ::
    "'s writer \<Rightarrow> byte list \<Rightarrow> uint64 \<Rightarrow> 's \<Rightarrow> (goerror option \<times> uint64) \<times> 's" where
  "write_chunk wr p tot st =
     (if p = [] then ((None, tot), st)
      else case wr st p of ((m, e), st') \<Rightarrow>
        (let tot' = tot + word_of_nat m in
         case e of
           Some err \<Rightarrow> ((Some err, tot'), st')
         | None \<Rightarrow> if m = 0 then ((Some io_ErrShortWrite, tot'), st')
                   else write_chunk wr (drop m p) tot' st'))"
  by pat_completeness auto
termination
  by (relation "measure (\<lambda>(wr, p, tot, st). length p)") auto

declare write_chunk.simps [simp del]

partial_function (option) write_from_loop ::
    "'r reader \<Rightarrow> 's writer \<Rightarrow> nat \<Rightarrow> uint64 \<Rightarrow> 'r \<Rightarrow> 's
     \<Rightarrow> ((uint64 \<times> goerror option) \<times> 'r \<times> 's) option" where
  "write_from_loop rd wr chunk tot src st =
     (case rd src chunk of ((bs, rErr), src') \<Rightarrow>
       (case (if bs \<noteq> [] then write_chunk wr bs tot st else ((None, tot), st)) of
          ((Some wErr, tot'), st') \<Rightarrow> Some ((tot', Some wErr), src', st')
        | ((None, tot'), st') \<Rightarrow>
            (case rErr of
               None \<Rightarrow> write_from_loop rd wr chunk tot' src' st'
             | Some e \<Rightarrow>
                 if errors_is e io_EOF then Some ((tot', None), src', st')
                 else Some ((tot', Some e), src', st'))))"

definition WriteFrom ::
    "'r reader \<Rightarrow> 's writer \<Rightarrow> 's QuicStream option \<Rightarrow> 'r option \<Rightarrow> int
     \<Rightarrow> ((uint64 \<times> goerror option) \<times> 'r option \<times> 's QuicStream option) option" where
  "WriteFrom rd wr s rdr chunkSize =
     (case s of None \<Rightarrow> Some ((0, Some ErrNilQuicStream), rdr, s)
      | Some q \<Rightarrow>
        (case qs_stream q of None \<Rightarrow> Some ((0, Some ErrNilQuicStream), rdr, s)
         | Some st \<Rightarrow>
           (case rdr of None \<Rightarrow> Some ((0, Some ErrNilReader), rdr, s)
            | Some src \<Rightarrow>
              map_option (\<lambda>(res, src', st'). (res, Some src', Some (q\<lparr>qs_stream := Some st'\<rparr>)))
                (write_from_loop rd wr (if chunkSize \<le> 0 then DefaultChunkSize else nat chunkSize)
                   0 src st))))"

text \<open>
  \<open>ReadTo\<close> is \<open>io.CopyBuffer\<close> with a buffer of \<open>DefaultChunkSize\<close> bytes, for a
  destination without a \<open>ReadFrom\<close> method.
\<close>

partial_function (option) copy_loop ::
    "'s reader \<Rightarrow> 'w writer \<Rightarrow> nat \<Rightarrow> uint64 \<Rightarrow> 's \<Rightarrow> 'w
     \<Rightarrow> ((uint64 \<times> goerror option) \<times> 's \<times> 'w) option" where
  "copy_loop rd wr bufsz written st dst =
     (case rd st bufsz of ((bs, er), st') \<Rightarrow>
       (case (if bs \<noteq> [] then wr dst bs else ((0, None), dst)) of ((nw, ew), dst') \<Rightarrow>
         (let bad = length bs < nw; nw' = (if bad then 0 else nw);
              ew' = (if bad \<and> ew = None then Some (ErrorText ''invalid write result'') else ew);
              written' = written + word_of_nat nw'
          in if bs \<noteq> [] \<and> ew' \<noteq> None then Some ((written', ew'), st', dst')
             else if bs \<noteq> [] \<and> nw' \<noteq> length bs then Some ((written', Some io_ErrShortWrite), st', dst')
             else case er of
               None \<Rightarrow> copy_loop rd wr bufsz written' st' dst'
             | Some e \<Rightarrow> Some ((written', if e = io_EOF then None else Some e), st', dst'))))"

definition ReadTo ::
    "'s reader \<Rightarrow> 'w writer \<Rightarrow> 's QuicStream option \<Rightarrow> 'w option
     \<Rightarrow> ((uint64 \<times> goerror option) \<times> 's QuicStream option \<times> 'w option) option" where
  "ReadTo rd wr s dst =
     (case s of None \<Rightarrow> Some ((0, Some ErrNilQuicStream), s, dst)
      | Some q \<Rightarrow>
        (case qs_stream q of None \<Rightarrow> Some ((0, Some ErrNilQuicStream), s, dst)
         | Some st \<Rightarrow>
           (case dst of None \<Rightarrow> Some ((0, Some ErrNilWriter), s, dst)
            | Some d \<Rightarrow>
              map_option (\<lambda>(res, st', d'). (res, Some (q\<lparr>qs_stream := Some st'\<rparr>), Some d'))
                (copy_loop rd wr DefaultChunkSize 0 st d))))"

section \<open>Connections and the listener\<close>

text \<open>
  The results of the QUIC library (a new stream, a new connection, or an error) and of
  \<open>utils.NewUID\<close> are arguments.
\<close>

record 'c QuicConnection =
  qc_conn :: 'c
  qc_id :: string

definition AcceptStream :: "'s result \<Rightarrow> string \<Rightarrow> 'c QuicConnection \<Rightarrow> 's QuicStream result" where
  "AcceptStream accepted uid c =
     (case accepted of Inl err \<Rightarrow> Inl err
      | Inr st \<Rightarrow> Inr \<lparr>qs_stream = Some st, qs_connID = qc_id c, qs_id = uid\<rparr>)"

definition OpenStream :: "'s result \<Rightarrow> string \<Rightarrow> 'c QuicConnection \<Rightarrow> 's QuicStream result" where
  "OpenStream opened uid c =
     (case opened of Inl err \<Rightarrow> Inl err
      | Inr st \<Rightarrow> Inr \<lparr>qs_stream = Some st, qs_connID = qc_id c, qs_id = uid\<rparr>)"

definition SetID :: "string \<Rightarrow> 'c QuicConnection \<Rightarrow> 'c QuicConnection" where
  "SetID i c = c\<lparr>qc_id := i\<rparr>"

definition Accept :: "'c result \<Rightarrow> string \<Rightarrow> 'c QuicConnection result" where
  "Accept accepted uid =
     (case accepted of Inl err \<Rightarrow> Inl err | Inr conn \<Rightarrow> Inr \<lparr>qc_conn = conn, qc_id = uid\<rparr>)"

text \<open>What a connection passes on to the QUIC library; the library's operations are arguments.\<close>

definition CloseWithError :: "('c \<Rightarrow> uint64 \<Rightarrow> string \<Rightarrow> goerror option) \<Rightarrow> 'c QuicConnection \<Rightarrow> uint64 \<Rightarrow> string \<Rightarrow> goerror option" where
  "CloseWithError quic_close c code reason = quic_close (qc_conn c) code reason"

definition LocalAddr :: "('c \<Rightarrow> string) \<Rightarrow> 'c QuicConnection \<Rightarrow> string" where
  "LocalAddr quic_local c = quic_local (qc_conn c)"

definition RemoteAddr :: "('c \<Rightarrow> string) \<Rightarrow> 'c QuicConnection \<Rightarrow> string" where
  "RemoteAddr quic_remote c = quic_remote (qc_conn c)"

section \<open>A scripted stream\<close>

text \<open>
  A QUIC stream as the server sees it: the bytes the peer sends (\<open>rx\<close>), the error
  that follows them, the bytes accepted for sending (\<open>tx\<close>), and the outcomes of the
  next \<open>Read\<close> and \<open>Write\<close> calls (the largest number of bytes the call moves, and
  its error). An exhausted script means that calls move everything they can. After
  \<open>Close\<close> of the send side no byte is accepted.
\<close>

record qstream =
  rx :: "byte list"
  rx_end :: goerror
  rscript :: "(nat \<times> goerror option) list"
  tx :: "byte list"
  wscript :: "(nat \<times> goerror option) list"
  tx_closed :: bool

definition qread :: "qstream reader" where
  "qread q n =
     (case rscript q of
        [] \<Rightarrow> if rx q = [] then (([], Some (rx_end q)), q)
              else ((take n (rx q), None), q\<lparr>rx := drop n (rx q)\<rparr>)
      | (m, e) # rs \<Rightarrow>
          ((take (min m n) (rx q), e), q\<lparr>rx := drop (min m n) (rx q), rscript := rs\<rparr>))"

definition qwrite :: "qstream writer" where
  "qwrite q p =
     (if tx_closed q then ((0, Some (ExtError ''write on closed stream'')), q)
      else case wscript q of
        [] \<Rightarrow> ((length p, None), q\<lparr>tx := tx q @ p\<rparr>)
      | (m, e) # ws \<Rightarrow>
          ((min m (length p), e), q\<lparr>tx := tx q @ take m p, wscript := ws\<rparr>))"

definition qclose :: "qstream \<Rightarrow> qstream" where
  "qclose q = q\<lparr>tx_closed := True\<rparr>"

definition stream_Close :: "qstream QuicStream \<Rightarrow> qstream QuicStream" where
  "stream_Close s = s\<lparr>qs_stream := map_option qclose (qs_stream s)\<rparr>"

section \<open>The contract of a writer\<close>

definition encode_frame :: "Frame \<Rightarrow> byte list" where
  "encode_frame f = frame_header f @ Payload f"

fun write_frames :: "'s writer \<Rightarrow> Frame list \<Rightarrow> 's \<Rightarrow> goerror option \<times> 's" where
  "write_frames wr [] st = (None, st)"
| "write_frames wr (f # fs) st =
     (case write_frame wr f st of (Some e, st') \<Rightarrow> (Some e, st') | (None, st') \<Rightarrow> write_frames wr fs st')"

text \<open>
  \<open>io.Writer\<close>: a call writes a prefix of the buffer and reports its length; a call
  that writes less than the whole buffer returns an error.
\<close>

locale io_writer =
  fixes wr :: "'s writer" and sent :: "'s \<Rightarrow> byte list" and wok :: "'s \<Rightarrow> bool"
  assumes wr_ok: "wok st \<Longrightarrow> wr st p = ((n, e), st') \<Longrightarrow> wok st'"
    and wr_sent: "wok st \<Longrightarrow> wr st p = ((n, e), st') \<Longrightarrow>
      n \<le> length p \<and> sent st' = sent st @ take n p"
    and wr_full: "wok st \<Longrightarrow> wr st p = ((n, None), st') \<Longrightarrow> n = length p"
begin

lemma write_loop_sent:
  assumes "wok st" and "write_loop wr p st = (e, st')"
  shows "wok st' \<and> (\<exists>k \<le> length p. sent st' = sent st @ take k p \<and> (e = None \<longrightarrow> k = length p))"
proof (cases "p = []")
  case True
  with assms show ?thesis by (auto simp: write_loop.simps)
next
  case False
  obtain n e1 st1 where w: "wr st p = ((n, e1), st1)" by (metis surj_pair)
  note ok1 = wr_ok [OF assms(1) w] and s1 = wr_sent [OF assms(1) w]
  show ?thesis
  proof (cases e1)
    case None
    then have n: "n = length p" using wr_full assms(1) w by blast
    with None False w assms(2) have "(e, st') = (None, st1)"
      by (simp add: write_loop.simps [of wr p st] write_loop.simps [of wr "[]" st1])
    with ok1 s1 n show ?thesis by auto
  next
    case (Some err)
    with False w assms(2) have "st' = st1 \<and> e \<noteq> None"
      by (auto simp: write_loop.simps [of wr p st])
    with ok1 s1 show ?thesis by auto
  qed
qed

lemma write_frame_sent:
  assumes "wok st" and "write_frame wr f st = (e, st')"
  shows "wok st' \<and> (\<exists>k \<le> length (encode_frame f). sent st' = sent st @ take k (encode_frame f)
    \<and> (e = None \<longrightarrow> k = length (encode_frame f) \<and> length (Payload f) < 2 ^ 32))"
proof (cases "length (Payload f) > 2 ^ 32 - 1")
  case True
  with assms have "e \<noteq> None \<and> st' = st" by (auto simp: write_frame_def)
  with assms(1) show ?thesis by (intro conjI exI [of _ 0]) auto
next
  case False
  obtain n e1 st1 where w: "wr st (frame_header f) = ((n, e1), st1)" by (metis surj_pair)
  note ok1 = wr_ok [OF assms(1) w] and s1 = wr_sent [OF assms(1) w]
  show ?thesis
  proof (cases e1)
    case (Some err)
    with False w assms(2) have "e \<noteq> None \<and> st' = st1" by (auto simp: write_frame_def)
    with ok1 s1 show ?thesis
      by (intro conjI exI [of _ n]) (auto simp: encode_frame_def)
  next
    case None
    then have n: "n = length (frame_header f)" using wr_full assms(1) w by blast
    have "write_loop wr (Payload f) st1 = (e, st')"
      using False w None assms(2) by (auto simp: write_frame_def write_loop.simps split: if_splits)
    from write_loop_sent [OF ok1 this] obtain k where k: "wok st'" "k \<le> length (Payload f)"
        "sent st' = sent st1 @ take k (Payload f)" "e = None \<longrightarrow> k = length (Payload f)" by blast
    with s1 n False show ?thesis
      by (intro conjI exI [of _ "length (frame_header f) + k"]) (auto simp: encode_frame_def)
  qed
qed

lemma write_frames_sent:
  "wok st \<Longrightarrow> write_frames wr fs st = (None, st') \<Longrightarrow>
     wok st' \<and> sent st' = sent st @ concat (map encode_frame fs)
     \<and> (\<forall>f\<in>set fs. length (Payload f) < 2 ^ 32)"
proof (induction fs arbitrary: st)
  case (Cons f fs)
  then obtain st1 where f: "write_frame wr f st = (None, st1)"
      and fs: "write_frames wr fs st1 = (None, st')"
    by (auto split: prod.splits option.splits)
  from write_frame_sent [OF Cons.prems(1) f]
  have "wok st1" "sent st1 = sent st @ encode_frame f" "length (Payload f) < 2 ^ 32" by auto
  with Cons.IH fs show ?case by auto
qed simp

end

section \<open>The contract of a reader\<close>

text \<open>
  \<open>io.Reader\<close>: a call delivers a prefix of the pending bytes, at most as many as
  the buffer holds; while bytes are pending it delivers at least one, and reports an error
  only once they are exhausted.
\<close>

locale io_reader =
  fixes rd :: "'r reader" and pending :: "'r \<Rightarrow> byte list" and rok :: "'r \<Rightarrow> bool"
  assumes rd_ok: "rok st \<Longrightarrow> rd st n = ((bs, e), st') \<Longrightarrow> rok st'"
    and rd_bytes: "rok st \<Longrightarrow> rd st n = ((bs, e), st') \<Longrightarrow>
      length bs \<le> n \<and> pending st = bs @ pending st'"
    and rd_progress: "rok st \<Longrightarrow> 0 < n \<Longrightarrow> pending st \<noteq> [] \<Longrightarrow> rd st n = ((bs, e), st') \<Longrightarrow>
      bs \<noteq> [] \<and> (e = None \<or> pending st' = [])"
begin

lemma read_full_ok:
  "rok st \<Longrightarrow> need \<le> length (pending st) \<Longrightarrow>
     \<exists>st'. read_full rd need acc st = Some (Inr (acc @ take need (pending st)), st')
       \<and> rok st' \<and> pending st' = drop need (pending st)"
proof (induction need arbitrary: acc st rule: less_induct)
  case (less need)
  show ?case
  proof (cases "need = 0")
    case True
    with less.prems show ?thesis by (subst read_full.simps) auto
  next
    case False
    obtain bs e st1 where r: "rd st need = ((bs, e), st1)" by (metis surj_pair)
    have nonempty: "pending st \<noteq> []" using False less.prems(2) by auto
    note b = rd_bytes [OF less.prems(1) r] and ok1 = rd_ok [OF less.prems(1) r]
      and prog = rd_progress [OF less.prems(1) _ nonempty r]
    show ?thesis
    proof (cases "need \<le> length bs")
      case True
      with b have "take need (pending st) = bs" "drop need (pending st) = pending st1" by auto
      with True False r ok1 show ?thesis by (subst read_full.simps) auto
    next
      case short: False
      with b less.prems(2) have "pending st1 \<noteq> []" by auto
      with prog False have e: "e = None" "bs \<noteq> []" by auto
      then have lt: "need - length bs < need" using False by (cases bs) auto
      have "need - length bs \<le> length (pending st1)" using b less.prems(2) by auto
      from less.IH [OF lt ok1 this, of "acc @ bs"] obtain st' where st':
          "read_full rd (need - length bs) (acc @ bs) st1
             = Some (Inr ((acc @ bs) @ take (need - length bs) (pending st1)), st')"
          "rok st'" "pending st' = drop (need - length bs) (pending st1)" by blast
      have "read_full rd need acc st = read_full rd (need - length bs) (acc @ bs) st1"
        using False short r e by (subst read_full.simps) auto
      with st' b short show ?thesis by auto
    qed
  qed
qed

lemma read_frame_ok:
  assumes "rok st" and p: "pending st = encode_frame f @ rest"
    and len: "length (Payload f) < 2 ^ 32"
  shows "\<exists>st'. read_frame rd st = Some (Inr (f\<lparr>Length := word_of_nat (length (Payload f))\<rparr>), st')
    \<and> rok st' \<and> pending st' = rest"
proof -
  let ?l = "word_of_nat (length (Payload f)) :: uint32"
  have hdr: "length (frame_header f) = 5" by (simp add: frame_header_def)
  then have "take 5 (pending st) = frame_header f" "5 \<le> length (pending st)"
      "drop 5 (pending st) = Payload f @ rest"
    by (simp_all add: p encode_frame_def)
  with read_full_ok [OF assms(1), of 5 "[]"] obtain st1 where st1:
      "read_full rd 5 [] st = Some (Inr (frame_header f), st1)" "rok st1"
      "pending st1 = Payload f @ rest" by auto
  have l: "parse_length (frame_header f) = ?l" and ft: "frame_header f ! 0 = FrameType f"
    using Uint32_parts [of ?l] by (simp_all add: parse_length_def frame_header_def PutUint32_def)
  have un: "unat ?l = length (Payload f)" using len by (simp add: unat_of_nat)
  show ?thesis
  proof (cases "0 < ?l")
    case False
    with un have "Payload f = []" by (simp add: word_gt_0)
    with False st1 l ft show ?thesis
      by (auto simp: read_frame_def frameHeaderSize_def Let_def)
  next
    case True
    from read_full_ok [OF st1(2), of "length (Payload f)" "[]"] st1(3)
    obtain st2 where "read_full rd (length (Payload f)) [] st1 = Some (Inr (Payload f), st2)"
        "rok st2" "pending st2 = rest" by auto
    with True st1(1) l ft un show ?thesis
      by (auto simp: read_frame_def frameHeaderSize_def Let_def)
  qed
qed

end

section \<open>Both ends of a stream\<close>

fun read_frames :: "'r reader \<Rightarrow> nat \<Rightarrow> 'r \<Rightarrow> (Frame list result \<times> 'r) option" where
  "read_frames rd 0 st = Some (Inr [], st)"
| "read_frames rd (Suc n) st =
     (case read_frame rd st of
        None \<Rightarrow> None
      | Some (Inl e, st') \<Rightarrow> Some (Inl e, st')
      | Some (Inr f, st') \<Rightarrow>
          (case read_frames rd n st' of
             None \<Rightarrow> None
           | Some (Inl e, st'') \<Rightarrow> Some (Inl e, st'')
           | Some (Inr fs, st'') \<Rightarrow> Some (Inr (f # fs), st'')))"

definition stamp :: "Frame \<Rightarrow> Frame" where
  "stamp f = f\<lparr>Length := word_of_nat (length (Payload f))\<rparr>"

locale frame_channel =
  io_writer wr sent wok + io_reader rd pending rok
  for wr :: "'s writer" and sent wok and rd :: "'r reader" and pending rok
begin

lemma read_frames_ok:
  "rok st \<Longrightarrow> pending st = concat (map encode_frame fs) @ rest \<Longrightarrow>
     \<forall>f\<in>set fs. length (Payload f) < 2 ^ 32 \<Longrightarrow>
     \<exists>st'. read_frames rd (length fs) st = Some (Inr (map stamp fs), st') \<and> rok st' \<and> pending st' = rest"
proof (induction fs arbitrary: st)
  case (Cons f fs)
  then have "pending st = encode_frame f @ (concat (map encode_frame fs) @ rest)"
    and "length (Payload f) < 2 ^ 32" by simp_all
  from read_frame_ok [OF Cons.prems(1) this] obtain st1 where st1:
      "read_frame rd st = Some (Inr (stamp f), st1)" "rok st1"
      "pending st1 = concat (map encode_frame fs) @ rest" by (auto simp: stamp_def)
  from Cons.IH [OF st1(2,3)] Cons.prems(3) st1(1) show ?case by auto
qed auto

lemma frames_transfer:
  assumes "wok st" and "sent st = []" and "write_frames wr fs st = (None, st')"
    and "rok r" and "pending r = sent st'"
  shows "\<exists>r'. read_frames rd (length fs) r = Some (Inr (map stamp fs), r') \<and> pending r' = []"
  using write_frames_sent [OF assms(1,3)] read_frames_ok [OF assms(4), of fs "[]"] assms(2,5)
  by auto

end

section \<open>The scripted stream keeps the contracts\<close>

text \<open>
  A script obeys \<open>io.Writer\<close> when every scripted short write comes with an error, and
  \<open>io.Reader\<close> (with nothing lost) when every scripted read moves at least one byte and
  reports no error.
\<close>

definition writer_ok :: "qstream \<Rightarrow> bool" where
  "writer_ok q \<longleftrightarrow> list_all (\<lambda>(m, e). e \<noteq> None) (wscript q)"

definition reader_ok :: "qstream \<Rightarrow> bool" where
  "reader_ok q \<longleftrightarrow> list_all (\<lambda>(m, e). 0 < m \<and> e = None) (rscript q)"

interpretation qchan: frame_channel qwrite tx writer_ok qread rx reader_ok
proof (unfold_locales, goal_cases)
  case (1 st p n e st')
  then show ?case by (auto simp: qwrite_def writer_ok_def split: if_splits list.splits)
next
  case (2 st p n e st')
  then show ?case by (auto simp: qwrite_def writer_ok_def min_def split: if_splits list.splits)
next
  case (3 st p n st')
  then show ?case by (auto simp: qwrite_def writer_ok_def split: if_splits list.splits)
next
  case (4 st n bs e st')
  then show ?case by (auto simp: qread_def reader_ok_def split: if_splits list.splits)
next
  case (5 st n bs e st')
  then show ?case by (auto simp: qread_def reader_ok_def split: if_splits list.splits)
next
  case (6 st n bs e st')
  then show ?case by (auto simp: qread_def reader_ok_def split: if_splits list.splits)
qed

section \<open>Reading from a scripted stream\<close>

lemma qread_Nil:
  "rscript q = [] \<Longrightarrow> qread q n =
     (if rx q = [] then (([], Some (rx_end q)), q) else ((take n (rx q), None), q\<lparr>rx := drop n (rx q)\<rparr>))"
  by (simp add: qread_def)

lemma read_full_empty:
  assumes "rscript q = []" and "rx q = []" and "0 < need"
  shows "read_full qread need acc q =
    Some (Inl (if rx_end q = io_EOF \<and> acc \<noteq> [] then io_ErrUnexpectedEOF else rx_end q), q)"
  using assms by (subst read_full.simps) (simp add: qread_Nil)

text \<open>Whatever the script does, \<open>io.ReadFull\<close> returns.\<close>

lemma read_full_returns: "\<exists>r. read_full qread need acc q = Some r"
proof (induction "length (rscript q)" arbitrary: q need acc)
  case 0
  then have nil: "rscript q = []" by simp
  show ?case
  proof (cases "need = 0 \<or> rx q = [] \<or> need \<le> length (rx q)")
    case True
    with nil show ?thesis by (subst read_full.simps) (auto simp: qread_Nil min_def)
  next
    case False
    then have "read_full qread need acc q =
        read_full qread (need - length (rx q)) (acc @ rx q) (q\<lparr>rx := []\<rparr>)"
      using nil by (subst read_full.simps) (simp add: qread_Nil)
    also have "\<exists>r. \<dots> = Some r"
      using nil False by (subst read_full_empty) simp_all
    finally show ?thesis .
  qed
next
  case (Suc k)
  then obtain m e rs where rs: "rscript q = (m, e) # rs" by (cases "rscript q") auto
  then obtain q' bs where q': "qread q need = ((bs, e), q')" "rscript q' = rs"
    by (auto simp: qread_def)
  from Suc.hyps(1) [of q'] Suc.hyps(2) rs q' have "\<exists>r. read_full qread n a q' = Some r" for n a
    by simp
  with q' show ?case by (subst read_full.simps) (auto split: option.splits)
qed

lemma read_frame_returns: "\<exists>r. read_frame qread q = Some r"
proof -
  obtain r q1 where h: "read_full qread frameHeaderSize [] q = Some (r, q1)"
    using read_full_returns by (metis surj_pair)
  show ?thesis
  proof (cases r)
    case (Inr hdr)
    obtain r2 q2 where "read_full qread (unat (parse_length hdr)) [] q1 = Some (r2, q2)"
      using read_full_returns by (metis surj_pair)
    then show ?thesis using h Inr
      by (cases r2) (simp_all add: read_frame_def Let_def)
  qed (use h in \<open>simp add: read_frame_def\<close>)
qed

text \<open>The parts of a stream that reading leaves alone.\<close>

definition send_side :: "qstream \<Rightarrow> goerror \<times> byte list \<times> (nat \<times> goerror option) list \<times> bool" where
  "send_side q = (rx_end q, tx q, wscript q, tx_closed q)"

lemma qread_send_side: "qread q n = ((bs, e), q') \<Longrightarrow> send_side q' = send_side q"
  by (auto simp: qread_def send_side_def split: list.splits if_splits)

lemma qread_rx_end: "qread q n = ((bs, e), q') \<Longrightarrow> rx_end q' = rx_end q"
  by (drule qread_send_side) (simp add: send_side_def)

lemma read_full_send_side:
  assumes "read_full qread need acc q = Some r"
  shows "send_side (snd r) = send_side q"
proof -
  have "qread = qread \<longrightarrow> send_side (snd r) = send_side q"
  proof (rule read_full.raw_induct
      [where P = "\<lambda>rd need acc q r. rd = qread \<longrightarrow> send_side (snd r) = send_side q", OF _ assms])
    fix f :: "qstream reader \<Rightarrow> nat \<Rightarrow> byte list \<Rightarrow> qstream \<Rightarrow> (byte list result \<times> qstream) option"
      and rd need acc q r
    assume IH: "\<And>rd need acc q r. f rd need acc q = Some r \<Longrightarrow> rd = qread \<longrightarrow> send_side (snd r) = send_side q"
      and eq: "(if need = 0 then Some (Inr acc, q)
        else case rd q need of ((bs, e), st') \<Rightarrow>
          if need \<le> length bs then Some (Inr (acc @ bs), st')
          else case e of None \<Rightarrow> f rd (need - length bs) (acc @ bs) st'
            | Some err \<Rightarrow> Some (Inl (if err = io_EOF \<and> acc @ bs \<noteq> [] then io_ErrUnexpectedEOF else err), st'))
        = Some r"
    obtain bs e st' where r: "rd q need = ((bs, e), st')" by (metis surj_pair)
    show "rd = qread \<longrightarrow> send_side (snd r) = send_side q"
      using eq r qread_send_side [of q need bs e st'] IH [of rd "need - length bs" "acc @ bs" st' r]
      by (auto split: if_splits option.splits)
  qed
  then show ?thesis by simp
qed

lemma read_full_rx_end: "read_full qread need acc q = Some r \<Longrightarrow> rx_end (snd r) = rx_end q"
  by (drule read_full_send_side) (simp add: send_side_def)

lemma read_frame_send_side: "read_frame qread q = Some (r, q') \<Longrightarrow> send_side q' = send_side q"
  by (auto simp: read_frame_def Let_def dest!: read_full_send_side split: option.splits sum.splits if_splits)

text \<open>A frame that was read is what the stream held.\<close>

lemma qread_bytes: "qread q n = ((bs, e), q') \<Longrightarrow> rx q = bs @ rx q' \<and> length bs \<le> n"
  by (auto simp: qread_def split: list.splits if_splits)

lemma read_full_bytes:
  assumes "read_full qread need acc q = Some (Inr bs, q')"
  shows "\<exists>got. bs = acc @ got \<and> length got = need \<and> rx q = got @ rx q'"
proof -
  let ?P = "\<lambda>need acc q (r :: byte list result \<times> qstream). \<forall>bs. fst r = Inr bs \<longrightarrow> (\<exists>got. bs = acc @ got \<and> length got = need \<and> rx q = got @ rx (snd r))"
  have "qread = qread \<longrightarrow> ?P need acc q (Inr bs, q')"
  proof (rule read_full.raw_induct [where P = "\<lambda>rd need acc q r. rd = qread \<longrightarrow> ?P need acc q r", OF _ assms], intro impI)
    fix f :: "qstream reader \<Rightarrow> nat \<Rightarrow> byte list \<Rightarrow> qstream \<Rightarrow> (byte list result \<times> qstream) option"
      and rd need acc q r
    assume IH: "\<And>rd need acc q r. f rd need acc q = Some r \<Longrightarrow> rd = qread \<longrightarrow> ?P need acc q r" and rd: "rd = qread"
      and eq: "(if need = 0 then Some (Inr acc, q)
        else case rd q need of ((bs, e), st') \<Rightarrow>
          if need \<le> length bs then Some (Inr (acc @ bs), st')
          else case e of None \<Rightarrow> f rd (need - length bs) (acc @ bs) st'
            | Some err \<Rightarrow> Some (Inl (if err = io_EOF \<and> acc @ bs \<noteq> [] then io_ErrUnexpectedEOF else err), st'))
        = Some r"
    obtain bs e st' where r: "qread q need = ((bs, e), st')" by (metis surj_pair)
    note b = qread_bytes [OF r]
    show "?P need acc q r"
    proof (cases "need = 0 \<or> need \<le> length bs \<or> e \<noteq> None")
      case True
      then show ?thesis using eq r rd b by (auto split: if_splits option.splits)
    next
      case False
      then have "f qread (need - length bs) (acc @ bs) st' = Some r" using eq r rd by simp
      then have "?P (need - length bs) (acc @ bs) st' r" using IH by blast
      then show ?thesis using b False by fastforce
    qed
  qed
  then show ?thesis by simp
qed

lemma read_frame_bytes:
  assumes "read_frame qread q = Some (Inr f, q')"
  shows "\<exists>hdr. rx q = hdr @ Payload f @ rx q' \<and> length hdr = frameHeaderSize \<and> unat (parse_length hdr) = length (Payload f)"
proof -
  obtain hdr q1 where h: "read_full qread frameHeaderSize [] q = Some (Inr hdr, q1)"
    using assms by (auto simp: read_frame_def split: option.splits sum.splits)
  have "0 < unat (parse_length hdr) \<longleftrightarrow> 0 < parse_length hdr" by (simp add: unat_gt_0 word_gt_0)
  then show ?thesis
    using assms h read_full_bytes [OF h]
    by (auto simp: read_frame_def Let_def dest!: read_full_bytes split: option.splits sum.splits if_splits)
qed

text \<open>A stream that ends early: what \<open>io.ReadFull\<close> reports.\<close>

lemma read_full_short:
  "reader_ok q \<Longrightarrow> length (rx q) < need \<Longrightarrow>
   \<exists>q'. read_full qread need acc q =
     Some (Inl (if rx_end q = io_EOF \<and> acc @ rx q \<noteq> [] then io_ErrUnexpectedEOF else rx_end q), q')"
proof (induction "length (rscript q)" arbitrary: q need acc)
  case 0
  then have nil: "rscript q = []" by simp
  show ?case
  proof (cases "rx q = []")
    case True
    with nil 0 show ?thesis by (subst read_full_empty) auto
  next
    case False
    then have "read_full qread need acc q =
        read_full qread (need - length (rx q)) (acc @ rx q) (q\<lparr>rx := []\<rparr>)"
      using nil 0 by (subst read_full.simps) (simp add: qread_Nil)
    with False nil 0 show ?thesis by (simp add: read_full_empty)
  qed
next
  case (Suc k)
  then obtain m rs where rs: "rscript q = (m, None) # rs" "0 < m" "list_all (\<lambda>(m, e). 0 < m \<and> e = None) rs"
    by (cases "rscript q") (auto simp: reader_ok_def)
  let ?bs = "take (min m need) (rx q)"
  let ?q' = "q\<lparr>rx := drop (min m need) (rx q), rscript := rs\<rparr>"
  have step: "read_full qread need acc q = read_full qread (need - length ?bs) (acc @ ?bs) ?q'"
    using rs Suc.prems(2) by (subst read_full.simps) (simp add: qread_def)
  have ok: "reader_ok ?q'" using rs by (simp add: reader_ok_def)
  have k: "k = length (rscript ?q')" using rs Suc.hyps(2) by simp
  have "length (rx q) = length ?bs + length (rx ?q')" by simp
  then have "length (rx ?q') < need - length ?bs" using Suc.prems(2) by linarith
  moreover have rxe: "rx_end ?q' = rx_end q" and app: "(acc @ ?bs) @ rx ?q' = acc @ rx q"
    by simp_all
  ultimately show ?case
    using Suc.hyps(1) [OF k ok, of "need - length ?bs" "acc @ ?bs"] unfolding step rxe app by blast
qed

section \<open>Copying to a stream\<close>

lemma write_chunk_qwrite:
  assumes "wscript q = []" and "\<not> tx_closed q"
  shows "write_chunk qwrite p t q = ((None, t + word_of_nat (length p)), q\<lparr>tx := tx q @ p\<rparr>)"
  using assms
  by (cases "p = []")
     (simp_all add: write_chunk.simps [of _ p] write_chunk.simps [of _ "[]"] qwrite_def)

lemma write_from_loop_copies:
  assumes "reader_ok src" and "rx_end src = io_EOF" and "0 < chunk"
    and "wscript q = []" and "\<not> tx_closed q"
  shows "\<exists>src'. write_from_loop qread qwrite chunk t src q =
      Some ((t + word_of_nat (length (rx src)), None), src', q\<lparr>tx := tx q @ rx src\<rparr>) \<and> rx src' = []"
  using assms(1,2,4,5)
proof (induction "length (rscript src) + length (rx src)" arbitrary: src q t rule: less_induct)
  case less
  note qw = write_chunk_qwrite [OF less.prems(3,4)]
  show ?case
  proof (cases "rscript src = [] \<and> rx src = []")
    case True
    with less.prems show ?thesis
      by (subst write_from_loop.simps) (simp add: qread_def)
  next
    case False
    obtain bs e src1 where r': "qread src chunk = ((bs, e), src1)" by (metis surj_pair)
    have "e = None" and dec: "length (rscript src1) + length (rx src1) < length (rscript src) + length (rx src)"
      using r' False assms(3) less.prems(1)
      by (auto simp: qread_def reader_ok_def split: list.splits if_splits)
    then have r: "qread src chunk = ((bs, None), src1)" using r' by simp
    note pend = qchan.rd_bytes [OF less.prems(1) r, THEN conjunct2]
    have ok: "reader_ok src1" "rx_end src1 = io_EOF"
      using qchan.rd_ok [OF less.prems(1) r] qread_rx_end [OF r] less.prems(2) by simp_all
    let ?q1 = "q\<lparr>tx := tx q @ bs\<rparr>" and ?t1 = "t + word_of_nat (length bs)"
    have "write_from_loop qread qwrite chunk t src q = write_from_loop qread qwrite chunk ?t1 src1 ?q1"
      using r by (subst write_from_loop.simps) (auto simp: qw)
    moreover from less.hyps [OF dec ok, of ?q1 ?t1] less.prems(3,4) obtain src' where
      "write_from_loop qread qwrite chunk ?t1 src1 ?q1 =
         Some ((?t1 + word_of_nat (length (rx src1)), None), src', ?q1\<lparr>tx := tx ?q1 @ rx src1\<rparr>)"
      "rx src' = []" by auto
    ultimately show ?thesis using pend by (auto simp: ac_simps)
  qed
qed

section \<open>Properties\<close>

text \<open>
  C6. Frames sent with \<open>WriteFrame\<close> over a stream that obeys \<open>io.Writer\<close> arrive
  unchanged and in order: if all of them were written without an error, reading the same
  number of frames from the delivered bytes, however the transport chunks them, returns
  exactly those frames, each with its \<open>Length\<close> field set to the payload length, and
  leaves nothing behind.
\<close>

theorem frames_roundtrip:
  assumes "writer_ok q" and "tx q = []" and "write_frames qwrite fs q = (None, q')"
    and "reader_ok r" and "rx r = tx q'"
  shows "\<exists>r'. read_frames qread (length fs) r = Some (Inr (map stamp fs), r') \<and> rx r' = []"
  using assms by (rule qchan.frames_transfer)

definition demo_stream :: "byte list \<Rightarrow> (nat \<times> goerror option) list \<Rightarrow> qstream" where
  "demo_stream bs script =
     \<lparr>rx = bs, rx_end = io_EOF, rscript = script, tx = [], wscript = [], tx_closed = False\<rparr>"

theorem frames_roundtrip_witness:
  "\<exists>r'. read_frames qread 2 (demo_stream [5, 0, 0, 0, 2, 7, 8, 1, 0, 0, 0, 0] [(1, None), (3, None)])
     = Some (Inr [\<lparr>FrameType = 5, Length = 2, Payload = [7, 8]\<rparr>,
                  \<lparr>FrameType = 1, Length = 0, Payload = []\<rparr>], r') \<and> rx r' = []"
proof -
  let ?fs = "[\<lparr>FrameType = 5, Length = 0, Payload = [7, 8]\<rparr>, \<lparr>FrameType = 1, Length = 0, Payload = []\<rparr>]"
  let ?w = "demo_stream [] []" and ?r = "demo_stream [5, 0, 0, 0, 2, 7, 8, 1, 0, 0, 0, 0] [(1, None), (3, None)]"
  have a: "writer_ok ?w" "tx ?w = []" "reader_ok ?r"
    by (simp_all add: writer_ok_def reader_ok_def demo_stream_def)
  have b: "write_frames qwrite ?fs ?w = (None, ?w\<lparr>tx := rx ?r\<rparr>)"
    by (simp add: write_frame_def write_loop.simps qwrite_def demo_stream_def frame_header_def PutUint32_def)
  have c: "rx ?r = tx (?w\<lparr>tx := rx ?r\<rparr>)" by simp
  show ?thesis
    using frames_roundtrip [OF a(1,2) b a(3) c]
    by (simp add: stamp_def numeral_2_eq_2 del: read_frames.simps)
qed

text \<open>
  \<open>WriteFrame\<close> on a stream that obeys \<open>io.Writer\<close> never puts anything but a
  prefix of the frame's encoding on the wire; it reports success exactly when the whole
  encoding was accepted, and then the payload length fits the 32-bit length field.
\<close>

theorem WriteFrame_prefix:
  assumes "writer_ok q"
    and "WriteFrame qwrite (Some \<lparr>qs_stream = Some q, qs_connID = c, qs_id = i\<rparr>) f = (e, s')"
  shows "\<exists>q' k. s' = Some \<lparr>qs_stream = Some q', qs_connID = c, qs_id = i\<rparr>
    \<and> k \<le> length (encode_frame f) \<and> tx q' = tx q @ take k (encode_frame f)
    \<and> (e = None \<longrightarrow> k = length (encode_frame f) \<and> length (Payload f) < 2 ^ 32)"
proof -
  obtain e1 q' where w: "write_frame qwrite f q = (e1, q')" by (metis surj_pair)
  with assms(2) have "e1 = e" "s' = Some \<lparr>qs_stream = Some q', qs_connID = c, qs_id = i\<rparr>"
    by (auto simp: WriteFrame_def)
  with qchan.write_frame_sent [OF assms(1) w] show ?thesis by auto
qed

theorem WriteFrame_prefix_witness:
  "\<exists>q' k. WriteFrame qwrite (Some \<lparr>qs_stream = Some ((demo_stream [] [])\<lparr>wscript := [(3, Some io_EOF)]\<rparr>),
        qs_connID = ''c'', qs_id = ''s''\<rparr>) \<lparr>FrameType = 5, Length = 0, Payload = [9]\<rparr>
      = (Some io_EOF, Some \<lparr>qs_stream = Some q', qs_connID = ''c'', qs_id = ''s''\<rparr>)
    \<and> k \<le> 6 \<and> tx q' = take k [5, 0, 0, 0, 1, 9]"
proof -
  let ?q = "(demo_stream [] [])\<lparr>wscript := [(3, Some io_EOF)]\<rparr>"
  let ?f = "\<lparr>FrameType = 5, Length = 0, Payload = [9]\<rparr>"
  have ok: "writer_ok ?q" by (simp add: writer_ok_def)
  have w: "WriteFrame qwrite (Some \<lparr>qs_stream = Some ?q, qs_connID = ''c'', qs_id = ''s''\<rparr>) ?f
      = (Some io_EOF, Some \<lparr>qs_stream = Some (?q\<lparr>tx := [5, 0, 0], wscript := []\<rparr>),
           qs_connID = ''c'', qs_id = ''s''\<rparr>)"
    by (simp add: WriteFrame_def write_frame_def qwrite_def demo_stream_def frame_header_def PutUint32_def)
  from WriteFrame_prefix [OF ok w] obtain q' k where
      "k \<le> length (encode_frame ?f)" "tx q' = tx ?q @ take k (encode_frame ?f)"
      "Some \<lparr>qs_stream = Some (?q\<lparr>tx := [5, 0, 0], wscript := []\<rparr>), qs_connID = ''c'', qs_id = ''s''\<rparr>
        = Some \<lparr>qs_stream = Some q', qs_connID = ''c'', qs_id = ''s''\<rparr>" by blast
  with w show ?thesis
    by (intro exI [of _ q'] exI [of _ k])
       (simp add: encode_frame_def frame_header_def PutUint32_def demo_stream_def)
qed

text \<open>
  \<open>ReadFrame\<close> always returns on a scripted stream, whatever the chunking, the
  errors and the announced length are: it neither loops nor waits for more than the peer's
  bytes and the end of the stream provide.
\<close>

theorem ReadFrame_returns:
  "\<exists>r s'. ReadFrame qread (Some \<lparr>qs_stream = Some q, qs_connID = c, qs_id = i\<rparr>) = Some (r, s')"
proof -
  obtain r q' where "read_frame qread q = Some (r, q')"
    using read_frame_returns by (metis surj_pair)
  then show ?thesis by (simp add: ReadFrame_def)
qed

text \<open>
  C37. A frame cut short is never accepted: if the peer's bytes are a proper prefix of a
  frame's encoding, \<open>ReadFrame\<close> fails. The error is \<open>io.ErrUnexpectedEOF\<close> unless the
  stream ended before the first byte or exactly between header and payload; in those two
  cases it is \<open>io.EOF\<close>, so a frame cut after its header looks like a clean end.
\<close>

theorem ReadFrame_truncated:
  assumes "reader_ok q" and "rx_end q = io_EOF"
    and "rx q = take k (encode_frame f)" and "k < length (encode_frame f)"
    and "length (Payload f) < 2 ^ 32"
  shows "\<exists>s'. ReadFrame qread (Some \<lparr>qs_stream = Some q, qs_connID = c, qs_id = i\<rparr>) =
    Some (Inl (if k = 0 \<or> k = 5 then io_EOF else io_ErrUnexpectedEOF), s')"
proof -
  let ?l = "word_of_nat (length (Payload f)) :: uint32"
  have hdr: "length (frame_header f) = 5" by (simp add: frame_header_def)
  have k: "length (rx q) = k" using assms(3,4) by simp
  have rxk: "rx q = [] \<longleftrightarrow> k = 0" using k by auto
  have "\<exists>q'. read_frame qread q =
      Some (Inl (if k = 0 \<or> k = 5 then io_EOF else io_ErrUnexpectedEOF), q')"
  proof (cases "k < 5")
    case True
    with read_full_short [OF assms(1), of 5 "[]"] k assms(2) rxk obtain q' where
        "read_full qread 5 [] q = Some (Inl (if k = 0 then io_EOF else io_ErrUnexpectedEOF), q')"
      by auto
    with True show ?thesis by (auto simp: read_frame_def frameHeaderSize_def)
  next
    case False
    with k have "5 \<le> length (rx q)" by simp
    from qchan.read_full_ok [OF assms(1) this, of "[]"] False hdr assms(3) obtain q1 where q1:
        "read_full qread 5 [] q = Some (Inr (frame_header f), q1)" "reader_ok q1"
        "rx q1 = take (k - 5) (Payload f)"
      by (auto simp: encode_frame_def)
    have "rx_end q1 = io_EOF"
      using read_full_rx_end [OF q1(1)] assms(2) by simp
    have l: "parse_length (frame_header f) = ?l"
      using Uint32_parts [of ?l] by (simp add: parse_length_def frame_header_def PutUint32_def)
    have un: "unat ?l = length (Payload f)" using assms(5) by (simp add: unat_of_nat)
    have pk: "k - 5 < length (Payload f)"
      using assms(4) False hdr by (simp add: encode_frame_def)
    then have pos: "0 < ?l" using un by (metis less_nat_zero_code unat_0 unat_gt_0 word_neq_0_conv)
    have "length (rx q1) < unat ?l" using q1(3) pk un by simp
    moreover have "rx q1 = [] \<longleftrightarrow> k = 5" using q1(3) pk False by auto
    ultimately obtain q2 where
        "read_full qread (unat ?l) [] q1 =
           Some (Inl (if k = 5 then io_EOF else io_ErrUnexpectedEOF), q2)"
      using read_full_short [OF q1(2), of "unat ?l" "[]"] \<open>rx_end q1 = io_EOF\<close> by auto
    with q1(1) l pos False show ?thesis
      by (auto simp: read_frame_def frameHeaderSize_def Let_def)
  qed
  then show ?thesis by (auto simp: ReadFrame_def)
qed

theorem ReadFrame_truncated_witness:
  "\<exists>s'. ReadFrame qread (Some \<lparr>qs_stream = Some (demo_stream [5, 0, 0, 0, 2, 7] [(4, None)]),
      qs_connID = ''c'', qs_id = ''s''\<rparr>) = Some (Inl io_ErrUnexpectedEOF, s')"
proof -
  let ?f = "\<lparr>FrameType = 5, Length = 0, Payload = [7, 8]\<rparr>"
  let ?q = "demo_stream [5, 0, 0, 0, 2, 7] [(4, None)]"
  have "reader_ok ?q" "rx_end ?q = io_EOF" "rx ?q = take 6 (encode_frame ?f)"
      "6 < length (encode_frame ?f)" "length (Payload ?f) < 2 ^ 32"
    by (simp_all add: reader_ok_def demo_stream_def encode_frame_def frame_header_def PutUint32_def)
  from ReadFrame_truncated [OF this, of "''c''" "''s''"] show ?thesis by simp
qed

text \<open>
  \<open>WriteFrom\<close> copies its whole source: for any chunk size (a non-positive one means
  64 KiB) and any chunking of the reads, it returns, all bytes of the source have been
  accepted by the stream in order, and the reported count is their number modulo
  \<open>2 ^ 64\<close>.
\<close>

theorem WriteFrom_copies:
  assumes "reader_ok src" and "rx_end src = io_EOF" and "wscript q = []" and "\<not> tx_closed q"
  shows "\<exists>src'. WriteFrom qread qwrite (Some \<lparr>qs_stream = Some q, qs_connID = c, qs_id = i\<rparr>)
      (Some src) chunkSize =
    Some ((word_of_nat (length (rx src)), None), Some src',
      Some \<lparr>qs_stream = Some (q\<lparr>tx := tx q @ rx src\<rparr>), qs_connID = c, qs_id = i\<rparr>) \<and> rx src' = []"
proof -
  let ?n = "if chunkSize \<le> 0 then DefaultChunkSize else nat chunkSize"
  have "0 < ?n" by (simp add: DefaultChunkSize_def)
  from write_from_loop_copies [OF assms(1,2) this assms(3,4), of 0]
  show ?thesis by (auto simp: WriteFrom_def)
qed

theorem WriteFrom_copies_witness:
  "\<exists>src'. WriteFrom qread qwrite (Some \<lparr>qs_stream = Some (demo_stream [] []), qs_connID = ''c'', qs_id = ''s''\<rparr>)
      (Some (demo_stream [1, 2, 3] [(2, None)])) 0 =
    Some ((3, None), Some src',
      Some \<lparr>qs_stream = Some ((demo_stream [] [])\<lparr>tx := [1, 2, 3]\<rparr>), qs_connID = ''c'', qs_id = ''s''\<rparr>)"
proof -
  let ?src = "demo_stream [1, 2, 3] [(2, None)]" and ?q = "demo_stream [] []"
  have "reader_ok ?src" "rx_end ?src = io_EOF" "wscript ?q = []" "\<not> tx_closed ?q"
    by (simp_all add: reader_ok_def demo_stream_def)
  from WriteFrom_copies [OF this, of "''c''" "''s''" 0] show ?thesis
    by (auto simp: demo_stream_def)
qed

end
