(* ===== verification/Context.thy ===== *)
theory Context
  imports Session Transport
begin

text \<open>
  The request contexts of \<open>src/server/router\<close> (\<open>context_base.go\<close>, \<open>context_response.go\<close>,
  \<open>context_updates_*.go\<close>, \<open>context_transfer_*.go\<close>) and the messages of
  \<open>src/server/protomsg\<close> they exchange. The protobuf runtime is not part of the repository:
  its \<open>Marshal\<close> and \<open>Unmarshal\<close> are the functions of the record \<open>codec\<close>.
\<close>

section \<open>Messages\<close>

record RequestEnvelope =
  re_Op :: string
  re_Request :: "byte list option"

record ResponseEnvelope =
  rs_StatusCode :: uint32
  rs_Message :: string
  rs_Response :: "byte list option"

record UpdateEnvelope =
  ue_Seq :: uint64
  ue_End :: bool
  ue_Update :: "byte list"

record AuthRegisterRequest =
  rr_DisplayName :: string
  rr_Username :: string
  rr_Password :: string
  rr_DeviceId :: string
  rr_DeviceName :: string

record AuthLoginByCredentialsRequest =
  lr_Username :: string
  lr_Password :: string
  lr_DeviceId :: string
  lr_DeviceName :: string

record AuthLoginByTokenRequest =
  tr_SessionToken :: string

record AuthResponse =
  ar_SessionToken :: string

record AccountDeleteRequest =
  dr_Username :: string
  dr_Password :: string

record AccountDeleteResponse =
  dr_Timestamp :: uint64

record AccountDeleteCancelRequest =
  cr_Username :: string
  cr_Password :: string

text \<open>The update and transfer messages have no fields.\<close>

datatype ClientUpdateRequest = ClientUpdateRequest
datatype ClientUpdateResponse = ClientUpdateResponse
datatype ServerUpdateRequest = ServerUpdateRequest
datatype ServerUpdateResponse = ServerUpdateResponse
datatype ClientTransferRequest = ClientTransferRequest
datatype ClientTransferResponse = ClientTransferResponse
datatype ServerTransferRequest = ServerTransferRequest
datatype ServerTransferResponse = ServerTransferResponse

record codec =
  unm_Request :: "byte list \<Rightarrow> RequestEnvelope result"
  unm_Update :: "byte list \<Rightarrow> UpdateEnvelope result"
  unm_Register :: "byte list \<Rightarrow> AuthRegisterRequest result"
  unm_LoginCredentials :: "byte list \<Rightarrow> AuthLoginByCredentialsRequest result"
  unm_LoginToken :: "byte list \<Rightarrow> AuthLoginByTokenRequest result"
  unm_Delete :: "byte list \<Rightarrow> AccountDeleteRequest result"
  unm_DeleteCancel :: "byte list \<Rightarrow> AccountDeleteCancelRequest result"
  unm_ClientUpdate :: "byte list \<Rightarrow> ClientUpdateRequest result"
  unm_ServerUpdate :: "byte list \<Rightarrow> ServerUpdateRequest result"
  unm_ClientTransfer :: "byte list \<Rightarrow> ClientTransferRequest result"
  unm_ServerTransfer :: "byte list \<Rightarrow> ServerTransferRequest result"
  mar_Response :: "ResponseEnvelope \<Rightarrow> byte list result"
  mar_Update :: "UpdateEnvelope \<Rightarrow> byte list result"
  mar_Auth :: "AuthResponse \<Rightarrow> byte list result"
  mar_Delete :: "AccountDeleteResponse \<Rightarrow> byte list result"
  mar_ServerUpdateResp :: "ServerUpdateResponse \<Rightarrow> byte list result"
  mar_ClientUpdateResp :: "ClientUpdateResponse \<Rightarrow> byte list result"
  mar_ClientTransferResp :: "ClientTransferResponse \<Rightarrow> byte list result"
  mar_ServerTransferResp :: "ServerTransferResponse \<Rightarrow> byte list result"

section \<open>The base context\<close>

text \<open>
  What a handler can reach: the account service, the session registry and the stream of its
  request. Errors of Go functions without another result are \<open>goerror option\<close>.
\<close>

record server =
  sv_backend :: backend
  sv_registry :: registry
  sv_stream :: "qstream QuicStream option"

text \<open>Values of the type \<open>any\<close> that middleware may attach to a request.\<close>

typedecl go_any

record BaseContext =
  bc_Session :: "nat option"
  bc_Bytes :: "byte list"
  bc_params :: "string \<Rightarrow> string option"
  bc_values :: "string \<Rightarrow> go_any option"
  bc_index :: int

definition newBaseContext :: BaseContext where
  "newBaseContext = \<lparr>bc_Session = None, bc_Bytes = [], bc_params = (\<lambda>_. None), bc_values = (\<lambda>_. None), bc_index = -1\<rparr>"

definition SetValue :: "string \<Rightarrow> go_any \<Rightarrow> BaseContext \<Rightarrow> BaseContext" where
  "SetValue key v c = c\<lparr>bc_values := (bc_values c)(key := Some v)\<rparr>"

definition GetValue :: "string \<Rightarrow> BaseContext \<Rightarrow> go_any option" where
  "GetValue key c = bc_values c key"

definition SetParam :: "string \<Rightarrow> string \<Rightarrow> BaseContext \<Rightarrow> BaseContext" where
  "SetParam key v c = c\<lparr>bc_params := (bc_params c)(key := Some v)\<rparr>"

definition GetParam :: "string \<Rightarrow> BaseContext \<Rightarrow> string" where
  "GetParam key c = (case bc_params c key of None \<Rightarrow> '''' | Some v \<Rightarrow> v)"

definition close_stream :: "server \<Rightarrow> server" where
  "close_stream sv = sv\<lparr>sv_stream := map_option stream_Close (sv_stream sv)\<rparr>"

definition send_data :: "byte list \<Rightarrow> server \<Rightarrow> goerror option \<times> server" where
  "send_data bytes sv =
     (case WriteFrame qwrite (sv_stream sv) \<lparr>FrameType = FrameTypeData, Length = 0, Payload = bytes\<rparr> of
        (e, s) \<Rightarrow> (e, sv\<lparr>sv_stream := s\<rparr>))"

definition writeEnvelope :: "byte list result \<Rightarrow> server \<Rightarrow> goerror option \<times> server" where
  "writeEnvelope marshalled sv = (case marshalled of Inl err \<Rightarrow> (Some err, sv) | Inr bytes \<Rightarrow> send_data bytes sv)"

text \<open>\<open>response\<close> is \<open>None\<close> for a nil message and otherwise the outcome of marshalling it.\<close>

definition SendResponse ::
    "codec \<Rightarrow> PPStatusCode \<Rightarrow> string \<Rightarrow> byte list result option \<Rightarrow> server \<Rightarrow> goerror option \<times> server" where
  "SendResponse cd statusCode message response sv =
     (case response of
        Some (Inl err) \<Rightarrow> (Some err, sv)
      | Some (Inr bytes) \<Rightarrow>
          writeEnvelope (mar_Response cd \<lparr>rs_StatusCode = status_value statusCode, rs_Message = message,
                                         rs_Response = Some bytes\<rparr>) sv
      | None \<Rightarrow>
          writeEnvelope (mar_Response cd \<lparr>rs_StatusCode = status_value statusCode, rs_Message = message,
                                         rs_Response = None\<rparr>) sv)"

definition SendUpdate ::
    "codec \<Rightarrow> nat option \<Rightarrow> uint64 \<Rightarrow> bool \<Rightarrow> byte list result \<Rightarrow> server \<Rightarrow> goerror option \<times> server" where
  "SendUpdate cd sess seq final update sv =
     (if sess \<noteq> None \<and> IsRevoked sess (sv_registry sv) then (Some ErrSessionRevoked, sv)
      else case update of
          Inl err \<Rightarrow> (Some err, sv)
        | Inr updateBytes \<Rightarrow>
            writeEnvelope (mar_Update cd \<lparr>ue_Seq = seq, ue_End = final, ue_Update = updateBytes\<rparr>) sv)"

text \<open>\<open>None\<close>: the read of the frame does not return (\<open>ReadFrame\<close> of a scripted stream always does).\<close>

definition ReadUpdate :: "codec \<Rightarrow> nat option \<Rightarrow> server \<Rightarrow> (UpdateEnvelope result \<times> server) option" where
  "ReadUpdate cd sess sv =
     (if sess \<noteq> None \<and> IsRevoked sess (sv_registry sv) then Some (Inl ErrSessionRevoked, sv)
      else case ReadFrame qread (sv_stream sv) of
          None \<Rightarrow> None
        | Some (Inl err, s) \<Rightarrow> Some (Inl err, sv\<lparr>sv_stream := s\<rparr>)
        | Some (Inr frame, s) \<Rightarrow>
            (case unm_Update cd (Payload frame) of
               Inl err \<Rightarrow> Some (Inl (Errorf ''decode update envelope'' err), sv\<lparr>sv_stream := s\<rparr>)
             | Inr envelope \<Rightarrow> Some (Inr envelope, sv\<lparr>sv_stream := s\<rparr>)))"

section \<open>Response contexts\<close>

record ResponseContext =
  rc_Request :: "byte list"
  rc_Session :: "nat option"

definition NewResponseContext :: "BaseContext \<Rightarrow> ResponseContext result" where
  "NewResponseContext base = Inr \<lparr>rc_Request = bc_Bytes base, rc_Session = bc_Session base\<rparr>"

definition rc_Send :: "codec \<Rightarrow> PPStatusCode \<Rightarrow> string \<Rightarrow> byte list result \<Rightarrow> server \<Rightarrow> goerror option \<times> server" where
  "rc_Send cd statusCode message response sv = SendResponse cd statusCode message (Some response) sv"

definition SendStatus :: "codec \<Rightarrow> PPStatusCode \<Rightarrow> string \<Rightarrow> server \<Rightarrow> goerror option \<times> server" where
  "SendStatus cd statusCode message sv = SendResponse cd statusCode message None sv"

definition SendCode :: "codec \<Rightarrow> PPStatusCode \<Rightarrow> server \<Rightarrow> goerror option \<times> server" where
  "SendCode cd statusCode sv = SendResponse cd statusCode '''' None sv"

section \<open>Updates sent by the server\<close>

record ServerUpdatesContext =
  su_Session :: "nat option"
  su_Request :: ServerUpdateRequest
  su_nextSeq :: uint64
  su_ended :: bool

definition decodeServerUpdatesRequest :: "codec \<Rightarrow> byte list \<Rightarrow> ServerUpdateRequest result" where
  "decodeServerUpdatesRequest cd raw =
     (case unm_ServerUpdate cd raw of Inl err \<Rightarrow> Inl (Errorf ''decode server update request'' err) | Inr request \<Rightarrow> Inr request)"

definition NewServerUpdatesContext :: "codec \<Rightarrow> BaseContext \<Rightarrow> ServerUpdatesContext result" where
  "NewServerUpdatesContext cd base =
     (case decodeServerUpdatesRequest cd (bc_Bytes base) of
        Inl err \<Rightarrow> Inl err
      | Inr request \<Rightarrow> Inr \<lparr>su_Session = bc_Session base, su_Request = request, su_nextSeq = 0, su_ended = False\<rparr>)"

definition su_SendUpdate ::
    "codec \<Rightarrow> bool \<Rightarrow> ServerUpdateResponse option \<Rightarrow> ServerUpdatesContext \<Rightarrow> server
      \<Rightarrow> goerror option \<times> ServerUpdatesContext \<times> server" where
  "su_SendUpdate cd final update c sv =
     (if su_ended c then (None, c, sv)
      else case update of
          None \<Rightarrow> (Some ErrUpdateBodyRequired, c, sv)
        | Some u \<Rightarrow>
            (case SendUpdate cd (su_Session c) (su_nextSeq c) final (mar_ServerUpdateResp cd u) sv of
               (Some err, sv') \<Rightarrow> (Some err, c, sv')
             | (None, sv') \<Rightarrow> (None, c\<lparr>su_nextSeq := su_nextSeq c + 1, su_ended := final\<rparr>, sv')))"

definition su_Send ::
    "codec \<Rightarrow> PPStatusCode \<Rightarrow> string \<Rightarrow> ServerUpdateResponse option \<Rightarrow> server \<Rightarrow> goerror option \<times> server" where
  "su_Send cd statusCode message response sv =
     (case response of None \<Rightarrow> (Some ErrResponseBodyRequired, sv)
      | Some r \<Rightarrow> SendResponse cd statusCode message (Some (mar_ServerUpdateResp cd r)) sv)"

section \<open>Updates sent by the client\<close>

record ClientUpdatesContext =
  cu_Session :: "nat option"
  cu_Request :: ClientUpdateRequest
  cu_Seq :: uint64
  cu_Update :: "byte list"
  cu_ended :: bool
  cu_nextSeq :: uint64

definition decodeClientUpdatesRequest :: "codec \<Rightarrow> byte list \<Rightarrow> ClientUpdateRequest result" where
  "decodeClientUpdatesRequest cd raw =
     (case unm_ClientUpdate cd raw of Inl err \<Rightarrow> Inl (Errorf ''decode client update request'' err) | Inr request \<Rightarrow> Inr request)"

definition NewClientUpdatesContext :: "codec \<Rightarrow> BaseContext \<Rightarrow> ClientUpdatesContext result" where
  "NewClientUpdatesContext cd base =
     (case decodeClientUpdatesRequest cd (bc_Bytes base) of
        Inl err \<Rightarrow> Inl err
      | Inr request \<Rightarrow> Inr \<lparr>cu_Session = bc_Session base, cu_Request = request, cu_Seq = 0, cu_Update = [],
                            cu_ended = False, cu_nextSeq = 0\<rparr>)"

definition cu_Send ::
    "codec \<Rightarrow> PPStatusCode \<Rightarrow> string \<Rightarrow> ClientUpdateResponse option \<Rightarrow> server \<Rightarrow> goerror option \<times> server" where
  "cu_Send cd statusCode message response sv =
     (case response of None \<Rightarrow> (Some ErrResponseBodyRequired, sv)
      | Some r \<Rightarrow> SendResponse cd statusCode message (Some (mar_ClientUpdateResp cd r)) sv)"

definition NextUpdate ::
    "codec \<Rightarrow> ClientUpdatesContext \<Rightarrow> server \<Rightarrow> (bool result \<times> ClientUpdatesContext \<times> server) option" where
  "NextUpdate cd c sv =
     (if cu_ended c then Some (Inr True, c, sv)
      else case ReadUpdate cd (cu_Session c) sv of
          None \<Rightarrow> None
        | Some (Inl err, sv') \<Rightarrow> Some (Inl err, c, sv')
        | Some (Inr envelope, sv') \<Rightarrow>
            if ue_Seq envelope \<noteq> cu_nextSeq c then Some (Inl ErrInvalidSequence, c, sv')
            else Some (Inr (ue_End envelope),
                       c\<lparr>cu_nextSeq := cu_nextSeq c + 1, cu_Seq := ue_Seq envelope,
                         cu_Update := ue_Update envelope, cu_ended := ue_End envelope\<rparr>, sv'))"

section \<open>Transfers\<close>

record ClientTransferContext =
  ct_Request :: ClientTransferRequest

record ServerTransferContext =
  st_Request :: ServerTransferRequest

definition decodeClientTransferRequest :: "codec \<Rightarrow> byte list \<Rightarrow> ClientTransferRequest result" where
  "decodeClientTransferRequest cd raw =
     (case unm_ClientTransfer cd raw of Inl err \<Rightarrow> Inl (Errorf ''decode client transfer request'' err) | Inr request \<Rightarrow> Inr request)"

definition NewClientTransferContext :: "codec \<Rightarrow> BaseContext \<Rightarrow> ClientTransferContext result" where
  "NewClientTransferContext cd base =
     (case decodeClientTransferRequest cd (bc_Bytes base) of
        Inl err \<Rightarrow> Inl err | Inr request \<Rightarrow> Inr \<lparr>ct_Request = request\<rparr>)"

definition decodeServerTransferRequest :: "codec \<Rightarrow> byte list \<Rightarrow> ServerTransferRequest result" where
  "decodeServerTransferRequest cd raw =
     (case unm_ServerTransfer cd raw of Inl err \<Rightarrow> Inl (Errorf ''decode server transfer request'' err) | Inr request \<Rightarrow> Inr request)"

definition NewServerTransferContext :: "codec \<Rightarrow> BaseContext \<Rightarrow> ServerTransferContext result" where
  "NewServerTransferContext cd base =
     (case decodeServerTransferRequest cd (bc_Bytes base) of
        Inl err \<Rightarrow> Inl err | Inr request \<Rightarrow> Inr \<lparr>st_Request = request\<rparr>)"

definition ct_Send ::
    "codec \<Rightarrow> PPStatusCode \<Rightarrow> string \<Rightarrow> ClientTransferResponse option \<Rightarrow> server \<Rightarrow> goerror option \<times> server" where
  "ct_Send cd statusCode message response sv =
     (case response of None \<Rightarrow> (Some ErrResponseBodyRequired, sv)
      | Some r \<Rightarrow> SendResponse cd statusCode message (Some (mar_ClientTransferResp cd r)) sv)"

definition st_Send ::
    "codec \<Rightarrow> PPStatusCode \<Rightarrow> string \<Rightarrow> ServerTransferResponse option \<Rightarrow> server \<Rightarrow> goerror option \<times> server" where
  "st_Send cd statusCode message response sv =
     (case response of None \<Rightarrow> (Some ErrResponseBodyRequired, sv)
      | Some r \<Rightarrow> SendResponse cd statusCode message (Some (mar_ServerTransferResp cd r)) sv)"

section \<open>What reaches the wire\<close>

definition stream_of :: "server \<Rightarrow> qstream option" where
  "stream_of sv = Option.bind (sv_stream sv) qs_stream"

definition data_frame :: "byte list \<Rightarrow> byte list" where
  "data_frame bytes = encode_frame \<lparr>FrameType = FrameTypeData, Length = 0, Payload = bytes\<rparr>"

lemma send_data_ok:
  assumes s: "stream_of sv = Some q" and ok: "writer_ok q" and w: "send_data bytes sv = (None, sv')"
  shows "\<exists>q'. stream_of sv' = Some q' \<and> writer_ok q' \<and> tx q' = tx q @ data_frame bytes"
    "length bytes < 2 ^ 32" "sv_backend sv' = sv_backend sv" "sv_registry sv' = sv_registry sv"
proof -
  obtain h where h: "sv_stream sv = Some h" "qs_stream h = Some q" using s by (auto simp: stream_of_def bind_eq_Some_conv)
  obtain e q' where f: "write_frame qwrite \<lparr>FrameType = FrameTypeData, Length = 0, Payload = bytes\<rparr> q = (e, q')" by (meson surj_pair)
  then have "e = None" and sv': "sv' = sv\<lparr>sv_stream := Some (h\<lparr>qs_stream := Some q'\<rparr>)\<rparr>"
    using w h by (auto simp: send_data_def WriteFrame_def)
  then show "\<exists>q'. stream_of sv' = Some q' \<and> writer_ok q' \<and> tx q' = tx q @ data_frame bytes"
    "length bytes < 2 ^ 32" "sv_backend sv' = sv_backend sv" "sv_registry sv' = sv_registry sv"
    using qchan.write_frame_sent [OF ok f] by (auto simp: stream_of_def data_frame_def)
qed

lemma read_data_ok:
  assumes s: "stream_of sv = Some q" and ok: "reader_ok q" and p: "rx q = data_frame bytes @ rest" and len: "length bytes < 2 ^ 32"
  shows "\<exists>f h' q'. ReadFrame qread (sv_stream sv) = Some (Inr f, Some h') \<and> Payload f = bytes
    \<and> qs_stream h' = Some q' \<and> reader_ok q' \<and> rx q' = rest"
proof -
  obtain h where h: "sv_stream sv = Some h" "qs_stream h = Some q" using s by (auto simp: stream_of_def bind_eq_Some_conv)
  show ?thesis
    using qchan.read_frame_ok [OF ok, of "\<lparr>FrameType = FrameTypeData, Length = 0, Payload = bytes\<rparr>" rest] p len h
    by (auto simp: ReadFrame_def data_frame_def)
qed

text \<open>A stream that takes every byte it is given: it is open and its peer refuses nothing.\<close>

definition open_stream :: "qstream \<Rightarrow> bool" where
  "open_stream q \<longleftrightarrow> wscript q = [] \<and> \<not> tx_closed q"

definition put_stream :: "qstream \<Rightarrow> server \<Rightarrow> server" where
  "put_stream q sv = sv\<lparr>sv_stream := map_option (\<lambda>h. h\<lparr>qs_stream := Some q\<rparr>) (sv_stream sv)\<rparr>"

lemma put_stream_simps [simp]:
  "stream_of sv = Some q \<Longrightarrow> stream_of (put_stream q' sv) = Some q'"
  "sv_backend (put_stream q sv) = sv_backend sv" "sv_registry (put_stream q sv) = sv_registry sv"
  by (auto simp: put_stream_def stream_of_def bind_eq_Some_conv)

lemma write_loop_open:
  assumes "open_stream q" shows "write_loop qwrite p q = (None, q\<lparr>tx := tx q @ p\<rparr>)"
proof (cases "p = []")
  case False
  then show ?thesis using assms
    by (simp add: write_loop.simps [of qwrite p] write_loop.simps [of qwrite "[]"] qwrite_def open_stream_def)
qed (simp add: write_loop.simps)

lemma send_data_open:
  assumes s: "stream_of sv = Some q" and q: "open_stream q" and len: "length bytes < 2 ^ 32"
  shows "send_data bytes sv = (None, put_stream (q\<lparr>tx := tx q @ data_frame bytes\<rparr>) sv)"
proof -
  obtain h where h: "sv_stream sv = Some h" "qs_stream h = Some q" using s by (auto simp: stream_of_def bind_eq_Some_conv)
  let ?f = "\<lparr>FrameType = FrameTypeData, Length = 0, Payload = bytes\<rparr>"
  have q1: "open_stream (q\<lparr>tx := tx q @ frame_header ?f\<rparr>)" using q by (simp add: open_stream_def)
  have "write_frame qwrite ?f q = (None, q\<lparr>tx := tx q @ data_frame bytes\<rparr>)"
    using q len write_loop_open [OF q1, of bytes]
    by (auto simp: write_frame_def qwrite_def open_stream_def data_frame_def encode_frame_def)
  then show ?thesis using h by (simp add: send_data_def WriteFrame_def put_stream_def)
qed

lemma open_stream_tx [simp]: "open_stream (q\<lparr>tx := bs\<rparr>) = open_stream q"
  by (simp add: open_stream_def)

section \<open>A stream of updates\<close>

text \<open>Sending a list of updates, the last one marked as the end, and reading a number of them.\<close>

fun send_updates ::
    "codec \<Rightarrow> ServerUpdateResponse list \<Rightarrow> ServerUpdatesContext \<Rightarrow> server \<Rightarrow> goerror option \<times> ServerUpdatesContext \<times> server" where
  "send_updates cd [] c sv = (None, c, sv)"
| "send_updates cd (u # us) c sv =
     (case su_SendUpdate cd (us = []) (Some u) c sv of
        (Some err, c', sv') \<Rightarrow> (Some err, c', sv')
      | (None, c', sv') \<Rightarrow> send_updates cd us c' sv')"

fun read_updates ::
    "codec \<Rightarrow> nat \<Rightarrow> ClientUpdatesContext \<Rightarrow> server \<Rightarrow> ((uint64 \<times> byte list \<times> bool) list result \<times> ClientUpdatesContext \<times> server) option" where
  "read_updates cd 0 c sv = Some (Inr [], c, sv)"
| "read_updates cd (Suc n) c sv =
     (case NextUpdate cd c sv of
        None \<Rightarrow> None
      | Some (Inl err, c', sv') \<Rightarrow> Some (Inl err, c', sv')
      | Some (Inr final, c', sv') \<Rightarrow>
          (case read_updates cd n c' sv' of
             None \<Rightarrow> None
           | Some (Inl err, c2, sv2) \<Rightarrow> Some (Inl err, c2, sv2)
           | Some (Inr xs, c2, sv2) \<Rightarrow> Some (Inr ((cu_Seq c', cu_Update c', final) # xs), c2, sv2)))"

text \<open>The envelopes of a list of encoded updates: consecutive numbers, the last one marked.\<close>

fun envelopes :: "uint64 \<Rightarrow> byte list list \<Rightarrow> UpdateEnvelope list" where
  "envelopes k [] = []"
| "envelopes k (b # bs) = \<lparr>ue_Seq = k, ue_End = (bs = []), ue_Update = b\<rparr> # envelopes (k + 1) bs"

lemma send_updates_ok:
  "\<lbrakk>stream_of sv = Some q; writer_ok q; \<not> su_ended c; send_updates cd us c sv = (None, c', sv')\<rbrakk> \<Longrightarrow>
   \<exists>ubs bss q'. list_all2 (\<lambda>u ub. mar_ServerUpdateResp cd u = Inr ub) us ubs
     \<and> list_all2 (\<lambda>e bs. mar_Update cd e = Inr bs \<and> length bs < 2 ^ 32) (envelopes (su_nextSeq c) ubs) bss
     \<and> stream_of sv' = Some q' \<and> tx q' = tx q @ concat (map data_frame bss)"
proof (induction us arbitrary: c sv q)
  case Nil
  then show ?case by (intro exI [of _ "[]"]) auto
next
  case (Cons u us)
  obtain c1 sv1 where s1: "su_SendUpdate cd (us = []) (Some u) c sv = (None, c1, sv1)"
    and rest: "send_updates cd us c1 sv1 = (None, c', sv')"
    using Cons.prems(4) by (auto split: prod.splits option.splits)
  obtain ub bs where ub: "mar_ServerUpdateResp cd u = Inr ub"
    and bs: "mar_Update cd \<lparr>ue_Seq = su_nextSeq c, ue_End = (us = []), ue_Update = ub\<rparr> = Inr bs"
    and d: "send_data bs sv = (None, sv1)" and c1: "c1 = c\<lparr>su_nextSeq := su_nextSeq c + 1, su_ended := (us = [])\<rparr>"
    using s1 Cons.prems(3)
    by (auto simp: su_SendUpdate_def SendUpdate_def writeEnvelope_def split: if_splits sum.splits prod.splits option.splits)
  note sent = send_data_ok [OF Cons.prems(1,2) d]
  obtain q1 where q1: "stream_of sv1 = Some q1" "writer_ok q1" "tx q1 = tx q @ data_frame bs" using sent(1) by blast
  show ?case
  proof (cases "us = []")
    case True
    then show ?thesis using ub bs q1 rest sent(2) by (intro exI [of _ "[ub]"] exI [of _ "[bs]"]) auto
  next
    case False
    then obtain ubs bss q' where ih: "list_all2 (\<lambda>u ub. mar_ServerUpdateResp cd u = Inr ub) us ubs"
      "list_all2 (\<lambda>e bs. mar_Update cd e = Inr bs \<and> length bs < 2 ^ 32) (envelopes (su_nextSeq c1) ubs) bss"
      "stream_of sv' = Some q'" "tx q' = tx q1 @ concat (map data_frame bss)"
      using Cons.IH [OF q1(1,2) _ rest] c1 by auto
    have "ubs \<noteq> []" using ih(1) False by (auto dest: list_all2_lengthD)
    then show ?thesis using ih ub bs q1 sent(2) c1 False
      by (intro exI [of _ "ub # ubs"] exI [of _ "bs # bss"] exI [of _ q']) auto
  qed
qed

lemma read_updates_ok:
  assumes inv: "\<And>e bs. mar_Update cd e = Inr bs \<Longrightarrow> unm_Update cd bs = Inr e"
  shows "\<lbrakk>stream_of sv = Some q; reader_ok q; rx q = concat (map data_frame bss) @ rest; cu_Session c = None; \<not> cu_ended c;
     list_all2 (\<lambda>e bs. mar_Update cd e = Inr bs \<and> length bs < 2 ^ 32) (envelopes (cu_nextSeq c) ubs) bss\<rbrakk> \<Longrightarrow>
   \<exists>c' sv'. read_updates cd (length ubs) c sv =
      Some (Inr (map (\<lambda>e. (ue_Seq e, ue_Update e, ue_End e)) (envelopes (cu_nextSeq c) ubs)), c', sv')"
proof (induction ubs arbitrary: c sv q bss)
  case (Cons ub ubs)
  let ?e = "\<lparr>ue_Seq = cu_nextSeq c, ue_End = (ubs = []), ue_Update = ub\<rparr>"
  obtain bs bss' where bss: "bss = bs # bss'" and e: "mar_Update cd ?e = Inr bs" "length bs < 2 ^ 32"
    and r: "list_all2 (\<lambda>e bs. mar_Update cd e = Inr bs \<and> length bs < 2 ^ 32) (envelopes (cu_nextSeq c + 1) ubs) bss'"
    using Cons.prems(6) by (cases bss) auto
  have "rx q = data_frame bs @ concat (map data_frame bss') @ rest" using Cons.prems(3) bss by simp
  then obtain f h' q' where rd: "ReadFrame qread (sv_stream sv) = Some (Inr f, Some h')" "Payload f = bs"
    and q': "qs_stream h' = Some q'" "reader_ok q'" "rx q' = concat (map data_frame bss') @ rest"
    using read_data_ok [OF Cons.prems(1,2) _ e(2)] by blast
  let ?c = "c\<lparr>cu_nextSeq := cu_nextSeq c + 1, cu_Seq := cu_nextSeq c, cu_Update := ub, cu_ended := (ubs = [])\<rparr>"
  let ?sv = "sv\<lparr>sv_stream := Some h'\<rparr>"
  have n: "NextUpdate cd c sv = Some (Inr (ubs = []), ?c, ?sv)"
    using Cons.prems(4,5) rd inv [OF e(1)] by (simp add: NextUpdate_def ReadUpdate_def)
  show ?case
  proof (cases "ubs = []")
    case True
    then show ?thesis using n by simp
  next
    case False
    have "stream_of ?sv = Some q'" using q'(1) by (simp add: stream_of_def)
    from Cons.IH [OF this q'(2,3), of ?c] r False Cons.prems(4) obtain c' sv' where
      "read_updates cd (length ubs) ?c ?sv = Some (Inr (map (\<lambda>e. (ue_Seq e, ue_Update e, ue_End e)) (envelopes (cu_nextSeq c + 1) ubs)), c', sv')"
      by auto
    then show ?thesis using n by simp
  qed
qed auto

text \<open>
  C25. Updates sent through a \<open>ServerUpdatesContext\<close> arrive in a \<open>ClientUpdatesContext\<close> at
  the other end: if every \<open>SendUpdate\<close> succeeded, reading as many updates from the bytes
  that were sent returns them in order, numbered consecutively from zero, with the end mark on
  the last one only, however the transport chunks the bytes. The protobuf encoding of an
  update envelope is assumed to decode to it.
\<close>

theorem updates_roundtrip:
  assumes out: "stream_of sv = Some q" "writer_ok q" "tx q = []"
    and fresh: "NewServerUpdatesContext cd base = Inr c" and sent: "send_updates cd us c sv = (None, c', sv')"
    and wire: "stream_of sv' = Some q'" "stream_of rsv = Some r" "reader_ok r" "rx r = tx q'"
    and rfresh: "NewClientUpdatesContext cd rbase = Inr rc" "bc_Session rbase = None"
    and inv: "\<And>e bs. mar_Update cd e = Inr bs \<Longrightarrow> unm_Update cd bs = Inr e"
  shows "\<exists>ubs rc' rsv'. list_all2 (\<lambda>u ub. mar_ServerUpdateResp cd u = Inr ub) us ubs
    \<and> read_updates cd (length us) rc rsv =
        Some (Inr (map (\<lambda>e. (ue_Seq e, ue_Update e, ue_End e)) (envelopes 0 ubs)), rc', rsv')"
proof -
  have c: "\<not> su_ended c" "su_nextSeq c = 0"
    using fresh by (auto simp: NewServerUpdatesContext_def split: sum.splits)
  have rc: "\<not> cu_ended rc" "cu_nextSeq rc = 0" "cu_Session rc = None"
    using rfresh by (auto simp: NewClientUpdatesContext_def split: sum.splits)
  obtain ubs bss where u: "list_all2 (\<lambda>u ub. mar_ServerUpdateResp cd u = Inr ub) us ubs"
    "list_all2 (\<lambda>e bs. mar_Update cd e = Inr bs \<and> length bs < 2 ^ 32) (envelopes 0 ubs) bss"
    "tx q' = concat (map data_frame bss)"
    using send_updates_ok [OF out(1,2) c(1) sent] c(2) wire(1) out(3) by auto
  have "length us = length ubs" using u(1) by (rule list_all2_lengthD)
  moreover have "rx r = concat (map data_frame bss) @ []" using wire(4) u(3) by simp
  ultimately show ?thesis
    using read_updates_ok [OF inv wire(2,3) _ rc(3,1), of bss "[]" ubs] u(1,2) rc(2) by auto
qed

text \<open>A small codec for the examples: the number of an update in unary, a mark, the bytes.\<close>

definition demo_mar_Update :: "UpdateEnvelope \<Rightarrow> byte list result" where
  "demo_mar_Update e = Inr (replicate (unat (ue_Seq e)) 1 @ 0 # (if ue_End e then 1 else 0) # ue_Update e)"

definition demo_unm_Update :: "byte list \<Rightarrow> UpdateEnvelope result" where
  "demo_unm_Update bs =
     (let n = length (takeWhile (\<lambda>b. b = 1) bs) in
      case drop n bs of
        _ # f # u \<Rightarrow> Inr \<lparr>ue_Seq = word_of_nat n, ue_End = (f = 1), ue_Update = u\<rparr>
      | _ \<Rightarrow> Inl (ExtError ''proto''))"

lemma demo_update_inverse: "demo_mar_Update e = Inr bs \<Longrightarrow> demo_unm_Update bs = Inr e"
proof -
  assume "demo_mar_Update e = Inr bs"
  then have bs: "bs = replicate (unat (ue_Seq e)) 1 @ 0 # (if ue_End e then 1 else 0) # ue_Update e"
    by (simp add: demo_mar_Update_def)
  have "takeWhile (\<lambda>b. b = 1) (replicate n 1 @ 0 # xs) = replicate n (1 :: byte)" for n xs
    by (induction n) auto
  then show ?thesis unfolding bs demo_unm_Update_def by (cases "ue_End e") simp_all
qed

definition demo_codec :: codec where
  "demo_codec = \<lparr>unm_Request = (\<lambda>_. Inr \<lparr>re_Op = ''ping'', re_Request = None\<rparr>), unm_Update = demo_unm_Update,
     unm_Register = (\<lambda>_. Inr \<lparr>rr_DisplayName = ''Alice'', rr_Username = ''Alice'', rr_Password = ''secret'',
        rr_DeviceId = ''phone'', rr_DeviceName = ''Pixel''\<rparr>),
     unm_LoginCredentials = (\<lambda>_. Inr \<lparr>lr_Username = ''Alice'', lr_Password = ''secret'', lr_DeviceId = ''phone'',
        lr_DeviceName = ''Pixel''\<rparr>),
     unm_LoginToken = (\<lambda>bs. Inr \<lparr>tr_SessionToken = string_of_bytes bs\<rparr>),
     unm_Delete = (\<lambda>_. Inr \<lparr>dr_Username = ''Alice'', dr_Password = ''secret''\<rparr>),
     unm_DeleteCancel = (\<lambda>_. Inr \<lparr>cr_Username = ''Alice'', cr_Password = ''secret''\<rparr>),
     unm_ClientUpdate = (\<lambda>_. Inr ClientUpdateRequest), unm_ServerUpdate = (\<lambda>_. Inr ServerUpdateRequest),
     unm_ClientTransfer = (\<lambda>_. Inr ClientTransferRequest), unm_ServerTransfer = (\<lambda>_. Inr ServerTransferRequest),
     mar_Response = (\<lambda>e. Inr (PutUint32 (rs_StatusCode e))), mar_Update = demo_mar_Update,
     mar_Auth = (\<lambda>a. Inr (bytes_of_string (ar_SessionToken a))), mar_Delete = (\<lambda>_. Inr [0]),
     mar_ServerUpdateResp = (\<lambda>_. Inr [9]), mar_ClientUpdateResp = (\<lambda>_. Inr []),
     mar_ClientTransferResp = (\<lambda>_. Inr []), mar_ServerTransferResp = (\<lambda>_. Inr [])\<rparr>"

definition demo_server :: "backend \<Rightarrow> registry \<Rightarrow> qstream \<Rightarrow> server" where
  "demo_server b g q = \<lparr>sv_backend = b, sv_registry = g, sv_stream = Some \<lparr>qs_stream = Some q, qs_connID = ''c'', qs_id = ''s''\<rparr>\<rparr>"

lemma stream_of_demo [simp]: "stream_of (demo_server b g q) = Some q"
  by (simp add: stream_of_def demo_server_def)

lemma demo_codec_simps [simp]:
  "unm_ServerUpdate demo_codec bs = Inr ServerUpdateRequest" "unm_ClientUpdate demo_codec bs = Inr ClientUpdateRequest"
  "mar_Update demo_codec e = demo_mar_Update e" "unm_Update demo_codec bs = demo_unm_Update bs"
  "mar_ServerUpdateResp demo_codec u = Inr [9]"
  by (simp_all add: demo_codec_def)

definition demo_server_updates :: ServerUpdatesContext where
  "demo_server_updates = \<lparr>su_Session = None, su_Request = ServerUpdateRequest, su_nextSeq = 0, su_ended = False\<rparr>"

definition demo_client_updates :: ClientUpdatesContext where
  "demo_client_updates = \<lparr>cu_Session = None, cu_Request = ClientUpdateRequest, cu_Seq = 0, cu_Update = [], cu_ended = False,
     cu_nextSeq = 0\<rparr>"

lemma demo_send:
  "\<lbrakk>stream_of sv = Some q; open_stream q; \<not> su_ended c; su_nextSeq c < 100; su_Session c = None\<rbrakk> \<Longrightarrow>
   \<exists>q'. su_SendUpdate demo_codec final (Some u) c sv =
      (None, c\<lparr>su_nextSeq := su_nextSeq c + 1, su_ended := final\<rparr>, put_stream q' sv) \<and> open_stream q'"
  by (auto simp: su_SendUpdate_def SendUpdate_def writeEnvelope_def demo_mar_Update_def send_data_open word_less_nat_alt)

lemma demo_send_two:
  "\<exists>c' sv' q'. send_updates demo_codec [u, v] demo_server_updates (demo_server b g (demo_stream [] [])) = (None, c', sv')
     \<and> stream_of sv' = Some q'"
proof -
  let ?sv = "demo_server b g (demo_stream [] [])"
  have o: "open_stream (demo_stream [] [])" by (simp add: open_stream_def demo_stream_def)
  obtain q1 where 1: "su_SendUpdate demo_codec False (Some u) demo_server_updates ?sv =
      (None, demo_server_updates\<lparr>su_nextSeq := 1, su_ended := False\<rparr>, put_stream q1 ?sv)" "open_stream q1"
    using demo_send [OF stream_of_demo o, of demo_server_updates False u b g] by (auto simp: demo_server_updates_def)
  have "stream_of (put_stream q1 ?sv) = Some q1" by simp
  from demo_send [OF this 1(2), of "demo_server_updates\<lparr>su_nextSeq := 1, su_ended := False\<rparr>" True v] obtain c2 q2 where
    2: "su_SendUpdate demo_codec True (Some v) (demo_server_updates\<lparr>su_nextSeq := 1, su_ended := False\<rparr>) (put_stream q1 ?sv) =
      (None, c2, put_stream q2 (put_stream q1 ?sv))"
    by (auto simp: demo_server_updates_def)
  show ?thesis using 1 2 by simp
qed

theorem updates_roundtrip_witness:
  "\<exists>bytes rc' rsv'. read_updates demo_codec 2 demo_client_updates
      (demo_server new_backend empty_registry (demo_stream bytes [(1, None)]))
    = Some (Inr [(0, [9], False), (1, [9], True)], rc', rsv')"
proof -
  let ?us = "[ServerUpdateResponse, ServerUpdateResponse]"
  have w: "writer_ok (demo_stream [] [])" "tx (demo_stream [] []) = []" by (simp_all add: writer_ok_def demo_stream_def)
  have c: "NewServerUpdatesContext demo_codec newBaseContext = Inr demo_server_updates"
    by (simp add: NewServerUpdatesContext_def decodeServerUpdatesRequest_def newBaseContext_def demo_server_updates_def)
  have rc: "NewClientUpdatesContext demo_codec newBaseContext = Inr demo_client_updates" "bc_Session newBaseContext = None"
    by (simp_all add: NewClientUpdatesContext_def decodeClientUpdatesRequest_def newBaseContext_def demo_client_updates_def)
  obtain c' sv' q' where s: "send_updates demo_codec ?us demo_server_updates
      (demo_server new_backend empty_registry (demo_stream [] [])) = (None, c', sv')" "stream_of sv' = Some q'"
    using demo_send_two by blast
  have r: "reader_ok (demo_stream (tx q') [(1, None)])" "rx (demo_stream (tx q') [(1, None)]) = tx q'"
    by (simp_all add: reader_ok_def demo_stream_def)
  have "\<exists>ubs rc' rsv'. list_all2 (\<lambda>u ub. mar_ServerUpdateResp demo_codec u = Inr ub) ?us ubs
    \<and> read_updates demo_codec (length ?us) demo_client_updates
        (demo_server new_backend empty_registry (demo_stream (tx q') [(1, None)])) =
        Some (Inr (map (\<lambda>e. (ue_Seq e, ue_Update e, ue_End e)) (envelopes 0 ubs)), rc', rsv')"
    by (rule updates_roundtrip [OF stream_of_demo w c s(1,2) stream_of_demo r rc]) (simp add: demo_update_inverse)
  then obtain ubs rc' rsv' where u: "list_all2 (\<lambda>u ub. mar_ServerUpdateResp demo_codec u = Inr ub) ?us ubs"
    and rd: "read_updates demo_codec (length ?us) demo_client_updates
        (demo_server new_backend empty_registry (demo_stream (tx q') [(1, None)])) =
        Some (Inr (map (\<lambda>e. (ue_Seq e, ue_Update e, ue_End e)) (envelopes 0 ubs)), rc', rsv')" by blast
  have "ubs = [[9], [9]]" using u by (auto simp: list_all2_Cons1)
  moreover have "length ?us = 2" by simp
  ultimately show ?thesis
    using rd by (intro exI [of _ "tx q'"] exI [of _ rc'] exI [of _ rsv']) (simp only: envelopes.simps list.map, simp)
qed

end
