(* ===== verification/Routes.thy ===== *)
theory Routes
  imports Go_Strings Errors
begin

text \<open>
  The names of routes and the route table of \<open>src/server/router/router.go\<close>: the syntax
  check, the normal form and the joining of dotted routes, and registration through a router
  or one of its groups. All routers of one tree share the table of their root, so the table
  is the state and a \<open>Router\<close> is its prefix and middleware. A Go \<open>panic\<close> is the
  left value of a sum, with its message.
\<close>

section \<open>Dotted names\<close>

text \<open>The pattern \<open>^[A-Za-z_]+(\.[A-Za-z_]+)*$\<close>.\<close>

definition route_char :: "char \<Rightarrow> bool" where
  "route_char c \<longleftrightarrow> (65 \<le> byte_val c \<and> byte_val c \<le> 90) \<or> (97 \<le> byte_val c \<and> byte_val c \<le> 122) \<or> c = CHR ''_''"

function dotRoutePattern_match :: "string \<Rightarrow> bool" where
  "dotRoutePattern_match s =
     (takeWhile route_char s \<noteq> [] \<and>
      (case dropWhile route_char s of [] \<Rightarrow> True | c # rest \<Rightarrow> c = CHR ''.'' \<and> dotRoutePattern_match rest))"
  by pat_completeness auto
termination
proof (relation "measure length")
  fix s c rest assume "dropWhile route_char s = c # rest"
  then have "length (c # rest) \<le> length s" by (metis length_dropWhile_le)
  then show "(rest, s) \<in> measure length" by simp
qed simp

declare dotRoutePattern_match.simps [simp del]

definition isDotRoute :: "string \<Rightarrow> bool" where
  "isDotRoute route = (if route = '''' then True else dotRoutePattern_match route)"

fun clean_parts :: "string list \<Rightarrow> string list" where
  "clean_parts [] = []"
| "clean_parts (part # parts) =
     (if TrimSpace part = '''' then clean_parts parts else TrimSpace part # clean_parts parts)"

definition normalizeRoute :: "string \<Rightarrow> string" where
  "normalizeRoute route0 =
     (let route = TrimChar CHR ''.'' (TrimSpace route0) in
      if route = '''' then ''root''
      else let clean = clean_parts (Split CHR ''.'' route) in
        if clean = [] then ''root'' else Join ''.'' clean)"

definition joinRoute :: "string \<Rightarrow> string \<Rightarrow> string" where
  "joinRoute pre route =
     (let p = normalizeRoute pre; s = normalizeRoute route in
      if p = ''root'' then s else if s = ''root'' then p else p @ ''.'' @ s)"

section \<open>The route table\<close>

datatype StreamType = StreamResponse | StreamServerUpdates | StreamClientUpdates
  | StreamServerTransfer | StreamClientTransfer

fun stream_type_name :: "StreamType \<Rightarrow> string" where
  "stream_type_name StreamResponse = ''response''"
| "stream_type_name StreamServerUpdates = ''server_stream''"
| "stream_type_name StreamClientUpdates = ''client_stream''"
| "stream_type_name StreamServerTransfer = ''server_transfer''"
| "stream_type_name StreamClientTransfer = ''client_transfer''"

record ('m, 'h) route =
  streamType :: StreamType
  path :: string
  route_middleware :: "'m list"
  handler :: 'h

record 'm Router =
  prefix_of :: string
  router_middleware :: "'m list"

type_synonym ('m, 'h) route_table = "string \<Rightarrow> ('m, 'h) route option"

definition router_New :: "'m Router \<times> ('m, 'h) route_table" where
  "router_New = (\<lparr>prefix_of = '''', router_middleware = []\<rparr>, (\<lambda>_. None))"

definition Group :: "string \<Rightarrow> 'm list \<Rightarrow> 'm Router \<Rightarrow> string + 'm Router" where
  "Group pre middleware r =
     (if \<not> isDotRoute pre then Inl ''invalid route syntax''
      else Inr \<lparr>prefix_of = joinRoute (prefix_of r) pre, router_middleware = router_middleware r @ middleware\<rparr>)"

definition Use :: "'m list \<Rightarrow> 'm Router \<Rightarrow> 'm Router" where
  "Use middleware r = r\<lparr>router_middleware := router_middleware r @ middleware\<rparr>"

definition register ::
    "'m Router \<Rightarrow> StreamType \<Rightarrow> string \<Rightarrow> 'm list \<Rightarrow> 'h \<Rightarrow> ('m, 'h) route_table \<Rightarrow> string + ('m, 'h) route_table" where
  "register r sType p routeMiddleware h tbl =
     (if \<not> isDotRoute p then Inl ''invalid route syntax''
      else let fullPath = joinRoute (prefix_of r) p in
        case tbl fullPath of
          Some existing \<Rightarrow> Inl (''duplicate route registration: '' @ fullPath @ '' (existing stream type: ''
                                @ stream_type_name (streamType existing) @ '')'')
        | None \<Rightarrow> Inr (tbl(fullPath := Some \<lparr>streamType = sType, path = fullPath,
                         route_middleware = router_middleware r @ routeMiddleware, handler = h\<rparr>)))"

definition RouteCount :: "('m, 'h) route_table \<Rightarrow> nat" where
  "RouteCount tbl = card (dom tbl)"

section \<open>Laws\<close>

lemma route_char_plain: "route_char c \<Longrightarrow> plain_char c \<and> c \<noteq> CHR ''.''"
  by (auto simp: route_char_def plain_char_def byte_val_def)

lemma takeWhile_route: "dotRoutePattern_match s \<Longrightarrow> \<forall>c\<in>set s. plain_char c"
proof (induction s rule: dotRoutePattern_match.induct)
  case (1 s)
  let ?w = "takeWhile route_char s" and ?r = "dropWhile route_char s"
  have w: "\<forall>c\<in>set ?w. plain_char c" by (auto dest: set_takeWhileD route_char_plain)
  have "\<forall>c\<in>set ?r. plain_char c"
  proof (cases ?r)
    case (Cons c rest)
    then have "c = CHR ''.'' \<and> dotRoutePattern_match rest"
      using "1.prems" by (subst (asm) dotRoutePattern_match.simps) simp
    then show ?thesis using "1.IH" Cons by (auto simp: plain_char_def byte_val_def)
  next
    case Nil
    show ?thesis unfolding Nil by simp
  qed
  then show ?case using w by (metis UnE set_append takeWhile_dropWhile_id)
qed

text \<open>The parts of a dotted name.\<close>

lemma dotRoute_parts:
  "dotRoutePattern_match s \<longleftrightarrow> (\<forall>p\<in>set (Split CHR ''.'' s). p \<noteq> [] \<and> list_all route_char p)"
proof (induction s rule: dotRoutePattern_match.induct)
  case (1 s)
  let ?w = "takeWhile route_char s" and ?r = "dropWhile route_char s"
  have s: "s = ?w @ ?r" by simp
  have nd: "CHR ''.'' \<notin> set ?w" by (auto dest!: set_takeWhileD route_char_plain)
  have w: "list_all route_char ?w" by (auto simp: list_all_iff dest: set_takeWhileD)
  show ?case
  proof (cases ?r)
    case Nil
    then have "Split CHR ''.'' s = [?w]" using Split_no_sep [OF nd] s by (metis append.right_neutral)
    then show ?thesis using w by (subst dotRoutePattern_match.simps) (simp only: Nil list.case, simp)
  next
    case (Cons c rest)
    show ?thesis
    proof (cases "c = CHR ''.''")
      case True
      then have "Split CHR ''.'' s = ?w # Split CHR ''.'' rest"
        using Split_append_sep [OF nd] Cons s by metis
      then show ?thesis using "1.IH" Cons True w by (subst dotRoutePattern_match.simps) simp
    next
      case False
      have nc: "\<not> route_char c" using Cons by (metis dropWhile_eq_Cons_conv)
      have "c \<in> set s" using Cons s by (metis in_set_conv_decomp)
      moreover have "set s = \<Union> (set ` set (Split CHR ''.'' s)) \<union> (if CHR ''.'' \<in> set s then {CHR ''.''} else {})"
        by (rule Split_set)
      ultimately obtain p where "p \<in> set (Split CHR ''.'' s)" "c \<in> set p" using False by (auto split: if_splits)
      then have "\<not> (\<forall>p\<in>set (Split CHR ''.'' s). p \<noteq> [] \<and> list_all route_char p)"
        using nc by (auto simp: list_all_iff)
      then show ?thesis using Cons False by (subst dotRoutePattern_match.simps) simp
    qed
  qed
qed

lemma TrimChar_id:
  assumes "s \<noteq> []" "hd s \<noteq> c" "last s \<noteq> c"
  shows "TrimChar c s = s"
proof -
  have "dropWhile ((=) c) s = s" using assms by (cases s) auto
  moreover have "dropWhile ((=) c) (rev s) = rev s" using assms by (cases s rule: rev_cases) auto
  ultimately show ?thesis by (simp add: TrimChar_def)
qed

lemma clean_parts_id: "\<forall>p\<in>set ps. p \<noteq> [] \<and> list_all route_char p \<Longrightarrow> clean_parts ps = ps"
proof (induction ps)
  case (Cons p ps)
  then have "TrimSpace p = p"
    by (intro TrimSpace_plain) (auto simp: list_all_iff dest: route_char_plain)
  then show ?case using Cons by simp
qed simp

lemma dotRoute_ends:
  assumes "dotRoutePattern_match s"
  shows "s \<noteq> []" "hd s \<noteq> CHR ''.''" "last s \<noteq> CHR ''.''"
proof -
  obtain p ps where ps: "Split CHR ''.'' s = p # ps" by (cases "Split CHR ''.'' s") auto
  have parts: "\<forall>q\<in>set (Split CHR ''.'' s). q \<noteq> [] \<and> list_all route_char q" using assms by (simp add: dotRoute_parts)
  have s: "s = Join ''.'' (p # ps)" using Join_Split [of "CHR ''.''" s] ps by simp
  have hd: "Join ''.'' (q # qs) \<noteq> [] \<and> hd (Join ''.'' (q # qs)) = hd q" if "q \<noteq> []" for q qs
    using that by (cases qs) (auto simp: Join_Cons)
  have last: "last (Join ''.'' qs) = last (last qs)" if "qs \<noteq> []" "\<forall>q\<in>set qs. q \<noteq> []" for qs
    using that
  proof (induction qs)
    case (Cons q qs)
    then show ?case using hd by (cases qs) (auto simp: Join_Cons)
  qed simp
  have p: "p \<noteq> []" "route_char (hd p)" using parts ps by (auto simp: list_all_iff)
  show "s \<noteq> []" unfolding s using hd [OF p(1), of ps] by blast
  have "hd s = hd p" unfolding s using hd [OF p(1), of ps] by blast
  then show "hd s \<noteq> CHR ''.''" using p(2) route_char_plain by auto
  have "last (p # ps) \<in> set (Split CHR ''.'' s)" using ps by simp
  then have "last (p # ps) \<noteq> []" "list_all route_char (last (p # ps))" using parts by blast+
  then have "route_char (last (last (p # ps)))" by (simp add: list_all_iff)
  moreover have "last s = last (last (p # ps))"
    unfolding s by (rule last) (use parts ps in simp_all)
  ultimately show "last s \<noteq> CHR ''.''" using route_char_plain by auto
qed

lemma normalize_dotRoute: "dotRoutePattern_match s \<Longrightarrow> normalizeRoute s = s"
proof -
  assume m: "dotRoutePattern_match s"
  note ends = dotRoute_ends [OF m]
  have t: "TrimSpace s = s" using takeWhile_route [OF m] by (intro TrimSpace_plain) (simp add: list_all_iff)
  have c: "clean_parts (Split CHR ''.'' s) = Split CHR ''.'' s"
    using m by (intro clean_parts_id) (simp add: dotRoute_parts)
  show ?thesis using ends by (simp add: normalizeRoute_def Let_def t TrimChar_id c Join_Split)
qed

lemma normalize_empty [simp]: "normalizeRoute '''' = ''root''"
  by (simp add: normalizeRoute_def TrimChar_def)

lemma root_dotRoute: "dotRoutePattern_match ''root''"
  by code_simp

text \<open>The normal form of a route that passes the syntax check is a dotted name.\<close>

lemma normalize_isDotRoute: "isDotRoute r \<Longrightarrow> dotRoutePattern_match (normalizeRoute r)"
  by (cases "r = ''''") (auto simp: isDotRoute_def normalize_dotRoute root_dotRoute)

lemma Split_dot_join:
  "Split CHR ''.'' (p @ CHR ''.'' # s) = Split CHR ''.'' p @ Split CHR ''.'' s"
proof (induction p)
  case (Cons x p)
  then show ?case by (cases "Split CHR ''.'' p") auto
qed simp

lemma dotRoute_join: "dotRoutePattern_match p \<Longrightarrow> dotRoutePattern_match s \<Longrightarrow> dotRoutePattern_match (p @ CHR ''.'' # s)"
  by (auto simp: dotRoute_parts Split_dot_join)

lemma dot_not_root: "p @ CHR ''.'' # s \<noteq> ''root''"
proof
  assume "p @ CHR ''.'' # s = ''root''"
  then have "CHR ''.'' \<in> set ''root''" by (metis in_set_conv_decomp)
  then show False by simp
qed

lemma joinRoute_dotRoute: "isDotRoute p \<Longrightarrow> isDotRoute s \<Longrightarrow> dotRoutePattern_match (joinRoute p s)"
  using normalize_isDotRoute [of p] normalize_isDotRoute [of s] by (simp add: joinRoute_def Let_def dotRoute_join)

lemma dotRoute_is: "dotRoutePattern_match s \<Longrightarrow> isDotRoute s"
  by (simp add: isDotRoute_def)

text \<open>
  The normal forms of routes are a monoid under \<open>joinRoute\<close> with \<open>root\<close> (and the
  empty string, which normalises to it) as unit: joining is associative, so a path registered
  through nested groups is the one registered with the concatenated prefix; and a route that
  passes the syntax check and is not empty is its own normal form, so a request is dispatched
  on exactly the operation name it carries.
\<close>

theorem joinRoute_monoid:
  assumes "isDotRoute a" "isDotRoute b" "isDotRoute c"
  shows "joinRoute (joinRoute a b) c = joinRoute a (joinRoute b c)
    \<and> joinRoute '''' a = normalizeRoute a \<and> joinRoute a '''' = normalizeRoute a
    \<and> (a \<noteq> '''' \<longrightarrow> normalizeRoute a = a) \<and> isDotRoute (joinRoute a b)"
proof -
  note n = assms [THEN normalize_isDotRoute]
  have idem: "normalizeRoute (normalizeRoute x) = normalizeRoute x" if "isDotRoute x" for x
    using normalize_dotRoute [OF normalize_isDotRoute [OF that]] .
  have ab: "normalizeRoute (joinRoute a b) = joinRoute a b" "normalizeRoute (joinRoute b c) = joinRoute b c"
    using assms by (simp_all add: normalize_dotRoute joinRoute_dotRoute)
  have "joinRoute (joinRoute a b) c = joinRoute a (joinRoute b c)"
    using dot_not_root unfolding joinRoute_def [of "joinRoute a b"] joinRoute_def [of a "joinRoute b c"] Let_def ab
    by (auto simp: joinRoute_def Let_def)
  moreover have "a \<noteq> '''' \<longrightarrow> normalizeRoute a = a" using assms(1) by (simp add: isDotRoute_def normalize_dotRoute)
  moreover have "isDotRoute (joinRoute a b)" using assms by (simp add: joinRoute_dotRoute dotRoute_is)
  ultimately show ?thesis by (simp add: joinRoute_def Let_def)
qed

theorem joinRoute_monoid_witness:
  "joinRoute (joinRoute ''account'' ''delete'') ''cancel'' = joinRoute ''account'' (joinRoute ''delete'' ''cancel'')
   \<and> joinRoute ''account'' (joinRoute ''delete'' ''cancel'') = ''account.delete.cancel''"
proof -
  have r: "isDotRoute ''account''" "isDotRoute ''delete''" "isDotRoute ''cancel''" by code_simp+
  have "joinRoute ''account'' (joinRoute ''delete'' ''cancel'') = ''account.delete.cancel''" by code_simp
  then show ?thesis using joinRoute_monoid [OF r] by simp
qed

text \<open>
  Registration files a route under its full path and under no other: afterwards the path
  resolves to the handler with the router's middleware before the route's own, every other
  path resolves as before, and registering the same path again, through any router of the
  tree, panics instead of replacing it. An ill-formed path is refused.
\<close>

theorem register_unique:
  assumes "register r st p mws h tbl = Inr tbl'"
  shows "isDotRoute p \<and> tbl (joinRoute (prefix_of r) p) = None
    \<and> tbl' (joinRoute (prefix_of r) p) = Some \<lparr>streamType = st, path = joinRoute (prefix_of r) p,
         route_middleware = router_middleware r @ mws, handler = h\<rparr>
    \<and> (\<forall>q. q \<noteq> joinRoute (prefix_of r) p \<longrightarrow> tbl' q = tbl q)
    \<and> (\<forall>r2 st2 p2 mws2 h2. joinRoute (prefix_of r2) p2 = joinRoute (prefix_of r) p \<longrightarrow>
         (\<exists>msg. register r2 st2 p2 mws2 h2 tbl' = Inl msg))"
  using assms by (auto simp: register_def Let_def split: if_splits option.splits)

theorem register_unique_witness:
  "\<exists>tbl'. register (\<lparr>prefix_of = '''', router_middleware = [1::nat]\<rparr>) StreamResponse ''ping'' [2] (3::nat) (\<lambda>_. None) = Inr tbl'
     \<and> map_option route_middleware (tbl' ''ping'') = Some [1, 2]"
proof -
  have j: "isDotRoute ''ping''" "joinRoute '''' ''ping'' = ''ping''" by code_simp+
  obtain tbl' where t: "register (\<lparr>prefix_of = '''', router_middleware = [1::nat]\<rparr>) StreamResponse ''ping'' [2] (3::nat) (\<lambda>_. None) = Inr tbl'"
    using j by (simp add: register_def Let_def)
  show ?thesis using register_unique [OF t] t j by auto
qed

end
