(* ===== verification/Handlers.thy ===== *)
theory Handlers
  imports Context Routes
begin

text \<open>
  The request handlers of \<open>src/server/handlers\<close>, the middleware of
  \<open>src/server/middleware\<close>, and the dispatch of \<open>src/server/router\<close>: the
  middleware chain (\<open>BaseContext.Next\<close>), \<open>Router.Handle\<close>, the typed registration
  functions and the route table \<open>src/main.go\<close> builds.

  A handler takes the request and the server and returns its Go error and the server it
  leaves. Where a stream is read, \<open>None\<close> means that the call does not return.
\<close>

section \<open>Handlers\<close>

definition PingHandler :: "codec \<Rightarrow> ResponseContext \<Rightarrow> server \<Rightarrow> goerror option \<times> server" where
  "PingHandler cd c sv = SendStatus cd ErrCodeOK ''pong'' sv"

text \<open>
  The end of the three authentication handlers: \<open>Authenticate\<close> on the session of the
  connection, if there is one, and the response with the token.
\<close>

definition finish_auth ::
    "outside \<Rightarrow> codec \<Rightarrow> ResponseContext \<Rightarrow> AuthResult \<Rightarrow> server \<Rightarrow> goerror option \<times> server" where
  "finish_auth w cd c res sv =
     (let sv1 = (if rc_Session c \<noteq> None
                 then sv\<lparr>sv_registry := Authenticate w (sv_backend sv) (rc_Session c) (a_UserID res) (a_DeviceID res)
                                           (a_DeviceName res) (sv_registry sv)\<rparr>
                 else sv)
      in rc_Send cd ErrCodeOK '''' (mar_Auth cd \<lparr>ar_SessionToken = a_SessionToken res\<rparr>) sv1)"

definition HandleUserRegister ::
    "outside \<Rightarrow> codec \<Rightarrow> ResponseContext \<Rightarrow> server \<Rightarrow> goerror option \<times> server" where
  "HandleUserRegister w cd c sv =
     (case unm_Register cd (rc_Request c) of
        Inl err \<Rightarrow> SendCode cd ErrCodeBadRequest sv
      | Inr req \<Rightarrow>
          (case Register w \<lparr>c_Username = rr_Username req, c_DisplayName = rr_DisplayName req,
                  c_Password = rr_Password req, c_DeviceID = rr_DeviceId req, c_DeviceName = rr_DeviceName req\<rparr>
                (sv_backend sv) of
             (Inl err, b) \<Rightarrow>
               let sv = sv\<lparr>sv_backend := b\<rparr> in
               if errors_is err ErrInvalidUsername then SendStatus cd ErrCodeInvalidParameters ''invalid username'' sv
               else if errors_is err ErrPasswordRequired then SendStatus cd ErrCodeInvalidParameters ''password is required'' sv
               else if errors_is err ErrDeviceIDRequired then SendStatus cd ErrCodeInvalidParameters ''device_id is required'' sv
               else if errors_is err ErrUsernameTaken then SendCode cd ErrCodeUsernameTaken sv
               else SendCode cd ErrCodeInternal sv
           | (Inr res, b) \<Rightarrow> finish_auth w cd c res (sv\<lparr>sv_backend := b\<rparr>)))"

definition HandleUserLoginByCredentials ::
    "outside \<Rightarrow> codec \<Rightarrow> ResponseContext \<Rightarrow> server \<Rightarrow> goerror option \<times> server" where
  "HandleUserLoginByCredentials w cd c sv =
     (case unm_LoginCredentials cd (rc_Request c) of
        Inl err \<Rightarrow> SendCode cd ErrCodeBadRequest sv
      | Inr req \<Rightarrow>
          (case LoginByCredentials w \<lparr>c_Username = lr_Username req, c_DisplayName = '''',
                  c_Password = lr_Password req, c_DeviceID = lr_DeviceId req, c_DeviceName = lr_DeviceName req\<rparr>
                (sv_backend sv) of
             (Inl err, b) \<Rightarrow>
               let sv = sv\<lparr>sv_backend := b\<rparr> in
               if errors_is err ErrDeviceIDRequired then SendStatus cd ErrCodeInvalidParameters ''device_id is required'' sv
               else if errors_is err ErrAccountPendingDeletion then SendStatus cd ErrCodeForbidden ''account pending deletion'' sv
               else if errors_is err ErrInvalidCredentials then SendCode cd ErrCodeInvalidCredentials sv
               else SendCode cd ErrCodeInternal sv
           | (Inr res, b) \<Rightarrow> finish_auth w cd c res (sv\<lparr>sv_backend := b\<rparr>)))"

definition HandleUserLoginByToken ::
    "outside \<Rightarrow> codec \<Rightarrow> ResponseContext \<Rightarrow> server \<Rightarrow> goerror option \<times> server" where
  "HandleUserLoginByToken w cd c sv =
     (case unm_LoginToken cd (rc_Request c) of
        Inl err \<Rightarrow> SendCode cd ErrCodeBadRequest sv
      | Inr req \<Rightarrow>
          (case LoginByToken w (tr_SessionToken req) (sv_backend sv) of
             (Inl err, b) \<Rightarrow>
               let sv = sv\<lparr>sv_backend := b\<rparr> in
               if errors_is err ErrSessionTokenNeeded
               then SendStatus cd ErrCodeInvalidParameters ''session token must be provided'' sv
               else if errors_is err ErrAccountPendingDeletion then SendStatus cd ErrCodeForbidden ''account pending deletion'' sv
               else if errors_is err ErrInvalidToken then SendCode cd ErrCodeInvalidToken sv
               else SendCode cd ErrCodeInternal sv
           | (Inr res, b) \<Rightarrow> finish_auth w cd c res (sv\<lparr>sv_backend := b\<rparr>)))"

definition HandleAccountDelete ::
    "outside \<Rightarrow> codec \<Rightarrow> ResponseContext \<Rightarrow> server \<Rightarrow> goerror option \<times> server" where
  "HandleAccountDelete w cd c sv =
     (case unm_Delete cd (rc_Request c) of
        Inl err \<Rightarrow> SendCode cd ErrCodeBadRequest sv
      | Inr req \<Rightarrow>
          (case ScheduleAccountDeletion w (dr_Username req) (dr_Password req) (sv_backend sv) of
             (Inl err, b) \<Rightarrow>
               let sv = sv\<lparr>sv_backend := b\<rparr> in
               if errors_is err ErrInvalidCredentials then SendCode cd ErrCodeInvalidCredentials sv
               else SendCode cd ErrCodeInternal sv
           | (Inr timestamp, b) \<Rightarrow>
               (case rc_Send cd ErrCodeOK '''' (mar_Delete cd \<lparr>dr_Timestamp = timestamp\<rparr>) (sv\<lparr>sv_backend := b\<rparr>) of
                  (Some err, sv1) \<Rightarrow> (Some err, sv1)
                | (None, sv1) \<Rightarrow>
                    (None, if rc_Session c \<noteq> None
                           then sv1\<lparr>sv_registry := InvalidateUserSessions
                                      (session_UserID (rc_Session c) (sv_registry sv1)) (sv_registry sv1)\<rparr>
                           else sv1))))"

definition HandleAccountDeleteCancel ::
    "outside \<Rightarrow> codec \<Rightarrow> ResponseContext \<Rightarrow> server \<Rightarrow> goerror option \<times> server" where
  "HandleAccountDeleteCancel w cd c sv =
     (case unm_DeleteCancel cd (rc_Request c) of
        Inl err \<Rightarrow> SendCode cd ErrCodeBadRequest sv
      | Inr req \<Rightarrow>
          (case CancelAccountDeletion w (cr_Username req) (cr_Password req) (sv_backend sv) of
             (Inl err, b) \<Rightarrow>
               let sv = sv\<lparr>sv_backend := b\<rparr> in
               if errors_is err ErrInvalidCredentials then SendCode cd ErrCodeInvalidCredentials sv
               else if errors_is err ErrAccountDeletionInProgress
               then SendStatus cd ErrCodeForbidden ''account deletion already started'' sv
               else SendCode cd ErrCodeInternal sv
           | (Inr _, b) \<Rightarrow> SendCode cd ErrCodeOK (sv\<lparr>sv_backend := b\<rparr>)))"

section \<open>The middleware chain\<close>

text \<open>
  An \<open>action\<close> is a Go function of a \<open>*BaseContext\<close>, a \<open>middleware\<close> one that may
  call \<open>c.Next()\<close>, which it gets as its first argument. \<open>Next\<close> increments the index of
  the context, so the depth of nested calls is bounded by the length of the chain; the first
  argument bounds it in the model, and \<open>length chain + 1\<close> is enough.
\<close>

type_synonym action = "BaseContext \<Rightarrow> server \<Rightarrow> (goerror option \<times> BaseContext \<times> server) option"

type_synonym middleware = "action \<Rightarrow> action"

fun Next :: "nat \<Rightarrow> middleware list \<Rightarrow> action option \<Rightarrow> action" where
  "Next 0 chain endpoint c sv = None"
| "Next (Suc n) chain endpoint c sv =
     (let c = c\<lparr>bc_index := bc_index c + 1\<rparr> in
      if bc_index c \<ge> int (length chain)
      then (case endpoint of Some h \<Rightarrow> h c sv | None \<Rightarrow> Some (None, c, sv))
      else (chain ! nat (bc_index c)) (Next n chain endpoint) c sv)"

definition answer :: "BaseContext \<Rightarrow> goerror option \<times> server \<Rightarrow> (goerror option \<times> BaseContext \<times> server) option" where
  "answer c r = Some (fst r, c, snd r)"

definition AuthMiddleware :: "outside \<Rightarrow> codec \<Rightarrow> middleware" where
  "AuthMiddleware w cd nxt c sv =
     (if bc_Session c = None \<or> \<not> IsAuthenticated (bc_Session c) (sv_registry sv)
      then answer c (SendResponse cd ErrCodeUnauthorized '''' None sv)
      else case DefaultDB (b_db (sv_backend sv)) of
          Inl err \<Rightarrow> answer c (SendResponse cd ErrCodeInternal '''' None sv)
        | Inr database \<Rightarrow>
            (case on_db (ExistsActiveByUserID w (session_UserID (bc_Session c) (sv_registry sv))) (sv_backend sv) of
               (Inl err, b) \<Rightarrow> answer c (SendResponse cd ErrCodeInternal '''' None (sv\<lparr>sv_backend := b\<rparr>))
             | (Inr pending, b) \<Rightarrow>
                 if pending then answer c (SendResponse cd ErrCodeUnauthorized '''' None (sv\<lparr>sv_backend := b\<rparr>))
                 else nxt c (sv\<lparr>sv_backend := b\<rparr>)))"

section \<open>Typed routes\<close>

type_synonym router_table = "(middleware, action) route_table"

text \<open>The endpoint a typed registration wraps around a handler: build the context, run the handler on it.\<close>

definition endpoint_of ::
    "(BaseContext \<Rightarrow> 'c result) \<Rightarrow> ('c \<Rightarrow> server \<Rightarrow> (goerror option \<times> server) option) \<Rightarrow> action" where
  "endpoint_of new h base sv =
     (case new base of
        Inl err \<Rightarrow> Some (Some err, base, sv)
      | Inr ctx \<Rightarrow> (case h ctx sv of None \<Rightarrow> None | Some r \<Rightarrow> answer base r))"

definition Response ::
    "string \<Rightarrow> (ResponseContext \<Rightarrow> server \<Rightarrow> goerror option \<times> server) \<Rightarrow> middleware list
      \<Rightarrow> middleware Router \<Rightarrow> router_table \<Rightarrow> string + router_table" where
  "Response p h mw r tbl =
     register r StreamResponse p mw (endpoint_of NewResponseContext (\<lambda>c sv. Some (h c sv))) tbl"

definition ServerUpdates ::
    "codec \<Rightarrow> string \<Rightarrow> (ServerUpdatesContext \<Rightarrow> server \<Rightarrow> (goerror option \<times> server) option) \<Rightarrow> middleware list
      \<Rightarrow> middleware Router \<Rightarrow> router_table \<Rightarrow> string + router_table" where
  "ServerUpdates cd p h mw r tbl =
     register r StreamServerUpdates p mw (endpoint_of (NewServerUpdatesContext cd) h) tbl"

definition ClientUpdates ::
    "codec \<Rightarrow> string \<Rightarrow> (ClientUpdatesContext \<Rightarrow> server \<Rightarrow> (goerror option \<times> server) option) \<Rightarrow> middleware list
      \<Rightarrow> middleware Router \<Rightarrow> router_table \<Rightarrow> string + router_table" where
  "ClientUpdates cd p h mw r tbl =
     register r StreamClientUpdates p mw (endpoint_of (NewClientUpdatesContext cd) h) tbl"

definition ServerTransfer ::
    "codec \<Rightarrow> string \<Rightarrow> (ServerTransferContext \<Rightarrow> server \<Rightarrow> (goerror option \<times> server) option) \<Rightarrow> middleware list
      \<Rightarrow> middleware Router \<Rightarrow> router_table \<Rightarrow> string + router_table" where
  "ServerTransfer cd p h mw r tbl =
     register r StreamServerTransfer p mw (endpoint_of (NewServerTransferContext cd) h) tbl"

definition ClientTransfer ::
    "codec \<Rightarrow> string \<Rightarrow> (ClientTransferContext \<Rightarrow> server \<Rightarrow> (goerror option \<times> server) option) \<Rightarrow> middleware list
      \<Rightarrow> middleware Router \<Rightarrow> router_table \<Rightarrow> string + router_table" where
  "ClientTransfer cd p h mw r tbl =
     register r StreamClientTransfer p mw (endpoint_of (NewClientTransferContext cd) h) tbl"

section \<open>Dispatch\<close>

definition sendErrorResponse :: "codec \<Rightarrow> PPStatusCode \<Rightarrow> string \<Rightarrow> server \<Rightarrow> goerror option \<times> server" where
  "sendErrorResponse cd statusCode message sv =
     (case mar_Response cd \<lparr>rs_StatusCode = status_value statusCode, rs_Message = message, rs_Response = None\<rparr> of
        Inl err \<Rightarrow> (Some err, sv)
      | Inr payload \<Rightarrow> send_data payload sv)"

text \<open>An error of the error response is logged; the stream is closed in any case.\<close>

definition reject_stream :: "codec \<Rightarrow> PPStatusCode \<Rightarrow> string \<Rightarrow> server \<Rightarrow> server" where
  "reject_stream cd statusCode message sv = close_stream (snd (sendErrorResponse cd statusCode message sv))"

definition request_context :: "nat option \<Rightarrow> RequestEnvelope \<Rightarrow> BaseContext" where
  "request_context userSession envelope =
     newBaseContext\<lparr>bc_Session := userSession,
       bc_Bytes := (case re_Request envelope of None \<Rightarrow> [] | Some bytes \<Rightarrow> bytes)\<rparr>"

definition Handle :: "codec \<Rightarrow> router_table \<Rightarrow> nat option \<Rightarrow> server \<Rightarrow> server option" where
  "Handle cd tbl userSession sv =
     (case ReadFrame qread (sv_stream sv) of
        None \<Rightarrow> None
      | Some (Inl err, s) \<Rightarrow> Some (close_stream (sv\<lparr>sv_stream := s\<rparr>))
      | Some (Inr frame, s) \<Rightarrow>
          let sv = sv\<lparr>sv_stream := s\<rparr> in
          (case unm_Request cd (Payload frame) of
             Inl err \<Rightarrow> Some (reject_stream cd ErrCodeBadRequest ''invalid request envelope'' sv)
           | Inr envelope \<Rightarrow>
               let op = TrimSpace (re_Op envelope) in
               if op = '''' then Some (reject_stream cd ErrCodeBadRequest ''route op is required'' sv)
               else if \<not> isDotRoute op then Some (reject_stream cd ErrCodeBadRequest ''invalid route'' sv)
               else (case tbl (normalizeRoute op) of
                   None \<Rightarrow> Some (reject_stream cd ErrCodeNotFound ''route not found'' sv)
                 | Some rt \<Rightarrow>
                     (case Next (length (route_middleware rt) + 1) (route_middleware rt) (Some (handler rt))
                             (request_context userSession envelope) sv of
                        None \<Rightarrow> None
                      | Some (Some err, _, sv') \<Rightarrow>
                          if errors_is err ErrSessionRevoked then Some (close_stream sv')
                          else Some (reject_stream cd ErrCodeInternal ''internal error'' sv')
                      | Some (None, _, sv') \<Rightarrow> Some sv'))))"

section \<open>The routes of the server\<close>

text \<open>Registrations in sequence: the first panic stops the program.\<close>

fun run_setup :: "(router_table \<Rightarrow> string + router_table) list \<Rightarrow> router_table \<Rightarrow> string + router_table" where
  "run_setup [] tbl = Inr tbl"
| "run_setup (f # fs) tbl = (case f tbl of Inl panic \<Rightarrow> Inl panic | Inr tbl' \<Rightarrow> run_setup fs tbl')"

definition setup_routes :: "outside \<Rightarrow> codec \<Rightarrow> string + router_table" where
  "setup_routes w cd =
     (let (r, tbl) = router_New in
      run_setup
        [Response ''ping'' (PingHandler cd) [] r,
         Response ''auth.register'' (HandleUserRegister w cd) [] r,
         Response ''auth.login.credentials'' (HandleUserLoginByCredentials w cd) [] r,
         Response ''auth.login.token'' (HandleUserLoginByToken w cd) [] r,
         Response ''account.delete'' (HandleAccountDelete w cd) [AuthMiddleware w cd] r,
         Response ''account.delete.cancel'' (HandleAccountDeleteCancel w cd) [] r] tbl)"

section \<open>Laws of the chain and the table\<close>

text \<open>
  A middleware is \<open>ordinary\<close> if it is a function of what \<open>Next\<close> does on contexts that
  are at least as far as its own, does not move the index back, and returns if \<open>Next\<close>
  returns there. The index is private to the router, so this is what a middleware can do.
\<close>

definition forward :: "action \<Rightarrow> int \<Rightarrow> bool" where
  "forward f i \<longleftrightarrow> (\<forall>c sv. bc_index c \<ge> i \<longrightarrow> (\<exists>e c' sv'. f c sv = Some (e, c', sv') \<and> bc_index c' \<ge> bc_index c))"

definition ordinary :: "middleware \<Rightarrow> bool" where
  "ordinary m \<longleftrightarrow> (\<forall>f c sv. forward f (bc_index c) \<longrightarrow>
     (\<exists>e c' sv'. m f c sv = Some (e, c', sv') \<and> bc_index c' \<ge> bc_index c)
   \<and> (\<forall>g. (\<forall>c' sv'. bc_index c' \<ge> bc_index c \<longrightarrow> g c' sv' = f c' sv') \<longrightarrow> m g c sv = m f c sv))"

lemma answer_simps [simp]: "answer c r = Some (fst r, c, snd r)"
  by (simp add: answer_def)

lemma ordinary_Auth: "ordinary (AuthMiddleware w cd)"
  by (auto simp: ordinary_def AuthMiddleware_def forward_def split: sum.split prod.split)

lemma Next_forward:
  assumes mw: "\<forall>m\<in>set chain. ordinary m" and ep: "\<And>h. endpoint = Some h \<Longrightarrow> forward h 0"
  shows "\<lbrakk>-1 \<le> i; 0 < n; int (length chain) - i \<le> int n\<rbrakk> \<Longrightarrow> forward (Next n chain endpoint) i"
proof (induction n arbitrary: i)
  case (Suc n)
  have "\<exists>e c' sv'. Next (Suc n) chain endpoint c sv = Some (e, c', sv') \<and> bc_index c' \<ge> bc_index c" if c: "bc_index c \<ge> i" for c sv
  proof (cases "bc_index c + 1 \<ge> int (length chain)")
    case True
    then show ?thesis using ep c Suc.prems(1)
      by (cases endpoint) (force simp: forward_def Let_def)+
  next
    case False
    let ?c = "c\<lparr>bc_index := bc_index c + 1\<rparr>"
    have "forward (Next n chain endpoint) (bc_index ?c)" by (rule Suc.IH) (use False c Suc.prems in simp_all)
    moreover have "ordinary (chain ! nat (bc_index ?c))" using mw False c Suc.prems(1) by simp
    ultimately obtain e c' sv' where "(chain ! nat (bc_index ?c)) (Next n chain endpoint) ?c sv = Some (e, c', sv')"
      "bc_index c' \<ge> bc_index ?c" unfolding ordinary_def by blast
    then show ?thesis using False by (simp add: Let_def)
  qed
  then show ?case by (simp add: forward_def)
qed simp

lemma Next_fuel:
  assumes mw: "\<forall>m\<in>set chain. ordinary m" and ep: "\<And>h. endpoint = Some h \<Longrightarrow> forward h 0"
  shows "\<lbrakk>-1 \<le> bc_index c; 0 < n; int (length chain) - bc_index c \<le> int n\<rbrakk> \<Longrightarrow>
    Next (n + k) chain endpoint c sv = Next n chain endpoint c sv"
proof (induction n arbitrary: c sv)
  case (Suc n)
  show ?case
  proof (cases "bc_index c + 1 \<ge> int (length chain)")
    case True
    then show ?thesis by (simp add: Let_def)
  next
    case False
    let ?c = "c\<lparr>bc_index := bc_index c + 1\<rparr>"
    have "forward (Next n chain endpoint) (bc_index ?c)" by (rule Next_forward [OF mw ep]) (use False Suc.prems in simp_all)
    moreover have "Next (n + k) chain endpoint c' sv' = Next n chain endpoint c' sv'" if "bc_index c' \<ge> bc_index ?c" for c' sv'
      by (rule Suc.IH) (use that False Suc.prems in simp_all)
    moreover have "ordinary (chain ! nat (bc_index ?c))" using mw False Suc.prems(1) by simp
    ultimately have "(chain ! nat (bc_index ?c)) (Next (n + k) chain endpoint) ?c sv = (chain ! nat (bc_index ?c)) (Next n chain endpoint) ?c sv"
      unfolding ordinary_def by blast
    then show ?thesis using False by (simp add: Let_def)
  qed
qed simp

text \<open>The table \<open>setup_routes\<close> builds.\<close>

definition main_routes :: "outside \<Rightarrow> codec \<Rightarrow> (string \<times> middleware list \<times> (ResponseContext \<Rightarrow> server \<Rightarrow> goerror option \<times> server)) list" where
  "main_routes w cd =
     [(''ping'', [], PingHandler cd),
      (''auth.register'', [], HandleUserRegister w cd),
      (''auth.login.credentials'', [], HandleUserLoginByCredentials w cd),
      (''auth.login.token'', [], HandleUserLoginByToken w cd),
      (''account.delete'', [AuthMiddleware w cd], HandleAccountDelete w cd),
      (''account.delete.cancel'', [], HandleAccountDeleteCancel w cd)]"

definition response_route :: "string \<Rightarrow> middleware list \<times> (ResponseContext \<Rightarrow> server \<Rightarrow> goerror option \<times> server) \<Rightarrow> (middleware, action) route" where
  "response_route p mh = \<lparr>streamType = StreamResponse, path = p, route_middleware = fst mh,
     handler = endpoint_of NewResponseContext (\<lambda>c sv. Some (snd mh c sv))\<rparr>"

definition main_table :: "outside \<Rightarrow> codec \<Rightarrow> router_table" where
  "main_table w cd p = map_option (response_route p) (map_of (main_routes w cd) p)"

lemma main_names:
  "isDotRoute ''ping'' \<and> joinRoute '''' ''ping'' = ''ping''"
  "isDotRoute ''auth.register'' \<and> joinRoute '''' ''auth.register'' = ''auth.register''"
  "isDotRoute ''auth.login.credentials'' \<and> joinRoute '''' ''auth.login.credentials'' = ''auth.login.credentials''"
  "isDotRoute ''auth.login.token'' \<and> joinRoute '''' ''auth.login.token'' = ''auth.login.token''"
  "isDotRoute ''account.delete'' \<and> joinRoute '''' ''account.delete'' = ''account.delete''"
  "isDotRoute ''account.delete.cancel'' \<and> joinRoute '''' ''account.delete.cancel'' = ''account.delete.cancel''"
  by code_simp+

lemma run_setup_responses:
  assumes "\<forall>(p, mw, h)\<in>set rs. isDotRoute p \<and> joinRoute '''' p = p" "distinct (map fst rs)" "\<forall>p\<in>fst ` set rs. tbl p = None"
  shows "run_setup (map (\<lambda>(p, mw, h). Response p h mw \<lparr>prefix_of = '''', router_middleware = []\<rparr>) rs) tbl =
    Inr (\<lambda>p. case map_of rs p of Some mh \<Rightarrow> Some (response_route p mh) | None \<Rightarrow> tbl p)"
  using assms
proof (induction rs arbitrary: tbl)
  case (Cons x rs)
  obtain p mw h where x: "x = (p, mw, h)" by (cases x) auto
  let ?tbl = "tbl(p := Some (response_route p (mw, h)))"
  have "run_setup (map (\<lambda>(p, mw, h). Response p h mw \<lparr>prefix_of = '''', router_middleware = []\<rparr>) rs) ?tbl =
      Inr (\<lambda>p. case map_of rs p of Some mh \<Rightarrow> Some (response_route p mh) | None \<Rightarrow> ?tbl p)"
    by (rule Cons.IH) (use Cons.prems x in auto)
  moreover have "map_of rs p = None" using Cons.prems(2) x by (simp add: map_of_eq_None_iff)
  moreover have "Response p h mw \<lparr>prefix_of = '''', router_middleware = []\<rparr> tbl = Inr ?tbl"
    using Cons.prems x by (simp add: Response_def register_def response_route_def)
  ultimately show ?case unfolding x by (auto simp: fun_eq_iff split: option.split)
qed simp

lemma main_table_Some:
  "main_table w cd p = Some rt \<longleftrightarrow> (\<exists>mh. map_of (main_routes w cd) p = Some mh \<and> rt = response_route p mh)"
  by (auto simp: main_table_def)

lemma setup_routes_eq: "setup_routes w cd = Inr (main_table w cd)"
proof -
  let ?r = "\<lparr>prefix_of = '''', router_middleware = []\<rparr> :: middleware Router"
  have "setup_routes w cd = run_setup (map (\<lambda>(p, mw, h). Response p h mw ?r) (main_routes w cd)) (\<lambda>_. None)"
    by (simp add: setup_routes_def router_New_def main_routes_def)
  also have "\<dots> = Inr (\<lambda>p. case map_of (main_routes w cd) p of Some mh \<Rightarrow> Some (response_route p mh) | None \<Rightarrow> None)"
    by (rule run_setup_responses) (simp_all add: main_routes_def main_names)
  finally show ?thesis by (simp add: main_table_def map_option_case fun_eq_iff)
qed

lemma main_lookup:
  "main_table w cd ''ping'' = Some (response_route ''ping'' ([], PingHandler cd))"
  "main_table w cd ''auth.register'' = Some (response_route ''auth.register'' ([], HandleUserRegister w cd))"
  "main_table w cd ''auth.login.credentials'' = Some (response_route ''auth.login.credentials'' ([], HandleUserLoginByCredentials w cd))"
  "main_table w cd ''auth.login.token'' = Some (response_route ''auth.login.token'' ([], HandleUserLoginByToken w cd))"
  "main_table w cd ''account.delete'' = Some (response_route ''account.delete'' ([AuthMiddleware w cd], HandleAccountDelete w cd))"
  "main_table w cd ''account.delete.cancel'' = Some (response_route ''account.delete.cancel'' ([], HandleAccountDeleteCancel w cd))"
  by (simp_all add: main_table_def main_routes_def)

section \<open>Every request is finished\<close>

lemma forward_endpoint: "forward (endpoint_of NewResponseContext (\<lambda>c sv. Some (h c sv))) i"
  by (simp add: forward_def endpoint_of_def NewResponseContext_def)

lemma ordinary_main:
  assumes "main_table w cd p = Some rt"
  shows "\<forall>m\<in>set (route_middleware rt). ordinary m" "forward (handler rt) i"
proof -
  obtain mh where mh: "(p, mh) \<in> set (main_routes w cd)" "rt = response_route p mh"
    using assms by (auto simp: main_table_Some dest: map_of_SomeD)
  show "\<forall>m\<in>set (route_middleware rt). ordinary m"
    using mh by (auto simp: main_routes_def response_route_def ordinary_Auth)
  show "forward (handler rt) i" using mh(2) by (simp add: response_route_def forward_endpoint)
qed

lemma ReadFrame_total: "\<exists>r s'. ReadFrame qread s = Some (r, s')"
proof (cases "s = None \<or> qs_stream (the s) = None")
  case True
  then show ?thesis by (cases s) (auto simp: ReadFrame_def)
next
  case False
  then obtain h q where "s = Some h" "qs_stream h = Some q" by auto
  moreover obtain r q' where "read_frame qread q = Some (r, q')" using read_frame_returns by (metis surj_pair)
  ultimately show ?thesis by (simp add: ReadFrame_def)
qed

lemma main_Next:
  assumes t: "main_table w cd p = Some rt" and i: "bc_index c = -1"
  obtains e c' sv' where
    "Next (length (route_middleware rt) + 1) (route_middleware rt) (Some (handler rt)) c sv = Some (e, c', sv')"
    "\<And>k. Next (length (route_middleware rt) + 1 + k) (route_middleware rt) (Some (handler rt)) c sv = Some (e, c', sv')"
proof -
  let ?mw = "route_middleware rt" and ?n = "length (route_middleware rt) + 1"
  note o = ordinary_main(1) [OF t]
  have e: "forward h 0" if "Some (handler rt) = Some h" for h using that ordinary_main(2) [OF t] by simp
  have "forward (Next ?n ?mw (Some (handler rt))) (-1)" by (rule Next_forward [OF o e]) simp_all
  then obtain e c' sv' where 1: "Next ?n ?mw (Some (handler rt)) c sv = Some (e, c', sv')"
    using i unfolding forward_def by (metis order_refl)
  have "Next (?n + k) ?mw (Some (handler rt)) c sv = Next ?n ?mw (Some (handler rt)) c sv" for k
    by (rule Next_fuel [OF o e]) (simp_all add: i)
  then show thesis using that 1 by simp
qed

lemma request_context_index [simp]: "bc_index (request_context sess e) = -1"
  by (simp add: request_context_def newBaseContext_def)

text \<open>\<open>Handle\<close> after the frame has been read and decoded.\<close>

definition dispatch :: "codec \<Rightarrow> router_table \<Rightarrow> nat option \<Rightarrow> RequestEnvelope \<Rightarrow> server \<Rightarrow> server option" where
  "dispatch cd tbl userSession envelope sv =
     (let op = TrimSpace (re_Op envelope) in
      if op = '''' then Some (reject_stream cd ErrCodeBadRequest ''route op is required'' sv)
      else if \<not> isDotRoute op then Some (reject_stream cd ErrCodeBadRequest ''invalid route'' sv)
      else (case tbl (normalizeRoute op) of
          None \<Rightarrow> Some (reject_stream cd ErrCodeNotFound ''route not found'' sv)
        | Some rt \<Rightarrow>
            (case Next (length (route_middleware rt) + 1) (route_middleware rt) (Some (handler rt))
                    (request_context userSession envelope) sv of
               None \<Rightarrow> None
             | Some (Some err, _, sv') \<Rightarrow>
                 if errors_is err ErrSessionRevoked then Some (close_stream sv')
                 else Some (reject_stream cd ErrCodeInternal ''internal error'' sv')
             | Some (None, _, sv') \<Rightarrow> Some sv')))"

lemma Handle_eq:
  "Handle cd tbl sess sv =
     (case ReadFrame qread (sv_stream sv) of
        None \<Rightarrow> None
      | Some (Inl err, s) \<Rightarrow> Some (close_stream (sv\<lparr>sv_stream := s\<rparr>))
      | Some (Inr frame, s) \<Rightarrow>
          (case unm_Request cd (Payload frame) of
             Inl err \<Rightarrow> Some (reject_stream cd ErrCodeBadRequest ''invalid request envelope'' (sv\<lparr>sv_stream := s\<rparr>))
           | Inr envelope \<Rightarrow> dispatch cd tbl sess envelope (sv\<lparr>sv_stream := s\<rparr>)))"
  unfolding Handle_def dispatch_def Let_def by (rule refl)

lemma dispatch_main_returns: "\<exists>sv'. dispatch cd (main_table w cd) sess e sv = Some sv'"
proof (cases "main_table w cd (normalizeRoute (TrimSpace (re_Op e)))")
  case None
  then show ?thesis by (simp add: dispatch_def Let_def)
next
  case (Some rt)
  obtain er c' sv' where "Next (length (route_middleware rt) + 1) (route_middleware rt) (Some (handler rt))
      (request_context sess e) sv = Some (er, c', sv')"
    by (rule main_Next [OF Some request_context_index]) blast
  then show ?thesis using Some by (simp add: dispatch_def Let_def split: option.split)
qed

text \<open>
  C16. The server finishes every request: whatever bytes arrive on the stream and whatever
  the databases and the protobuf decoder do, \<open>Handle\<close> with the routes \<open>main\<close> registers
  returns, because reading a frame returns and the middleware chain is walked at most once to
  its end; and the bound on the depth of \<open>Next\<close> the model uses is never reached: a larger
  one gives the same result.
\<close>

theorem Handle_returns:
  "\<exists>tbl. setup_routes w cd = Inr tbl \<and> (\<forall>sess sv. \<exists>sv'. Handle cd tbl sess sv = Some sv')
    \<and> (\<forall>p c sv k. case tbl p of None \<Rightarrow> True | Some rt \<Rightarrow>
        (let c0 = c\<lparr>bc_index := -1\<rparr>; n = length (route_middleware rt) + 1 in
         Next n (route_middleware rt) (Some (handler rt)) c0 sv \<noteq> None
         \<and> Next (n + k) (route_middleware rt) (Some (handler rt)) c0 sv
           = Next n (route_middleware rt) (Some (handler rt)) c0 sv))"
proof -
  have "\<exists>sv'. Handle cd (main_table w cd) sess sv = Some sv'" for sess sv
  proof -
    obtain r s where "ReadFrame qread (sv_stream sv) = Some (r, s)" using ReadFrame_total by blast
    then show ?thesis by (simp add: Handle_eq dispatch_main_returns split: sum.split)
  qed
  moreover have "case main_table w cd p of None \<Rightarrow> True | Some rt \<Rightarrow>
        (let c0 = c\<lparr>bc_index := -1\<rparr>; n = length (route_middleware rt) + 1 in
         Next n (route_middleware rt) (Some (handler rt)) c0 sv \<noteq> None
         \<and> Next (n + k) (route_middleware rt) (Some (handler rt)) c0 sv
           = Next n (route_middleware rt) (Some (handler rt)) c0 sv)" for p c sv k
  proof (cases "main_table w cd p")
    case (Some rt)
    show ?thesis
      by (rule main_Next [OF Some, of "c\<lparr>bc_index := -1\<rparr>" sv], simp)
         (simp only: Some option.case Let_def option.distinct simp_thms not_False_eq_True)
  qed simp
  ultimately show ?thesis using setup_routes_eq by blast
qed

end
