(* ===== verification/Requests.thy ===== *)
theory Requests
  imports Handlers
begin

text \<open>
  What a client observes of a whole request: the bytes it sends, \<open>Router.Handle\<close> with
  the routes of \<open>src/main.go\<close>, and the bytes it gets back. The theorems here put the
  transport, the contexts, the router, the middleware, the handlers, the account service and
  the session registry together.
\<close>

section \<open>A request on the wire\<close>

text \<open>A stream on which exactly the frame of a request, and then \<open>rest\<close>, is to be read.\<close>

definition request_arrives :: "server \<Rightarrow> qstream \<Rightarrow> byte list \<Rightarrow> byte list \<Rightarrow> bool" where
  "request_arrives sv q payload rest \<longleftrightarrow> stream_of sv = Some q \<and> reader_ok q \<and> open_stream q
     \<and> rx q = data_frame payload @ rest \<and> length payload < 2 ^ 32"

text \<open>The encoded response envelope of a status code, a message and a body.\<close>

definition encodes :: "codec \<Rightarrow> PPStatusCode \<Rightarrow> string \<Rightarrow> byte list option \<Rightarrow> byte list \<Rightarrow> bool" where
  "encodes cd code message body bytes \<longleftrightarrow>
     mar_Response cd \<lparr>rs_StatusCode = status_value code, rs_Message = message, rs_Response = body\<rparr> = Inr bytes
     \<and> length bytes < 2 ^ 32"

lemma send_sideD: "send_side q' = send_side q \<Longrightarrow> open_stream q' = open_stream q \<and> tx q' = tx q"
  by (auto simp: send_side_def open_stream_def)

lemma put_stream_put [simp]: "put_stream q (put_stream q' sv) = put_stream q sv"
  by (simp add: put_stream_def option.map_comp comp_def)

lemma request_read:
  assumes "request_arrives sv q payload rest"
  obtains q1 f s where "ReadFrame qread (sv_stream sv) = Some (Inr f, s)" "Payload f = payload"
    "sv\<lparr>sv_stream := s\<rparr> = put_stream q1 sv" "send_side q1 = send_side q" "rx q1 = rest" "reader_ok q1"
proof -
  obtain h where h: "sv_stream sv = Some h" "qs_stream h = Some q"
    using assms by (auto simp: request_arrives_def stream_of_def bind_eq_Some_conv)
  obtain f q1 where f: "read_frame qread q = Some (Inr f, q1)" "Payload f = payload" "reader_ok q1" "rx q1 = rest"
    using qchan.read_frame_ok [of q "\<lparr>FrameType = FrameTypeData, Length = 0, Payload = payload\<rparr>" rest] assms
    by (auto simp: request_arrives_def data_frame_def)
  then show thesis
    using that [of f "Some (h\<lparr>qs_stream := Some q1\<rparr>)" q1] h read_frame_send_side [OF f(1)]
    by (simp add: ReadFrame_def put_stream_def)
qed

lemma Handle_arrived:
  assumes "request_arrives sv q payload rest"
  obtains q1 where "send_side q1 = send_side q" "rx q1 = rest" "reader_ok q1"
    "stream_of (put_stream q1 sv) = Some q1" "open_stream q1"
    "\<And>cd tbl sess. Handle cd tbl sess sv = (case unm_Request cd payload of
        Inl err \<Rightarrow> Some (reject_stream cd ErrCodeBadRequest ''invalid request envelope'' (put_stream q1 sv))
      | Inr envelope \<Rightarrow> dispatch cd tbl sess envelope (put_stream q1 sv))"
proof (rule request_read [OF assms])
  fix q1 f s
  assume *: "ReadFrame qread (sv_stream sv) = Some (Inr f, s)" "Payload f = payload"
    "sv\<lparr>sv_stream := s\<rparr> = put_stream q1 sv" "send_side q1 = send_side q" "rx q1 = rest" "reader_ok q1"
  have "stream_of sv = Some q" "open_stream q" using assms by (auto simp: request_arrives_def)
  moreover have "Handle cd tbl sess sv = (case unm_Request cd payload of
        Inl err \<Rightarrow> Some (reject_stream cd ErrCodeBadRequest ''invalid request envelope'' (put_stream q1 sv))
      | Inr envelope \<Rightarrow> dispatch cd tbl sess envelope (put_stream q1 sv))" for cd tbl sess
    using *(1-3) by (simp add: Handle_eq split: sum.split)
  ultimately show thesis using that [of q1] *(4-6) send_sideD [OF *(4)] by simp
qed

lemma close_put_stream: "stream_of sv = Some q \<Longrightarrow> close_stream (put_stream q1 sv) = put_stream (qclose q1) sv"
  by (auto simp: close_stream_def stream_Close_def put_stream_def stream_of_def bind_eq_Some_conv)

lemma reject_open:
  assumes "stream_of sv = Some q" "open_stream q" "encodes cd code msg None bytes"
  shows "reject_stream cd code msg sv = put_stream (q\<lparr>tx := tx q @ data_frame bytes, tx_closed := True\<rparr>) sv"
  using assms by (simp add: reject_stream_def sendErrorResponse_def encodes_def send_data_open close_put_stream qclose_def)

lemma SendResponse_open:
  assumes "stream_of sv = Some q" "open_stream q" "encodes cd code msg body bytes" "response = map_option Inr body"
  shows "SendResponse cd code msg response sv = (None, put_stream (q\<lparr>tx := tx q @ data_frame bytes\<rparr>) sv)"
  using assms by (auto simp: SendResponse_def writeEnvelope_def encodes_def send_data_open split: option.split)

text \<open>
  C23. A request that cannot be dispatched is answered and ended without any effect: an
  envelope that does not decode, a missing operation name and an ill-formed one get status
  1001, an operation that is not registered gets 1002, each as exactly one response frame
  with the message of its case; the stream is closed, and accounts, cache and sessions are as
  before.
\<close>

theorem Handle_rejects:
  assumes req: "request_arrives sv q payload rest"
    and bad: "(\<exists>err. unm_Request cd payload = Inl err) \<and> code = ErrCodeBadRequest \<and> msg = ''invalid request envelope''
      \<or> (\<exists>e. unm_Request cd payload = Inr e \<and>
           (let op = TrimSpace (re_Op e) in
              op = '''' \<and> code = ErrCodeBadRequest \<and> msg = ''route op is required''
            \<or> op \<noteq> '''' \<and> \<not> isDotRoute op \<and> code = ErrCodeBadRequest \<and> msg = ''invalid route''
            \<or> op \<noteq> '''' \<and> isDotRoute op \<and> tbl op = None \<and> code = ErrCodeNotFound \<and> msg = ''route not found''))"
    and enc: "encodes cd code msg None bytes"
  shows "\<exists>q'. Handle cd tbl sess sv = Some (put_stream q' sv) \<and> tx q' = tx q @ data_frame bytes \<and> tx_closed q'
    \<and> rx q' = rest \<and> sv_backend (put_stream q' sv) = sv_backend sv \<and> sv_registry (put_stream q' sv) = sv_registry sv"
proof (rule Handle_arrived [OF req])
  fix q1
  assume q1: "send_side q1 = send_side q" "rx q1 = rest" "stream_of (put_stream q1 sv) = Some q1" "open_stream q1"
    and H: "\<And>cd tbl sess. Handle cd tbl sess sv = (case unm_Request cd payload of
        Inl err \<Rightarrow> Some (reject_stream cd ErrCodeBadRequest ''invalid request envelope'' (put_stream q1 sv))
      | Inr envelope \<Rightarrow> dispatch cd tbl sess envelope (put_stream q1 sv))"
  have norm: "normalizeRoute op = op" if "op \<noteq> ''''" "isDotRoute op" for op
    using that normalize_dotRoute by (simp add: isDotRoute_def)
  have "Handle cd tbl sess sv = Some (reject_stream cd code msg (put_stream q1 sv))"
    using bad norm by (auto simp: H dispatch_def Let_def)
  then show ?thesis using reject_open [OF q1(3,4) enc] q1(2) send_sideD [OF q1(1)]
    by (intro exI [of _ "q1\<lparr>tx := tx q1 @ data_frame bytes, tx_closed := True\<rparr>"]) simp
qed

definition other_op :: codec where
  "other_op = demo_codec\<lparr>unm_Request := (\<lambda>bs. Inr \<lparr>re_Op = string_of_bytes bs, re_Request = None\<rparr>)\<rparr>"

lemma other_op_simps [simp]: "unm_Request other_op bs = Inr \<lparr>re_Op = string_of_bytes bs, re_Request = None\<rparr>"
  "mar_Response other_op e = Inr (PutUint32 (rs_StatusCode e))"
  by (simp_all add: other_op_def demo_codec_def)

lemma demo_server_simps [simp]: "sv_backend (demo_server b g q) = b" "sv_registry (demo_server b g q) = g"
  by (simp_all add: demo_server_def)

lemma demo_request:
  "length payload < 2 ^ 32 \<Longrightarrow>
   request_arrives (demo_server b g (demo_stream (data_frame payload) [(1, None)])) (demo_stream (data_frame payload) [(1, None)]) payload []"
  by (simp add: request_arrives_def open_stream_def reader_ok_def demo_stream_def)

lemma other_encodes: "encodes other_op code msg body (PutUint32 (status_value code))"
  by (simp add: encodes_def PutUint32_def)

theorem Handle_rejects_witness:
  "\<exists>q'. Handle other_op (main_table quiet_outside other_op) None
      (demo_server new_backend empty_registry (demo_stream (data_frame (bytes_of_string ''user.list'')) [(1, None)])) =
      Some (put_stream q' (demo_server new_backend empty_registry (demo_stream (data_frame (bytes_of_string ''user.list'')) [(1, None)])))
    \<and> tx q' = data_frame (PutUint32 1002) \<and> tx_closed q'"
proof -
  let ?p = "bytes_of_string ''user.list''" and ?tbl = "main_table quiet_outside other_op"
  have op: "string_of_bytes ?p = ''user.list''" "TrimSpace ''user.list'' = ''user.list''" "isDotRoute ''user.list''"
    by code_simp+
  have "?tbl ''user.list'' = None" by (simp add: main_table_def main_routes_def)
  then have bad: "(\<exists>err. unm_Request other_op ?p = Inl err) \<and> ErrCodeNotFound = ErrCodeBadRequest \<and> ''route not found'' = ''invalid request envelope''
      \<or> (\<exists>e. unm_Request other_op ?p = Inr e \<and>
           (let op = TrimSpace (re_Op e) in
              op = '''' \<and> ErrCodeNotFound = ErrCodeBadRequest \<and> ''route not found'' = ''route op is required''
            \<or> op \<noteq> '''' \<and> \<not> isDotRoute op \<and> ErrCodeNotFound = ErrCodeBadRequest \<and> ''route not found'' = ''invalid route''
            \<or> op \<noteq> '''' \<and> isDotRoute op \<and> ?tbl op = None \<and> ErrCodeNotFound = ErrCodeNotFound \<and> ''route not found'' = ''route not found''))"
    using op by simp
  have "length ?p < 2 ^ 32" by (simp add: bytes_of_string_def)
  from Handle_rejects [OF demo_request [OF this] bad other_encodes, of None new_backend empty_registry]
  show ?thesis by (auto simp: demo_stream_def)
qed

section \<open>The outcome of a dispatched request\<close>

text \<open>What \<open>Handle\<close> does with the error of the handler.\<close>

definition conclude :: "codec \<Rightarrow> goerror option \<times> server \<Rightarrow> server" where
  "conclude cd r = (case r of
       (None, sv) \<Rightarrow> sv
     | (Some err, sv) \<Rightarrow>
         if errors_is err ErrSessionRevoked then close_stream sv
         else reject_stream cd ErrCodeInternal ''internal error'' sv)"

text \<open>\<open>AuthMiddleware\<close> in front of one response handler.\<close>

definition guarded ::
    "outside \<Rightarrow> codec \<Rightarrow> (ResponseContext \<Rightarrow> server \<Rightarrow> goerror option \<times> server) \<Rightarrow> ResponseContext \<Rightarrow> server \<Rightarrow> goerror option \<times> server" where
  "guarded w cd h c sv =
     (if \<not> IsAuthenticated (rc_Session c) (sv_registry sv) then SendResponse cd ErrCodeUnauthorized '''' None sv
      else case DefaultDB (b_db (sv_backend sv)) of
          Inl err \<Rightarrow> SendResponse cd ErrCodeInternal '''' None sv
        | Inr _ \<Rightarrow>
            (case ExistsActiveByUserID w (session_UserID (rc_Session c) (sv_registry sv)) (b_tables (sv_backend sv)) of
               (Inl err, _) \<Rightarrow> SendResponse cd ErrCodeInternal '''' None sv
             | (Inr pending, _) \<Rightarrow> if pending then SendResponse cd ErrCodeUnauthorized '''' None sv else h c sv))"

definition response_context :: "nat option \<Rightarrow> RequestEnvelope \<Rightarrow> ResponseContext" where
  "response_context sess e = \<lparr>rc_Request = (case re_Request e of None \<Rightarrow> [] | Some bytes \<Rightarrow> bytes), rc_Session = sess\<rparr>"

lemma IsAuthenticated_None [simp]: "\<not> IsAuthenticated None g"
  by (simp add: IsAuthenticated_def)

lemma server_backend_same [simp]: "sv\<lparr>sv_backend := (sv_backend sv)\<lparr>b_tables := b_tables (sv_backend sv)\<rparr>\<rparr> = sv"
  by simp

lemma Next_plain:
  "Next 1 [] (Some (endpoint_of NewResponseContext (\<lambda>c sv. Some (h c sv)))) (request_context sess e) sv =
     Some (fst (h (response_context sess e) sv), request_context sess e\<lparr>bc_index := 0\<rparr>, snd (h (response_context sess e) sv))"
  by (simp add: endpoint_of_def NewResponseContext_def request_context_def newBaseContext_def response_context_def)

lemma Next_guarded:
  "\<exists>c'. Next 2 [AuthMiddleware w cd] (Some (endpoint_of NewResponseContext (\<lambda>c sv. Some (h c sv)))) (request_context sess e) sv =
     Some (fst (guarded w cd h (response_context sess e) sv), c', snd (guarded w cd h (response_context sess e) sv))"
proof -
  obtain r db where ex: "ExistsActiveByUserID w (session_UserID sess (sv_registry sv)) (b_tables (sv_backend sv)) = (r, db)"
    by (meson surj_pair)
  moreover have "db = b_tables (sv_backend sv)"
    using readonly_methods(5) [of w "session_UserID sess (sv_registry sv)" "b_tables (sv_backend sv)"] ex by simp
  ultimately show ?thesis
    by (cases "sess = None"; cases "DefaultDB (b_db (sv_backend sv))"; cases r)
       (auto simp: numeral_2_eq_2 AuthMiddleware_def guarded_def on_db_def endpoint_of_def NewResponseContext_def
         request_context_def newBaseContext_def response_context_def)
qed

lemma dispatch_route:
  assumes "TrimSpace (re_Op e) = p" "p \<noteq> ''''" "isDotRoute p" "map_of (main_routes w cd) p = Some (mw, h)"
  shows "dispatch cd (main_table w cd) sess e sv =
    Some (conclude cd ((if mw = [] then h else guarded w cd h) (response_context sess e) sv))"
proof -
  have n: "normalizeRoute p = p" using assms(2,3) normalize_dotRoute by (simp add: isDotRoute_def)
  have t: "main_table w cd p = Some (response_route p (mw, h))" using assms(4) by (simp add: main_table_def)
  have fin: "dispatch cd (main_table w cd) sess e sv = Some (conclude cd r)"
    if "Next (length mw + 1) mw (Some (endpoint_of NewResponseContext (\<lambda>c sv. Some (h c sv)))) (request_context sess e) sv
        = Some (fst r, c', snd r)" for r c'
    using that assms(1-3) n t
    by (cases r) (auto simp: dispatch_def response_route_def conclude_def split: option.split)
  have "mw = [] \<or> mw = [AuthMiddleware w cd]"
    using assms(4) by (auto simp: main_routes_def split: if_splits)
  then show ?thesis
  proof
    assume "mw = []"
    then show ?thesis using fin [of "h (response_context sess e) sv"] Next_plain [of h sess e sv] by simp
  next
    assume mw: "mw = [AuthMiddleware w cd]"
    obtain c' where "Next 2 mw (Some (endpoint_of NewResponseContext (\<lambda>c sv. Some (h c sv)))) (request_context sess e) sv =
      Some (fst (guarded w cd h (response_context sess e) sv), c', snd (guarded w cd h (response_context sess e) sv))"
      unfolding mw using Next_guarded by blast
    then show ?thesis using fin [of "guarded w cd h (response_context sess e) sv" c'] mw by (simp add: numeral_2_eq_2)
  qed
qed

section \<open>Who may do what\<close>

text \<open>Responses change the stream only.\<close>

lemma send_data_keeps [simp]:
  "sv_backend (snd (send_data bytes sv)) = sv_backend sv" "sv_registry (snd (send_data bytes sv)) = sv_registry sv"
  by (auto simp: send_data_def split: prod.split)

lemma SendResponse_keeps [simp]:
  "sv_backend (snd (SendResponse cd code msg r sv)) = sv_backend sv"
  "sv_registry (snd (SendResponse cd code msg r sv)) = sv_registry sv"
  by (auto simp: SendResponse_def writeEnvelope_def split: option.split sum.split)

lemma Send_keeps [simp]:
  "sv_backend (snd (SendCode cd code sv)) = sv_backend sv" "sv_registry (snd (SendCode cd code sv)) = sv_registry sv"
  "sv_backend (snd (SendStatus cd code msg sv)) = sv_backend sv" "sv_registry (snd (SendStatus cd code msg sv)) = sv_registry sv"
  "sv_backend (snd (rc_Send cd code msg b sv)) = sv_backend sv" "sv_registry (snd (rc_Send cd code msg b sv)) = sv_registry sv"
  by (simp_all add: SendCode_def SendStatus_def rc_Send_def)

lemma close_stream_keeps [simp]: "sv_backend (close_stream sv) = sv_backend sv" "sv_registry (close_stream sv) = sv_registry sv"
  by (simp_all add: close_stream_def stream_Close_def)

lemma reject_keeps [simp]:
  "sv_backend (reject_stream cd code msg sv) = sv_backend sv" "sv_registry (reject_stream cd code msg sv) = sv_registry sv"
  by (auto simp: reject_stream_def sendErrorResponse_def split: sum.split)

lemma conclude_keeps [simp]:
  "sv_backend (conclude cd r) = sv_backend (snd r)" "sv_registry (conclude cd r) = sv_registry (snd r)"
  by (auto simp: conclude_def split: prod.split option.split)

lemma finish_auth_backend [simp]: "sv_backend (snd (finish_auth w cd c res sv)) = sv_backend sv"
  by (simp add: finish_auth_def Let_def)

text \<open>The backend a handler leaves is the one its call of the account service leaves.\<close>

lemma backend_Ping: "sv_backend (snd (PingHandler cd c sv)) = sv_backend sv"
  by (simp add: PingHandler_def)

lemma backend_Register:
  "sv_backend (snd (HandleUserRegister w cd c sv)) = (case unm_Register cd (rc_Request c) of Inl _ \<Rightarrow> sv_backend sv
     | Inr req \<Rightarrow> snd (Register w \<lparr>c_Username = rr_Username req, c_DisplayName = rr_DisplayName req,
         c_Password = rr_Password req, c_DeviceID = rr_DeviceId req, c_DeviceName = rr_DeviceName req\<rparr> (sv_backend sv)))"
  by (simp add: HandleUserRegister_def Let_def split: sum.split prod.split)

lemma backend_LoginByCredentials:
  "sv_backend (snd (HandleUserLoginByCredentials w cd c sv)) = (case unm_LoginCredentials cd (rc_Request c) of Inl _ \<Rightarrow> sv_backend sv
     | Inr req \<Rightarrow> snd (LoginByCredentials w \<lparr>c_Username = lr_Username req, c_DisplayName = '''',
         c_Password = lr_Password req, c_DeviceID = lr_DeviceId req, c_DeviceName = lr_DeviceName req\<rparr> (sv_backend sv)))"
  by (simp add: HandleUserLoginByCredentials_def Let_def split: sum.split prod.split)

lemma backend_LoginByToken:
  "sv_backend (snd (HandleUserLoginByToken w cd c sv)) = (case unm_LoginToken cd (rc_Request c) of Inl _ \<Rightarrow> sv_backend sv
     | Inr req \<Rightarrow> snd (LoginByToken w (tr_SessionToken req) (sv_backend sv)))"
  by (simp add: HandleUserLoginByToken_def Let_def split: sum.split prod.split)

lemma backend_Delete:
  "sv_backend (snd (HandleAccountDelete w cd c sv)) = (case unm_Delete cd (rc_Request c) of Inl _ \<Rightarrow> sv_backend sv
     | Inr req \<Rightarrow> snd (ScheduleAccountDeletion w (dr_Username req) (dr_Password req) (sv_backend sv)))"
proof -
  have "sv_backend (snd (case x of (Some err, sv1) \<Rightarrow> (Some err, sv1) | (None, sv1) \<Rightarrow> (None, f sv1))) = sv_backend (snd x)"
    if "\<And>s. sv_backend (f s) = sv_backend s" for x :: "goerror option \<times> server" and f
    using that by (auto split: prod.split option.split)
  then show ?thesis by (simp add: HandleAccountDelete_def Let_def split: sum.split prod.split)
qed

lemma backend_DeleteCancel:
  "sv_backend (snd (HandleAccountDeleteCancel w cd c sv)) = (case unm_DeleteCancel cd (rc_Request c) of Inl _ \<Rightarrow> sv_backend sv
     | Inr req \<Rightarrow> snd (CancelAccountDeletion w (cr_Username req) (cr_Password req) (sv_backend sv)))"
  by (simp add: HandleAccountDeleteCancel_def Let_def split: sum.split prod.split)

lemmas handler_backends =
  backend_Ping backend_Register backend_LoginByCredentials backend_LoginByToken backend_Delete backend_DeleteCancel

text \<open>Pending deletions under the calls of the account service.\<close>

lemma deletions_UpsertActiveToken [simp]: "deletions (snd (UpsertActiveToken w a b c h db)) = deletions db"
proof -
  have "deletions (snd (sql_upsert_token w u h d n db)) = deletions db" for u d n
    by (auto simp: sql_upsert_token_def Let_def split: option.split)
  then show ?thesis
    by (auto simp: UpsertActiveToken_def Let_def intro!: exchange_keeps [where P = "\<lambda>d. deletions d = deletions db"]
        with_uuid_keeps [where P = "\<lambda>d. deletions d = deletions db"])
qed

lemma deletions_RotateToken [simp]: "deletions (snd (RotateToken w i h db)) = deletions db"
proof -
  obtain r d where s: "sql_rotate_token (pg_now w Q_RotateToken) i h db = (r, d)" by (meson surj_pair)
  then have "deletions d = deletions db" by (auto simp: sql_rotate_token_def split: option.splits if_splits)
  then show ?thesis
    by (cases "db_fault w Q_RotateToken") (auto simp: RotateToken_def s split: sum.split)
qed

lemma deletions_CreateUser [simp]: "deletions (snd (CreateUser w n d h db)) = deletions db"
proof -
  obtain r d' where s: "sql_insert_user w (TrimSpace n) (TrimSpace d) h db = (r, d')" by (meson surj_pair)
  then have "deletions d' = deletions db" by (auto simp: sql_insert_user_def Let_def split: if_splits)
  then show ?thesis
    by (cases "db_fault w Q_CreateUser") (auto simp: CreateUser_def Let_def s split: sum.split)
qed

definition no_more :: "PendingAccountDeletion list \<Rightarrow> tables \<Rightarrow> bool" where
  "no_more ds db \<longleftrightarrow> set (deletions db) \<subseteq> set ds"

lemma no_more_Cancel: "no_more ds db \<Longrightarrow> no_more ds (snd (CancelIfNotStarted w a db))"
proof -
  assume db: "no_more ds db"
  let ?del = "with_uuid w (TrimSpace a)
    (\<lambda>u. exchange (db_fault w Q_CancelDelete) (sql_cancel_deletion u db) db) db"
  have "no_more ds (snd (sql_cancel_deletion u db))" for u using db by (auto simp: no_more_def sql_cancel_deletion_def)
  then have "no_more ds (snd ?del)" using db by (intro with_uuid_keeps [where P = "no_more ds"] exchange_keeps [where P = "no_more ds"])
  then show ?thesis using db
    by (cases ?del) (auto simp: CancelIfNotStarted_def Let_def snd_with_uuid_readonly split: sum.split)
qed

lemma deletions_Upsert:
  assumes "r \<in> set (deletions (snd (UpsertDeletion w i t db)))" "r \<notin> set (deletions db)"
  shows "uuid_text w (TrimSpace i) = Some (p_UserID r)"
proof -
  have "set (deletions (snd (sql_upsert_deletion now u x db))) \<subseteq> set (deletions db) \<union> {r. p_UserID r = u}" for now u x
    by (auto simp: sql_upsert_deletion_def Let_def split: option.splits if_splits)
  then have "r \<in> set (deletions db) \<or> p_UserID r = u" if "uuid_text w (TrimSpace i) = Some u"
      "r \<in> set (deletions (snd (exchange f (sql_upsert_deletion now u x db) db)))" for f now x u
    using that exchange_state [of f "fst (sql_upsert_deletion now u x db)" "snd (sql_upsert_deletion now u x db)" db] by force
  then show ?thesis using assms
    by (auto simp: UpsertDeletion_def Let_def with_uuid_def split: if_splits option.splits)
qed

lemma no_more_account_calls:
  assumes "no_more ds (b_tables b)"
  shows "no_more ds (b_tables (snd (Register w creds b)))" "no_more ds (b_tables (snd (LoginByCredentials w creds b)))"
    "no_more ds (b_tables (snd (LoginByToken w tok b)))" "no_more ds (b_tables (snd (CancelAccountDeletion w n p b)))"
proof -
  note keeps = and_then_keeps [where P = "\<lambda>b. no_more ds (b_tables b)"]
  have calls [simp]: "no_more ds (snd (UpsertActiveToken w i d n h db)) = no_more ds db"
    "no_more ds (snd (RotateToken w t h db)) = no_more ds db" "no_more ds (snd (CreateUser w n d e db)) = no_more ds db" for i d n h t e db
    by (simp_all add: no_more_def)
  have rj: "no_more ds (b_tables s) \<Longrightarrow> no_more ds (b_tables (snd (rejectIfPendingDeletion w i s)))" for i s
    by (auto simp: rejectIfPendingDeletion_def intro!: keeps)
  have vd: "no_more ds (b_tables s) \<Longrightarrow> no_more ds (b_tables (snd (verifyDeleteCredentials w n p s)))" for n p s
    by (auto simp: verifyDeleteCredentials_def Let_def intro!: keeps)
  show "no_more ds (b_tables (snd (Register w creds b)))"
    using assms by (auto simp: Register_def Let_def split: prod.split intro!: keeps)
  show "no_more ds (b_tables (snd (LoginByCredentials w creds b)))"
    using assms by (auto simp: LoginByCredentials_def Let_def split: prod.split intro!: keeps rj)
  show "no_more ds (b_tables (snd (LoginByToken w tok b)))"
    using assms by (auto simp: LoginByToken_def Let_def split: prod.split intro!: keeps rj)
  show "no_more ds (b_tables (snd (CancelAccountDeletion w n p b)))"
    using assms by (auto simp: CancelAccountDeletion_def split: prod.split intro!: keeps vd no_more_Cancel)
qed

lemma Schedule_new_row:
  assumes "r \<in> set (deletions (b_tables (snd (ScheduleAccountDeletion w n p b))))" "r \<notin> set (deletions (b_tables b))"
  obtains user where "verifyDeleteCredentials w n p b = (Inr user, b)" "uuid_text w (TrimSpace (u_ID user)) = Some (p_UserID r)"
proof -
  have vd: "snd (verifyDeleteCredentials w n p b) = b"
  proof -
    have "(\<lambda>b'. b' = b) (snd (verifyDeleteCredentials w n p b))"
      by (auto simp: verifyDeleteCredentials_def Let_def intro!: and_then_keeps [where P = "\<lambda>b'. b' = b"])
    then show ?thesis .
  qed
  obtain d where d: "defaultDeps b = Inr d" using assms by (cases "defaultDeps b") (auto simp: ScheduleAccountDeletion_def)
  obtain v where v: "verifyDeleteCredentials w n p b = (v, b)" using vd by (metis prod.collapse)
  show thesis
  proof (cases v)
    case (Inl err)
    then show thesis using assms d v by (simp add: ScheduleAccountDeletion_def)
  next
    case (Inr user)
    let ?up = "UpsertDeletion w (u_ID user) (go_now w + AccountDeletionDelay) (b_tables b)"
    have "b_tables (snd (ScheduleAccountDeletion w n p b)) = snd ?up"
      using d v Inr by (cases ?up; cases "fst ?up") (auto simp: ScheduleAccountDeletion_def on_db_def)
    then show thesis using that [of user] v Inr deletions_Upsert [of r w] assms by auto
  qed
qed

text \<open>The bytes that arrived on the stream begin with a frame that carries \<open>payload\<close>.\<close>

definition frame_arrived :: "server \<Rightarrow> byte list \<Rightarrow> bool" where
  "frame_arrived sv payload \<longleftrightarrow> (\<exists>q hdr rest. stream_of sv = Some q \<and> rx q = hdr @ payload @ rest
     \<and> length hdr = frameHeaderSize \<and> unat (parse_length hdr) = length payload)"

lemma frame_was_read:
  assumes "ReadFrame qread (sv_stream sv) = Some (Inr f, s)"
  shows "frame_arrived sv (Payload f)"
proof -
  obtain st q q' where s: "sv_stream sv = Some st" "qs_stream st = Some q" "read_frame qread q = Some (Inr f, q')"
    using assms by (auto simp: ReadFrame_def split: option.splits)
  show ?thesis using read_frame_bytes [OF s(3)] s(1,2) by (fastforce simp: frame_arrived_def stream_of_def)
qed

text \<open>The state a request starts from is the one before its frame was read, but for the stream.\<close>

lemma Handle_main_cases:
  assumes "Handle cd (main_table w cd) sess sv = Some sv'"
  obtains (unchanged) "sv_backend sv' = sv_backend sv" "sv_registry sv' = sv_registry sv"
  | (routed) p mw h e sv1 payload where "map_of (main_routes w cd) p = Some (mw, h)" "TrimSpace (re_Op e) = p"
      "sv_backend sv1 = sv_backend sv" "sv_registry sv1 = sv_registry sv"
      "sv' = conclude cd ((if mw = [] then h else guarded w cd h) (response_context sess e) sv1)"
      "frame_arrived sv payload" "unm_Request cd payload = Inr e"
proof -
  obtain r s where rd: "ReadFrame qread (sv_stream sv) = Some (r, s)" using ReadFrame_total by blast
  show thesis
  proof (cases "\<exists>f e. r = Inr f \<and> unm_Request cd (Payload f) = Inr e")
    case False
    then have "sv_backend sv' = sv_backend sv \<and> sv_registry sv' = sv_registry sv"
      using assms rd by (auto simp: Handle_eq split: sum.splits)
    then show thesis by (intro unchanged) auto
  next
    case True
    then obtain f e where f: "r = Inr f" "unm_Request cd (Payload f) = Inr e" by blast
    let ?sv = "sv\<lparr>sv_stream := s\<rparr>" and ?op = "TrimSpace (re_Op e)"
    have d: "dispatch cd (main_table w cd) sess e ?sv = Some sv'" using assms rd f by (simp add: Handle_eq)
    show thesis
    proof (cases "?op \<noteq> '''' \<and> isDotRoute ?op \<and> map_of (main_routes w cd) ?op \<noteq> None")
      case True
      then obtain mw h where r: "map_of (main_routes w cd) ?op = Some (mw, h)" by auto
      show thesis
        using routed [OF r refl, of ?sv "Payload f"] True d dispatch_route [OF refl _ _ r] frame_was_read rd f by simp
    next
      case False
      then have "sv_backend sv' = sv_backend sv \<and> sv_registry sv' = sv_registry sv"
        using d normalize_dotRoute [of ?op]
        by (auto simp: dispatch_def Let_def isDotRoute_def main_table_def split: if_splits option.splits)
      then show thesis by (intro unchanged) auto
    qed
  qed
qed

lemma guarded_cases:
  obtains (refused) code where "guarded w cd h c sv = SendResponse cd code '''' None sv"
  | (passed) "IsAuthenticated (rc_Session c) (sv_registry sv)" "guarded w cd h c sv = h c sv"
      "fst (ExistsActiveByUserID w (session_UserID (rc_Session c) (sv_registry sv)) (b_tables (sv_backend sv))) = Inr False"
proof -
  obtain r db where ex: "ExistsActiveByUserID w (session_UserID (rc_Session c) (sv_registry sv)) (b_tables (sv_backend sv)) = (r, db)"
    by (meson surj_pair)
  show thesis
  proof (cases "IsAuthenticated (rc_Session c) (sv_registry sv) \<and> (\<exists>d. DefaultDB (b_db (sv_backend sv)) = Inr d) \<and> r = Inr False")
    case True
    then show thesis using ex by (intro passed) (auto simp: guarded_def)
  next
    case False
    let ?code = "if IsAuthenticated (rc_Session c) (sv_registry sv) \<and> r \<noteq> Inr True \<or>
      IsAuthenticated (rc_Session c) (sv_registry sv) \<and> (\<exists>e. DefaultDB (b_db (sv_backend sv)) = Inl e) then ErrCodeInternal else ErrCodeUnauthorized"
    have "guarded w cd h c sv = SendResponse cd ?code '''' None sv"
      using False ex by (cases "DefaultDB (b_db (sv_backend sv))"; cases r) (auto simp: guarded_def)
    then show thesis by (rule refused)
  qed
qed

text \<open>
  C19. Nobody schedules the deletion of an account without being logged in and knowing its
  password: whatever request the server handles, and whatever exchanges with the databases
  fail on the way, a pending deletion that was not there before means that the session of the
  connection was authenticated, that no deletion of the session's own account was pending,
  and that the frame on the stream was an \<open>account.delete\<close> request whose body carried the name
  of the account now pending and a password that its record accepts.
\<close>

theorem scheduling_is_authorised:
  assumes tbl: "setup_routes w cd = Inr tbl" and handled: "Handle cd tbl sess sv = Some sv'"
    and new: "r \<in> set (deletions (b_tables (sv_backend sv')))" "r \<notin> set (deletions (b_tables (sv_backend sv)))"
  shows "IsAuthenticated sess (sv_registry sv)
    \<and> fst (ExistsActiveByUserID w (session_UserID sess (sv_registry sv)) (b_tables (sv_backend sv))) = Inr False
    \<and> (\<exists>payload e req user. frame_arrived sv payload \<and> unm_Request cd payload = Inr e
         \<and> TrimSpace (re_Op e) = ''account.delete''
         \<and> unm_Delete cd (case re_Request e of None \<Rightarrow> [] | Some body \<Rightarrow> body) = Inr req \<and> user \<in> set (users (b_tables (sv_backend sv)))
         \<and> u_Username user = NormalizeUsername (lower_table w) (dr_Username req)
         \<and> verifyPassword (argon2_IDKey w) (dr_Password req) (u_PasswordHash user) = Inr True
         \<and> uuid_text w (TrimSpace (u_ID user)) = Some (p_UserID r))"
proof -
  have t: "tbl = main_table w cd" using tbl setup_routes_eq [of w cd] by simp
  from handled [unfolded t] show ?thesis
  proof (cases rule: Handle_main_cases)
    case unchanged
    then show ?thesis using new by simp
  next
    case (routed p mw h e sv1 payload)
    let ?c = "response_context sess e"
    have nm: "no_more (deletions (b_tables (sv_backend sv))) (b_tables (sv_backend sv1))" using routed(3) by (simp add: no_more_def)
    have plain: "no_more (deletions (b_tables (sv_backend sv))) (b_tables (sv_backend (snd (h ?c sv1))))"
      if "p \<noteq> ''account.delete''"
      using that routed(1) nm no_more_account_calls [OF nm]
      by (auto simp: main_routes_def handler_backends split: if_splits sum.split)
    have "mw = [] \<longleftrightarrow> p \<noteq> ''account.delete''" using routed(1) by (auto simp: main_routes_def split: if_splits)
    then have p: "p = ''account.delete''" using plain new routed(5) by (auto simp: no_more_def split: if_splits)
    then have mh: "mw \<noteq> []" "h = HandleAccountDelete w cd" using routed(1) by (auto simp: main_routes_def)
    show ?thesis
    proof (cases rule: guarded_cases [of w cd h ?c sv1])
      case (refused code)
      then show ?thesis using new routed(3,5) mh by simp
    next
      case passed
      have b: "sv_backend sv' = sv_backend (snd (HandleAccountDelete w cd ?c sv1))" using passed(2) routed(5) mh by simp
      obtain req where req: "unm_Delete cd (rc_Request ?c) = Inr req"
        and r': "r \<in> set (deletions (b_tables (snd (ScheduleAccountDeletion w (dr_Username req) (dr_Password req) (sv_backend sv)))))"
        using new b routed(3) by (auto simp: backend_Delete split: sum.splits)
      obtain user where u: "verifyDeleteCredentials w (dr_Username req) (dr_Password req) (sv_backend sv) = (Inr user, sv_backend sv)"
        "uuid_text w (TrimSpace (u_ID user)) = Some (p_UserID r)"
        by (rule Schedule_new_row [OF r' new(2)])
      note v = verifyDeleteCredentials_InrD [OF u(1)]
      have "user \<in> set (users (b_tables (sv_backend sv)))" "u_Username user = NormalizeUsername (lower_table w) (dr_Username req)"
        using lookup_by_SomeD [OF v(4)] by auto
      then show ?thesis using passed(1,3) req v(5) u(2) routed(2,3,4,6,7) p by (auto simp: response_context_def)
    qed
  qed
qed

section \<open>Deleting an account\<close>

text \<open>The six operation names.\<close>

lemma delete_op: "''account.delete'' \<noteq> ''''" "isDotRoute ''account.delete''"
  "map_of (main_routes w cd) ''account.delete'' = Some ([AuthMiddleware w cd], HandleAccountDelete w cd)"
  using main_names by (simp_all add: main_routes_def)

text \<open>
  C20. The deletion route answers 2001 and does nothing else for a connection that is not
  logged in, for one whose session has been revoked, and for a logged-in user whose account
  already awaits deletion: one response frame, the stream left open, and accounts, cache and
  sessions exactly as before.
\<close>

theorem account_delete_refused:
  assumes tbl: "setup_routes w cd = Inr tbl" and req: "request_arrives sv q payload rest"
    and env: "unm_Request cd payload = Inr e" "TrimSpace (re_Op e) = ''account.delete''"
    and who: "\<not> IsAuthenticated sess (sv_registry sv)
      \<or> db_live w \<and> defaultDB (b_db (sv_backend sv)) \<noteq> None \<and> good_id (session_UserID sess (sv_registry sv))
        \<and> (\<exists>u. uuid_text w (session_UserID sess (sv_registry sv)) = Some u
             \<and> u \<in> p_UserID ` set (deletions (b_tables (sv_backend sv))))"
    and enc: "encodes cd ErrCodeUnauthorized '''' None bytes"
  shows "\<exists>q'. Handle cd tbl sess sv = Some (put_stream q' sv) \<and> tx q' = tx q @ data_frame bytes
    \<and> \<not> tx_closed q' \<and> rx q' = rest"
proof (rule Handle_arrived [OF req])
  fix q1
  assume q1: "send_side q1 = send_side q" "rx q1 = rest" "stream_of (put_stream q1 sv) = Some q1" "open_stream q1"
    and H: "\<And>cd tbl sess. Handle cd tbl sess sv = (case unm_Request cd payload of
        Inl err \<Rightarrow> Some (reject_stream cd ErrCodeBadRequest ''invalid request envelope'' (put_stream q1 sv))
      | Inr envelope \<Rightarrow> dispatch cd tbl sess envelope (put_stream q1 sv))"
  have t: "tbl = main_table w cd" using tbl setup_routes_eq [of w cd] by simp
  have "guarded w cd h (response_context sess e) (put_stream q1 sv) = SendResponse cd ErrCodeUnauthorized '''' None (put_stream q1 sv)" for h
  proof (cases "IsAuthenticated sess (sv_registry sv)")
    case True
    then show ?thesis using who
      by (auto simp: guarded_def response_context_def DefaultDB_def ExistsActiveByUserID_live lookup_by_None_iff)
  qed (simp add: guarded_def response_context_def)
  moreover have "SendResponse cd ErrCodeUnauthorized '''' None (put_stream q1 sv)
      = (None, put_stream (q1\<lparr>tx := tx q1 @ data_frame bytes\<rparr>) sv)"
    using SendResponse_open [OF q1(3,4) enc, of None] by simp
  ultimately have "Handle cd tbl sess sv = Some (put_stream (q1\<lparr>tx := tx q1 @ data_frame bytes\<rparr>) sv)"
    using env by (simp add: H t dispatch_route [OF env(2) delete_op] conclude_def)
  then show ?thesis using q1 send_sideD [OF q1(1)]
    by (intro exI [of _ "q1\<lparr>tx := tx q1 @ data_frame bytes\<rparr>"]) (simp add: open_stream_def)
qed

theorem account_delete_refused_witness:
  "\<exists>q'. Handle other_op (main_table quiet_outside other_op) (Some 0)
      (demo_server new_backend two_sessions (demo_stream (data_frame (bytes_of_string ''account.delete'')) [(1, None)])) =
      Some (put_stream q' (demo_server new_backend two_sessions (demo_stream (data_frame (bytes_of_string ''account.delete'')) [(1, None)])))
    \<and> tx q' = data_frame (PutUint32 2001)"
proof -
  let ?p = "bytes_of_string ''account.delete''"
  have op: "TrimSpace (string_of_bytes ?p) = ''account.delete''" by code_simp
  have l: "length ?p < 2 ^ 32" by (simp add: bytes_of_string_def)
  have "\<not> IsAuthenticated (Some 0) two_sessions" by code_simp
  then show ?thesis
    using account_delete_refused [where sess = "Some 0" and w = quiet_outside and cd = other_op, OF setup_routes_eq
        demo_request [OF l] other_op_simps(1) _ _ other_encodes] op
    by (auto simp: demo_server_def demo_stream_def)
qed

lemma delete_request:
  assumes req: "request_arrives sv q payload rest"
    and env: "unm_Request cd payload = Inr e" "TrimSpace (re_Op e) = ''account.delete''"
      "unm_Delete cd (rc_Request (response_context sess e)) = Inr req"
    and auth: "IsAuthenticated sess (sv_registry sv)" "defaultDB (b_db (sv_backend sv)) \<noteq> None"
      "fst (ExistsActiveByUserID w (session_UserID sess (sv_registry sv)) (b_tables (sv_backend sv))) = Inr False"
    and sch: "ScheduleAccountDeletion w (dr_Username req) (dr_Password req) (sv_backend sv) = (Inr ts, b')"
    and body: "mar_Delete cd \<lparr>dr_Timestamp = ts\<rparr> = Inr body" and enc: "encodes cd ErrCodeOK '''' (Some body) bytes"
  obtains q' where "Handle cd (main_table w cd) sess sv = Some (put_stream q' (sv\<lparr>sv_backend := b',
      sv_registry := InvalidateUserSessions (session_UserID sess (sv_registry sv)) (sv_registry sv)\<rparr>))"
    "tx q' = tx q @ data_frame bytes" "\<not> tx_closed q'" "rx q' = rest"
proof (rule Handle_arrived [OF req])
  fix q1
  assume q1: "send_side q1 = send_side q" "rx q1 = rest" "stream_of (put_stream q1 sv) = Some q1" "open_stream q1"
    and H: "\<And>cd tbl sess. Handle cd tbl sess sv = (case unm_Request cd payload of
        Inl err \<Rightarrow> Some (reject_stream cd ErrCodeBadRequest ''invalid request envelope'' (put_stream q1 sv))
      | Inr envelope \<Rightarrow> dispatch cd tbl sess envelope (put_stream q1 sv))"
  let ?c = "response_context sess e" and ?sv1 = "put_stream q1 sv" and ?q2 = "q1\<lparr>tx := tx q1 @ data_frame bytes\<rparr>"
  have s: "rc_Session ?c = sess" by (simp add: response_context_def)
  have ne: "sess \<noteq> None" using auth(1) by (metis IsAuthenticated_None)
  have "guarded w cd h ?c ?sv1 = h ?c ?sv1" for h
    using auth by (auto simp: guarded_def s DefaultDB_def split: prod.splits)
  moreover have st: "stream_of (?sv1\<lparr>sv_backend := b'\<rparr>) = Some q1" using q1(3) by (simp add: stream_of_def)
  have "HandleAccountDelete w cd ?c ?sv1 = (None, put_stream ?q2 (sv\<lparr>sv_backend := b',
      sv_registry := InvalidateUserSessions (session_UserID sess (sv_registry sv)) (sv_registry sv)\<rparr>))"
    using env(3) sch body ne SendResponse_open [OF st q1(4) enc, of "Some (Inr body)"]
    by (simp add: HandleAccountDelete_def rc_Send_def s) (cases sv, simp add: put_stream_def option.map_comp comp_def)
  ultimately have "Handle cd (main_table w cd) sess sv = Some (put_stream ?q2 (sv\<lparr>sv_backend := b',
      sv_registry := InvalidateUserSessions (session_UserID sess (sv_registry sv)) (sv_registry sv)\<rparr>))"
    using env by (simp add: H dispatch_route [OF env(2) delete_op] conclude_def)
  then show thesis using that [of ?q2] q1 send_sideD [OF q1(1)] by (simp add: open_stream_def)
qed

lemma Schedule_row:
  assumes "ScheduleAccountDeletion w n p b = (Inr ts, b')"
  obtains user row where "lookup_by u_Username (NormalizeUsername (lower_table w) n) (users (b_tables b)) = Some user"
    "row \<in> set (deletions (b_tables b'))" "uuid_text w (TrimSpace (u_ID user)) = Some (p_UserID row)"
proof -
  obtain user row db' where ver: "verifyDeleteCredentials w n p b = (Inr user, b)"
    and ups: "UpsertDeletion w (u_ID user) (go_now w + AccountDeletionDelay) (b_tables b) = (Inr row, db')"
    and b': "b' = b\<lparr>b_tables := db'\<rparr>"
    using assms by (auto simp: ScheduleAccountDeletion_def run_simps Let_def dest: verifyDeleteCredentials_InrD(1))
  have "row \<in> set (deletions (b_tables b'))" "uuid_text w (TrimSpace (u_ID user)) = Some (p_UserID row)"
    using ups by (auto elim!: UpsertDeletion_InrD simp: b' sql_upsert_deletion_rows)
  then show thesis using that verifyDeleteCredentials_InrD(4) [OF ver] by blast
qed

text \<open>
  C21. A deletion request of a logged-in connection with valid credentials is carried out and
  acknowledged: the account named in the request now has a pending deletion (the connection's
  own account or another one), one response with status 0 and the encoded deadline is sent,
  the stream stays open, and the sessions registered for the user of the connection are
  revoked and logged out; every other session, also one of the account to be deleted if that
  is a different one, is unchanged.
\<close>

theorem account_delete_effect:
  assumes tbl: "setup_routes w cd = Inr tbl" and req: "request_arrives sv q payload rest"
    and env: "unm_Request cd payload = Inr e" "TrimSpace (re_Op e) = ''account.delete''"
      "unm_Delete cd (rc_Request (response_context sess e)) = Inr req"
    and auth: "IsAuthenticated sess (sv_registry sv)" "defaultDB (b_db (sv_backend sv)) \<noteq> None"
      "fst (ExistsActiveByUserID w (session_UserID sess (sv_registry sv)) (b_tables (sv_backend sv))) = Inr False"
    and reg: "registry_ok (sv_registry sv)" "good_id (session_UserID sess (sv_registry sv))"
    and sch: "ScheduleAccountDeletion w (dr_Username req) (dr_Password req) (sv_backend sv) = (Inr ts, b')"
    and body: "mar_Delete cd \<lparr>dr_Timestamp = ts\<rparr> = Inr body" and enc: "encodes cd ErrCodeOK '''' (Some body) bytes"
  shows "\<exists>sv' q'. Handle cd tbl sess sv = Some sv' \<and> stream_of sv' = Some q' \<and> tx q' = tx q @ data_frame bytes \<and> \<not> tx_closed q'
    \<and> sv_backend sv' = b'
    \<and> (\<exists>user r. lookup_by u_Username (NormalizeUsername (lower_table w) (dr_Username req)) (users (b_tables (sv_backend sv))) = Some user
         \<and> r \<in> set (deletions (b_tables b')) \<and> uuid_text w (TrimSpace (u_ID user)) = Some (p_UserID r))
    \<and> (\<forall>a\<in>registered (sv_registry sv) (session_UserID sess (sv_registry sv)).
         IsRevoked (Some a) (sv_registry sv') \<and> \<not> IsAuthenticated (Some a) (sv_registry sv'))
    \<and> (\<forall>a. a \<notin> registered (sv_registry sv) (session_UserID sess (sv_registry sv)) \<longrightarrow>
         sessions (sv_registry sv') a = sessions (sv_registry sv) a)"
proof (rule delete_request [OF req env auth sch body enc])
  fix q'
  let ?u = "session_UserID sess (sv_registry sv)"
  let ?sv' = "put_stream q' (sv\<lparr>sv_backend := b', sv_registry := InvalidateUserSessions ?u (sv_registry sv)\<rparr>)"
  assume H: "Handle cd (main_table w cd) sess sv = Some ?sv'" and q': "tx q' = tx q @ data_frame bytes" "\<not> tx_closed q'"
  have t: "tbl = main_table w cd" using tbl setup_routes_eq [of w cd] by simp
  have u: "TrimSpace ?u = ?u" "TrimSpace ?u \<noteq> ''''" using reg(2) by (simp_all add: good_id_def)
  note inv = invalidated [OF reg(1) u(2) refl, unfolded u(1)]
  have st: "stream_of ?sv' = Some q'"
    using req by (auto simp: request_arrives_def stream_of_def bind_eq_Some_conv put_stream_def)
  obtain user row where "lookup_by u_Username (NormalizeUsername (lower_table w) (dr_Username req)) (users (b_tables (sv_backend sv))) = Some user"
    "row \<in> set (deletions (b_tables b'))" "uuid_text w (TrimSpace (u_ID user)) = Some (p_UserID row)"
    by (rule Schedule_row [OF sch])
  then show ?thesis using H st q' inv
    by (intro exI [of _ ?sv'] exI [of _ q']) (auto simp: t)
qed

text \<open>Alice, registered and logged in on a connection, asks for the deletion of her account.\<close>

definition alice_session :: registry where
  "alice_session = Authenticate quiet_outside alice_backend (Some 0) ''u1'' ''phone'' ''Pixel'' two_sessions"

lemma alice_session_ok:
  "registry_ok alice_session" "IsAuthenticated (Some 0) alice_session" "session_UserID (Some 0) alice_session = ''u1''"
  "registered alice_session ''u1'' = {0}"
proof -
  note e = Authenticate_effect [OF two_sessions_ok(1,2) _ _ _ alice_session_def, unfolded alice_name(5,6)]
  have k: "''u1'' \<noteq> ''''" "''phone'' \<noteq> ''''" "user_known quiet_outside alice_backend two_sessions ''u1''"
    using alice_known by simp_all
  show "registry_ok alice_session" by (rule e(1) [OF k])
  obtain s where "sessions alice_session 0 = Some s" "s_userID s = ''u1''" "s_deviceID s = ''phone''" using e(2) [OF k] by blast
  then show "IsAuthenticated (Some 0) alice_session" "session_UserID (Some 0) alice_session = ''u1''"
    by (simp_all add: IsAuthenticated_def session_UserID_def)
  show "registered alice_session ''u1'' = {0}"
    using e(5) [OF k] two_sessions_ok(4) [of "''u1''"] by (simp add: registered_def set_device_def)
qed

lemma other_op_delete [simp]:
  "unm_Delete other_op bs = Inr \<lparr>dr_Username = ''Alice'', dr_Password = ''secret''\<rparr>" "mar_Delete other_op r = Inr [0]"
  by (simp_all add: other_op_def demo_codec_def)

lemma alice_can_delete:
  obtains b ts b' where "ScheduleAccountDeletion quiet_outside ''Alice'' ''secret'' b = (Inr ts, b')"
    "defaultDB (b_db b) \<noteq> None" "fst (ExistsActiveByUserID quiet_outside ''u1'' (b_tables b)) = Inr False"
    "deletions (b_tables b) = []"
proof (rule schedule_registered_alice)
  fix b ts b1
  assume s: "ScheduleAccountDeletion quiet_outside (c_Username alice_creds) (c_Password alice_creds) b = (Inr ts, b1)"
    and up: "backend_up quiet_outside b" and b: "b = snd (Register quiet_outside alice_creds new_backend)"
  have none: "deletions (b_tables b) = []"
    using no_more_account_calls(1) [of "[]" new_backend quiet_outside alice_creds] b
    by (simp add: no_more_def new_backend_def empty_db_def)
  have "good_id ''u1''" by code_simp
  moreover have "uuid_text quiet_outside ''u1'' = Some ''u1''" by (simp add: quiet_outside_def)
  ultimately have "fst (ExistsActiveByUserID quiet_outside ''u1'' (b_tables b)) = Inr False"
    using up none by (simp add: ExistsActiveByUserID_live backend_up_def lookup_by_def)
  then show thesis using that s up none by (simp add: backend_up_def alice_creds_def)
qed

definition delete_bytes :: "byte list" where
  "delete_bytes = bytes_of_string ''account.delete''"

lemma delete_bytes_op: "TrimSpace (re_Op \<lparr>re_Op = string_of_bytes delete_bytes, re_Request = None\<rparr>) = ''account.delete''"
  by code_simp

lemma delete_bytes_arrive:
  "request_arrives (demo_server b g (demo_stream (data_frame delete_bytes) [(1, None)])) (demo_stream (data_frame delete_bytes) [(1, None)])
     delete_bytes []"
  by (rule demo_request) (simp add: delete_bytes_def bytes_of_string_def)

theorem account_delete_effect_witness:
  "\<exists>b sv'. Handle other_op (main_table quiet_outside other_op) (Some 0)
        (demo_server b alice_session (demo_stream (data_frame delete_bytes) [(1, None)])) = Some sv'
     \<and> deletions (b_tables (sv_backend sv')) \<noteq> [] \<and> IsRevoked (Some 0) (sv_registry sv')"
proof (rule alice_can_delete)
  fix b ts b'
  assume s: "ScheduleAccountDeletion quiet_outside ''Alice'' ''secret'' b = (Inr ts, b')" "defaultDB (b_db b) \<noteq> None"
    "fst (ExistsActiveByUserID quiet_outside ''u1'' (b_tables b)) = Inr False"
  have g: "good_id ''u1''" by code_simp
  let ?sv = "demo_server b alice_session (demo_stream (data_frame delete_bytes) [(1, None)])"
  note eff = account_delete_effect [OF setup_routes_eq delete_bytes_arrive [of b alice_session] other_op_simps(1) delete_bytes_op
      other_op_delete(1) _ _ _ _ _ _ other_op_delete(2) other_encodes, of "Some 0" quiet_outside ts b',
      unfolded demo_server_simps alice_session_ok(3,4) AccountDeleteRequest.simps]
  show ?thesis using eff [OF alice_session_ok(2) s(2,3) alice_session_ok(1) g s(1)] by fastforce
qed

theorem scheduling_is_authorised_witness:
  "\<exists>b sv' r. Handle other_op (main_table quiet_outside other_op) (Some 0)
        (demo_server b alice_session (demo_stream (data_frame delete_bytes) [(1, None)])) = Some sv'
     \<and> r \<in> set (deletions (b_tables (sv_backend sv')))
     \<and> (\<exists>user. user \<in> set (users (b_tables b)) \<and> uuid_text quiet_outside (TrimSpace (u_ID user)) = Some (p_UserID r))"
proof (rule alice_can_delete)
  fix b ts b'
  assume s: "ScheduleAccountDeletion quiet_outside ''Alice'' ''secret'' b = (Inr ts, b')" "defaultDB (b_db b) \<noteq> None"
    "fst (ExistsActiveByUserID quiet_outside ''u1'' (b_tables b)) = Inr False" "deletions (b_tables b) = []"
  let ?sv = "demo_server b alice_session (demo_stream (data_frame delete_bytes) [(1, None)])"
  obtain q' where h: "Handle other_op (main_table quiet_outside other_op) (Some 0) ?sv = Some (put_stream q' (?sv\<lparr>sv_backend := b',
      sv_registry := InvalidateUserSessions (session_UserID (Some 0) (sv_registry ?sv)) (sv_registry ?sv)\<rparr>))"
    by (rule delete_request [OF delete_bytes_arrive [of b alice_session] other_op_simps(1) delete_bytes_op other_op_delete(1)
          _ _ _ _ other_op_delete(2) other_encodes, of "Some 0" quiet_outside ts b'])
       (use s alice_session_ok in simp_all)
  obtain r where r: "r \<in> set (deletions (b_tables b'))" by (rule Schedule_row [OF s(1)])
  then have "\<exists>user. user \<in> set (users (b_tables b)) \<and> uuid_text quiet_outside (TrimSpace (u_ID user)) = Some (p_UserID r)"
    using scheduling_is_authorised [OF setup_routes_eq h, of r] s(4) by auto
  moreover have "r \<in> set (deletions (b_tables (sv_backend (put_stream q' (?sv\<lparr>sv_backend := b', sv_registry := g\<rparr>)))))" for g
    using r by simp
  ultimately show ?thesis using h by blast
qed

section \<open>Logging a connection in\<close>

lemma auth_ops:
  "''auth.register'' \<noteq> ''''" "isDotRoute ''auth.register''"
  "map_of (main_routes w cd) ''auth.register'' = Some ([], HandleUserRegister w cd)"
  "''auth.login.credentials'' \<noteq> ''''" "isDotRoute ''auth.login.credentials''"
  "map_of (main_routes w cd) ''auth.login.credentials'' = Some ([], HandleUserLoginByCredentials w cd)"
  "''auth.login.token'' \<noteq> ''''" "isDotRoute ''auth.login.token''"
  "map_of (main_routes w cd) ''auth.login.token'' = Some ([], HandleUserLoginByToken w cd)"
  using main_names by (simp_all add: main_routes_def)

text \<open>The call of the account service that a login request makes, and its result.\<close>

definition login_call :: "outside \<Rightarrow> codec \<Rightarrow> string \<Rightarrow> byte list \<Rightarrow> backend \<Rightarrow> AuthResult \<Rightarrow> backend \<Rightarrow> bool" where
  "login_call w cd op bytes b res b' \<longleftrightarrow>
     op = ''auth.register'' \<and> (\<exists>req. unm_Register cd bytes = Inr req \<and>
       Register w \<lparr>c_Username = rr_Username req, c_DisplayName = rr_DisplayName req, c_Password = rr_Password req,
         c_DeviceID = rr_DeviceId req, c_DeviceName = rr_DeviceName req\<rparr> b = (Inr res, b'))
   \<or> op = ''auth.login.credentials'' \<and> (\<exists>req. unm_LoginCredentials cd bytes = Inr req \<and>
       LoginByCredentials w \<lparr>c_Username = lr_Username req, c_DisplayName = '''', c_Password = lr_Password req,
         c_DeviceID = lr_DeviceId req, c_DeviceName = lr_DeviceName req\<rparr> b = (Inr res, b'))
   \<or> op = ''auth.login.token'' \<and> (\<exists>req. unm_LoginToken cd bytes = Inr req \<and> LoginByToken w (tr_SessionToken req) b = (Inr res, b'))"

lemma login_dispatch:
  assumes call: "login_call w cd op (rc_Request (response_context sess e)) (sv_backend sv) res b'" and op: "TrimSpace (re_Op e) = op"
  shows "dispatch cd (main_table w cd) sess e sv =
    Some (conclude cd (finish_auth w cd (response_context sess e) res (sv\<lparr>sv_backend := b'\<rparr>)))"
  using call unfolding login_call_def
proof (elim disjE conjE exE)
  fix req assume "op = ''auth.register''"
    and r: "unm_Register cd (rc_Request (response_context sess e)) = Inr req"
      "Register w \<lparr>c_Username = rr_Username req, c_DisplayName = rr_DisplayName req, c_Password = rr_Password req,
         c_DeviceID = rr_DeviceId req, c_DeviceName = rr_DeviceName req\<rparr> (sv_backend sv) = (Inr res, b')"
  then have o: "TrimSpace (re_Op e) = ''auth.register''" using op by simp
  show ?thesis using r by (simp add: dispatch_route [OF o auth_ops(1-3)] HandleUserRegister_def)
next
  fix req assume "op = ''auth.login.credentials''"
    and r: "unm_LoginCredentials cd (rc_Request (response_context sess e)) = Inr req"
      "LoginByCredentials w \<lparr>c_Username = lr_Username req, c_DisplayName = '''', c_Password = lr_Password req,
         c_DeviceID = lr_DeviceId req, c_DeviceName = lr_DeviceName req\<rparr> (sv_backend sv) = (Inr res, b')"
  then have o: "TrimSpace (re_Op e) = ''auth.login.credentials''" using op by simp
  show ?thesis using r by (simp add: dispatch_route [OF o auth_ops(4-6)] HandleUserLoginByCredentials_def)
next
  fix req assume "op = ''auth.login.token''"
    and r: "unm_LoginToken cd (rc_Request (response_context sess e)) = Inr req"
      "LoginByToken w (tr_SessionToken req) (sv_backend sv) = (Inr res, b')"
  then have o: "TrimSpace (re_Op e) = ''auth.login.token''" using op by simp
  show ?thesis using r by (simp add: dispatch_route [OF o auth_ops(7-9)] HandleUserLoginByToken_def)
qed

text \<open>A session whose user the database does not find (or cannot look up) is logged in but not registered.\<close>

lemma Authenticate_unknown:
  assumes "TrimSpace u \<noteq> ''''" "TrimSpace d \<noteq> ''''" "\<not> user_known w b g (TrimSpace u)"
  shows "Authenticate w b (Some a) u d n g = auth_fields a (TrimSpace u) (TrimSpace d) (TrimSpace n) g"
proof -
  let ?g = "auth_fields a (TrimSpace u) (TrimSpace d) (TrimSpace n) g"
  have "userStates ?g = userStates g"
    by (auto simp: auth_fields_def Let_def put_session_def make_chan_def split: option.split)
  then have "auth_state w b (TrimSpace u) ?g = (None, ?g)"
    using assms(3) by (auto simp: user_known_def auth_state_def DefaultDB_def split: option.splits sum.splits prod.splits)
  then show ?thesis using assms(1,2) by (simp add: Authenticate_def Let_def)
qed

lemma logged_in:
  assumes reg: "registry_ok g" "sessions g a \<noteq> None" and ids: "good_id u" "good_id d"
    and g': "g' = Authenticate w b (Some a) u d n g"
  shows "(\<exists>s. sessions g' a = Some s \<and> s_userID s = u \<and> s_deviceID s = d \<and> \<not> s_revoked s)
    \<and> (\<forall>x. x \<noteq> a \<longrightarrow> sessions g' x = sessions g x)
    \<and> (if user_known w b g u then a \<in> registered g' u else registered g' u = registered g u)"
proof -
  have id: "TrimSpace u = u" "TrimSpace u \<noteq> ''''" "TrimSpace d = d" "TrimSpace d \<noteq> ''''" using ids by (simp_all add: good_id_def)
  show ?thesis
  proof (cases "user_known w b g u")
    case True
    note e = Authenticate_effect [OF reg id(2,4) _ g', unfolded id(1,3), OF True]
    show ?thesis using e(2,3,5) True by (auto simp: registered_def set_device_def)
  next
    case False
    have eq: "g' = auth_fields a u d (TrimSpace n) g" using Authenticate_unknown [OF id(2,4)] False unfolding g' id(1,3) by simp
    have so: "sessions_ok g" using reg(1) by (simp add: registry_ok_def)
    note f = auth_fields_session [OF reg(2) so, where u = u and d = d and n = "TrimSpace n", folded eq]
    show ?thesis using f(1,2) False devices_of_cong [OF f(3,4), of u] by (simp add: registered_def)
  qed
qed

text \<open>
  C22. A successful registration or login (by password or by token) logs the connection in:
  the client gets one response with status 0 and the new token, the stream stays open, the
  session of the connection is authenticated as the user of the account and not revoked, and
  no other session changes. The session is registered, so that deleting the account revokes
  it, if the registry or the database knows the user at that moment; if the lookup fails, the
  session is authenticated all the same and nothing registers it.
\<close>

theorem login_opens_session:
  assumes tbl: "setup_routes w cd = Inr tbl" and req: "request_arrives sv q payload rest"
    and env: "unm_Request cd payload = Inr e"
    and call: "login_call w cd (TrimSpace (re_Op e)) (rc_Request (response_context (Some a) e)) (sv_backend sv) res b'"
    and reg: "registry_ok (sv_registry sv)" "sessions (sv_registry sv) a \<noteq> None"
    and ids: "good_id (a_UserID res)" "good_id (a_DeviceID res)"
    and body: "mar_Auth cd \<lparr>ar_SessionToken = a_SessionToken res\<rparr> = Inr body" and enc: "encodes cd ErrCodeOK '''' (Some body) bytes"
  shows "\<exists>sv' q'. Handle cd tbl (Some a) sv = Some sv' \<and> stream_of sv' = Some q' \<and> tx q' = tx q @ data_frame bytes \<and> \<not> tx_closed q'
    \<and> sv_backend sv' = b'
    \<and> IsAuthenticated (Some a) (sv_registry sv') \<and> session_UserID (Some a) (sv_registry sv') = a_UserID res
    \<and> \<not> IsRevoked (Some a) (sv_registry sv')
    \<and> (\<forall>x. x \<noteq> a \<longrightarrow> sessions (sv_registry sv') x = sessions (sv_registry sv) x)
    \<and> (if user_known w b' (sv_registry sv) (a_UserID res) then a \<in> registered (sv_registry sv') (a_UserID res)
       else registered (sv_registry sv') (a_UserID res) = registered (sv_registry sv) (a_UserID res))"
proof (rule Handle_arrived [OF req])
  fix q1
  assume q1: "send_side q1 = send_side q" "rx q1 = rest" "stream_of (put_stream q1 sv) = Some q1" "open_stream q1"
    and H: "\<And>cd tbl sess. Handle cd tbl sess sv = (case unm_Request cd payload of
        Inl err \<Rightarrow> Some (reject_stream cd ErrCodeBadRequest ''invalid request envelope'' (put_stream q1 sv))
      | Inr envelope \<Rightarrow> dispatch cd tbl sess envelope (put_stream q1 sv))"
  let ?g = "sv_registry sv" and ?u = "a_UserID res" and ?d = "a_DeviceID res"
  define g' where "g' = Authenticate w b' (Some a) ?u ?d (a_DeviceName res) ?g"
  let ?sv1 = "(put_stream q1 sv)\<lparr>sv_backend := b', sv_registry := g'\<rparr>" and ?q2 = "q1\<lparr>tx := tx q1 @ data_frame bytes\<rparr>"
  have t: "tbl = main_table w cd" using tbl setup_routes_eq [of w cd] by simp
  have id: "?u \<noteq> ''''" "?d \<noteq> ''''" using ids by (simp_all add: good_id_def)
  have st: "stream_of ?sv1 = Some q1" using q1(3) by (simp add: stream_of_def)
  have "login_call w cd (TrimSpace (re_Op e)) (rc_Request (response_context (Some a) e)) (sv_backend (put_stream q1 sv)) res b'"
    using call by simp
  note login_dispatch [OF this refl]
  moreover have "finish_auth w cd (response_context (Some a) e) res ((put_stream q1 sv)\<lparr>sv_backend := b'\<rparr>) = (None, put_stream ?q2 ?sv1)"
    using body SendResponse_open [OF st q1(4) enc, of "Some (Inr body)"]
    by (simp add: finish_auth_def response_context_def rc_Send_def g'_def)
  ultimately have H': "Handle cd tbl (Some a) sv = Some (put_stream ?q2 ?sv1)" using env by (simp add: H t conclude_def)
  note sess = logged_in [OF reg ids g'_def]
  have "stream_of (put_stream ?q2 ?sv1) = Some ?q2" using st by simp
  then show ?thesis using H' sess id q1 send_sideD [OF q1(1)]
    by (intro exI [of _ "put_stream ?q2 ?sv1"] exI [of _ ?q2])
       (auto simp: IsAuthenticated_def session_UserID_def IsRevoked_def open_stream_def)
qed

lemma other_op_register [simp]:
  "unm_Register other_op bs = Inr \<lparr>rr_DisplayName = ''Alice'', rr_Username = ''Alice'', rr_Password = ''secret'',
     rr_DeviceId = ''phone'', rr_DeviceName = ''Pixel''\<rparr>"
  "mar_Auth other_op a = Inr (bytes_of_string (ar_SessionToken a))"
  by (simp_all add: other_op_def demo_codec_def)

definition register_bytes :: "byte list" where
  "register_bytes = bytes_of_string ''auth.register''"

lemma register_bytes_op: "TrimSpace (re_Op \<lparr>re_Op = string_of_bytes register_bytes, re_Request = None\<rparr>) = ''auth.register''"
  by code_simp

lemma register_bytes_arrive:
  "request_arrives (demo_server b g (demo_stream (data_frame register_bytes) [(1, None)])) (demo_stream (data_frame register_bytes) [(1, None)])
     register_bytes []"
  by (rule demo_request) (simp add: register_bytes_def bytes_of_string_def)

theorem login_opens_session_witness:
  "\<exists>sv'. Handle other_op (main_table quiet_outside other_op) (Some 0)
        (demo_server new_backend two_sessions (demo_stream (data_frame register_bytes) [(1, None)])) = Some sv'
     \<and> IsAuthenticated (Some 0) (sv_registry sv') \<and> session_UserID (Some 0) (sv_registry sv') = ''u1''"
proof (rule register_alice)
  fix res b'
  assume r: "Register quiet_outside alice_creds new_backend = (Inr res, b')" "a_UserID res = ''u1''"
  have "a_DeviceID res = ''phone''" using r(1) by (rule Register_InrD) (use alice_name(4) in simp)
  moreover have "good_id ''u1''" "good_id ''phone''" by code_simp+
  ultimately have ids: "good_id (a_UserID res)" "good_id (a_DeviceID res)" using r(2) by simp_all
  have "login_call quiet_outside other_op ''auth.register'' bs new_backend res b'" for bs
    using r(1) by (simp add: login_call_def alice_creds_def)
  then have call: "login_call quiet_outside other_op (TrimSpace (re_Op \<lparr>re_Op = string_of_bytes register_bytes, re_Request = None\<rparr>))
      (rc_Request (response_context (Some 0) \<lparr>re_Op = string_of_bytes register_bytes, re_Request = None\<rparr>))
      (sv_backend (demo_server new_backend two_sessions (demo_stream (data_frame register_bytes) [(1, None)]))) res b'"
    unfolding register_bytes_op demo_server_simps .
  show ?thesis
    using login_opens_session [OF setup_routes_eq register_bytes_arrive other_op_simps(1) call _ _ ids other_op_register(2) other_encodes]
      two_sessions_ok(1,2) r(2) by (auto simp: demo_server_simps)
qed

end
