(* ===== verification/Server.thy ===== *)
theory Server
  imports Requests
begin

text \<open>
  The running server: \<open>Router.ServeConnection\<close> of \<open>src/server/router/router.go\<close> and
  the accept loop of \<open>src/main.go\<close>, and the server as a state machine whose steps are
  opened connections, handled requests and rounds of the deletion worker.

  A request is one step here. The finer interleavings are treated where the shared state
  lives: statements of concurrent requests in \<open>Database\<close>, locked sections of the
  session registry in \<open>Session\<close>.
\<close>

section \<open>Connections\<close>

definition conn_ID :: "'c QuicConnection \<Rightarrow> string" where
  "conn_ID c = qc_id c"

definition begin_connection :: "string \<Rightarrow> nat QuicConnection \<Rightarrow> server \<Rightarrow> nat \<times> nat QuicConnection \<times> server" where
  "begin_connection uid conn sv =
     (let conn' = (if conn_ID conn = '''' then SetID uid conn else conn);
          (deviceSession, g) = NewDeviceSession (Some (qc_conn conn')) (sv_registry sv)
      in (deviceSession, conn', sv\<lparr>sv_registry := g\<rparr>))"

text \<open>
  The loop: what \<open>conn.AcceptStream\<close> returns is a list of events, each an accepted QUIC
  stream or an error, with the identifier \<open>NewUID\<close> makes for it. An accepted stream is
  handed to a goroutine \<open>r.Handle\<close>; an error ends the loop. The result is the list of
  streams handed out and the error returned, \<open>None\<close> while the loop waits for the next
  event.
\<close>

fun serve_loop :: "nat QuicConnection \<Rightarrow> (qstream result \<times> string) list \<Rightarrow> qstream QuicStream list \<times> goerror option" where
  "serve_loop conn [] = ([], None)"
| "serve_loop conn ((accepted, uid) # evs) =
     (case AcceptStream accepted uid conn of
        Inl err \<Rightarrow> ([], Some err)
      | Inr stream \<Rightarrow> (case serve_loop conn evs of (streams, err) \<Rightarrow> (stream # streams, err)))"

definition ServeConnection ::
    "string \<Rightarrow> nat QuicConnection \<Rightarrow> (qstream result \<times> string) list \<Rightarrow> server
     \<Rightarrow> nat \<times> qstream QuicStream list \<times> goerror option \<times> server" where
  "ServeConnection uid conn evs sv =
     (case begin_connection uid conn sv of (deviceSession, conn', sv1) \<Rightarrow>
        (case serve_loop conn' evs of (streams, err) \<Rightarrow> (deviceSession, streams, err, sv1)))"

text \<open>
  The goroutines of a connection, in the order in which they get to run: each request finds
  its own outside. \<open>None\<close> is a request that does not return.
\<close>

fun run_requests :: "codec \<Rightarrow> nat \<Rightarrow> (outside \<times> qstream QuicStream) list \<Rightarrow> server \<Rightarrow> server option" where
  "run_requests cd a [] sv = Some sv"
| "run_requests cd a ((w, stream) # rs) sv =
     (case Handle cd (main_table w cd) (Some a) (sv\<lparr>sv_stream := Some stream\<rparr>) of
        None \<Rightarrow> None
      | Some sv' \<Rightarrow> run_requests cd a rs sv')"

text \<open>
  The accept loop of \<open>main\<close>. An event says whether the context has been cancelled when
  \<open>Accept\<close> returns, what the QUIC listener returned, and the identifier \<open>NewUID\<close> makes.
  A connection is handed to a goroutine, an error ends the loop if the context has been
  cancelled and is skipped otherwise. The result lists the connections handed out; the flag
  says whether \<open>main\<close> has returned.
\<close>

fun accept_loop :: "(bool \<times> nat result \<times> string) list \<Rightarrow> nat QuicConnection list \<times> bool" where
  "accept_loop [] = ([], False)"
| "accept_loop ((cancelled, accepted, uid) # evs) =
     (case Accept accepted uid of
        Inl err \<Rightarrow> if cancelled then ([], True) else accept_loop evs
      | Inr conn \<Rightarrow> (case accept_loop evs of (conns, returned) \<Rightarrow> (conn # conns, returned)))"

text \<open>
  \<open>as_app\<close> is \<open>errors.As\<close> with \<open>*quic.ApplicationError\<close>: its code and message;
  \<open>text_of\<close> is the \<open>Error\<close> method.
\<close>

definition isExpectedConnectionClose :: "(goerror \<Rightarrow> (nat \<times> string) option) \<Rightarrow> goerror \<Rightarrow> bool" where
  "isExpectedConnectionClose as_app err =
     (case as_app err of Some (errorCode, errorMessage) \<Rightarrow> errorCode = 0 | None \<Rightarrow> False)"

definition connectionCloseMessage :: "(goerror \<Rightarrow> (nat \<times> string) option) \<Rightarrow> (goerror \<Rightarrow> string) \<Rightarrow> goerror \<Rightarrow> string" where
  "connectionCloseMessage as_app text_of err =
     (case as_app err of Some (errorCode, errorMessage) \<Rightarrow> errorMessage | None \<Rightarrow> text_of err)"

section \<open>The server as a state machine\<close>

inductive server_step :: "codec \<Rightarrow> server \<Rightarrow> server \<Rightarrow> bool" for cd where
  sv_connect: "begin_connection uid conn sv = (a, conn', sv') \<Longrightarrow> server_step cd sv sv'"
| sv_request: "sessions (sv_registry sv) a \<noteq> None \<Longrightarrow>
    Handle cd (main_table w cd) (Some a) (sv\<lparr>sv_stream := stream\<rparr>) = Some sv' \<Longrightarrow> server_step cd sv sv'"
| sv_worker: "server_step cd sv (sv\<lparr>sv_backend := processDueAccountDeletions w (sv_backend sv)\<rparr>)"

inductive_cases server_stepE: "server_step cd sv sv'"

definition sessions_trimmed :: "registry \<Rightarrow> bool" where
  "sessions_trimmed g \<longleftrightarrow> (\<forall>a s. sessions g a = Some s \<longrightarrow>
     TrimSpace (s_userID s) = s_userID s \<and> TrimSpace (s_deviceID s) = s_deviceID s)"

definition server_ok :: "server \<Rightarrow> bool" where
  "server_ok sv \<longleftrightarrow> backend_ok (sv_backend sv) \<and> registry_ok (sv_registry sv) \<and> sessions_trimmed (sv_registry sv)"

lemma auth_state_sessions [simp]: "sessions (snd (auth_state w b u g)) = sessions g"
  by (auto simp: auth_state_def put_ustate_def Let_def split: option.split sum.split prod.split)

lemma auth_register_sessions [simp]: "sessions (auth_register p a d g) = sessions g"
  by (auto simp: auth_register_def put_ustate_def split: option.split)

lemma auth_fields_exists: "sessions g x \<noteq> None \<Longrightarrow> sessions (auth_fields a u d n g) x \<noteq> None"
  by (auto simp: auth_fields_def put_session_def make_chan_def Let_def split: option.split)

lemma auth_fields_trimmed:
  "sessions_trimmed g \<Longrightarrow> sessions_trimmed (auth_fields a (TrimSpace u) (TrimSpace d) n g)"
  by (auto simp: sessions_trimmed_def auth_fields_def put_session_def make_chan_def Let_def split: option.splits)

lemma ok_Authenticate:
  assumes "registry_ok g" "sessions g a \<noteq> None"
  shows "registry_ok (Authenticate w b (Some a) u d n g)"
proof (cases "TrimSpace u = '''' \<or> TrimSpace d = ''''")
  case False
  let ?g1 = "auth_fields a (TrimSpace u) (TrimSpace d) (TrimSpace n) g"
  obtain r g2 where s: "auth_state w b (TrimSpace u) ?g1 = (r, g2)" by (meson surj_pair)
  have "registry_ok g2" using ok_state [OF ok_fields [OF assms(1)], of "TrimSpace u" w b] False s by (metis snd_conv)
  moreover have "sessions g2 a \<noteq> None"
    using auth_state_sessions [of w b "TrimSpace u" ?g1] auth_fields_exists [OF assms(2)] s by simp
  ultimately show ?thesis using False s by (auto simp: Authenticate_def Let_def ok_register split: option.split)
qed (use assms in \<open>auto simp: Authenticate_def Let_def\<close>)

lemma Authenticate_trimmed: "sessions_trimmed g \<Longrightarrow> sessions_trimmed (Authenticate w b sp u d n g)"
proof (cases sp)
  case (Some a)
  assume t: "sessions_trimmed g"
  let ?g1 = "auth_fields a (TrimSpace u) (TrimSpace d) (TrimSpace n) g"
  obtain r g2 where s: "auth_state w b (TrimSpace u) ?g1 = (r, g2)" by (meson surj_pair)
  have "sessions g2 = sessions ?g1" using auth_state_sessions [of w b "TrimSpace u" ?g1] s by simp
  then show ?thesis using t auth_fields_trimmed [OF t, of a u d "TrimSpace n"] Some s
    by (auto simp: Authenticate_def Let_def sessions_trimmed_def split: option.split)
qed (simp add: Authenticate_def)

lemma detach_sessions: "sessions (snd (detachUserSessions u g)) = sessions g"
  by (auto simp: detachUserSessions_def Let_def put_ustate_def split: option.split)

lemma Invalidate_trimmed: "sessions_trimmed g \<Longrightarrow> sessions_trimmed (InvalidateUserSessions u g)"
proof -
  assume t: "sessions_trimmed g"
  obtain as g1 where d: "detachUserSessions u g = (as, g1)" by (meson surj_pair)
  then have "sessions g1 = sessions g" using detach_sessions [of u g] by simp
  then show ?thesis using t d
    by (auto simp: InvalidateUserSessions_def sessions_trimmed_def sessions_revoke_all revoked_session_def split: if_splits)
qed

lemma new_trimmed: "sessions_trimmed g \<Longrightarrow> sessions_trimmed (snd (NewDeviceSession conn g))"
  by (auto simp: sessions_trimmed_def NewDeviceSession_def make_chan_def put_session_def Let_def)

text \<open>What a handler can do to the registry: nothing, one login of its session, one invalidation.\<close>

inductive registry_move :: "nat option \<Rightarrow> registry \<Rightarrow> registry \<Rightarrow> bool" where
  rm_stay: "registry_move sess g g"
| rm_login: "registry_move sess g (Authenticate w b sess u d n g)"
| rm_logout: "registry_move sess g (InvalidateUserSessions u g)"

lemma move_finish_auth: "registry_move (rc_Session c) (sv_registry sv) (sv_registry (snd (finish_auth w cd c res sv)))"
  by (simp add: finish_auth_def Let_def rm_stay rm_login)

lemma move_handlers:
  "registry_move (rc_Session c) (sv_registry sv) (sv_registry (snd (PingHandler cd c sv)))"
  "registry_move (rc_Session c) (sv_registry sv) (sv_registry (snd (HandleUserRegister w cd c sv)))"
  "registry_move (rc_Session c) (sv_registry sv) (sv_registry (snd (HandleUserLoginByCredentials w cd c sv)))"
  "registry_move (rc_Session c) (sv_registry sv) (sv_registry (snd (HandleUserLoginByToken w cd c sv)))"
  "registry_move (rc_Session c) (sv_registry sv) (sv_registry (snd (HandleAccountDeleteCancel w cd c sv)))"
proof -
  have f: "registry_move (rc_Session c) (sv_registry sv) (sv_registry (snd (finish_auth w cd c res (sv\<lparr>sv_backend := b\<rparr>))))" for res b
    using move_finish_auth [of c "sv\<lparr>sv_backend := b\<rparr>" w cd res] by simp
  show "registry_move (rc_Session c) (sv_registry sv) (sv_registry (snd (PingHandler cd c sv)))"
    by (simp add: PingHandler_def rm_stay)
  show "registry_move (rc_Session c) (sv_registry sv) (sv_registry (snd (HandleUserRegister w cd c sv)))"
    by (simp add: HandleUserRegister_def Let_def rm_stay f split: sum.split prod.split)
  show "registry_move (rc_Session c) (sv_registry sv) (sv_registry (snd (HandleUserLoginByCredentials w cd c sv)))"
    by (simp add: HandleUserLoginByCredentials_def Let_def rm_stay f split: sum.split prod.split)
  show "registry_move (rc_Session c) (sv_registry sv) (sv_registry (snd (HandleUserLoginByToken w cd c sv)))"
    by (simp add: HandleUserLoginByToken_def Let_def rm_stay f split: sum.split prod.split)
  show "registry_move (rc_Session c) (sv_registry sv) (sv_registry (snd (HandleAccountDeleteCancel w cd c sv)))"
    by (simp add: HandleAccountDeleteCancel_def Let_def rm_stay split: sum.split prod.split)
qed

lemma move_Delete: "registry_move (rc_Session c) (sv_registry sv) (sv_registry (snd (HandleAccountDelete w cd c sv)))"
proof -
  have "registry_move (rc_Session c) (sv_registry sv) (sv_registry (snd (case rc_Send cd ErrCodeOK '''' m (sv\<lparr>sv_backend := b\<rparr>) of
      (Some err, sv1) \<Rightarrow> (Some err, sv1)
    | (None, sv1) \<Rightarrow> (None, if rc_Session c \<noteq> None
        then sv1\<lparr>sv_registry := InvalidateUserSessions (session_UserID (rc_Session c) (sv_registry sv1)) (sv_registry sv1)\<rparr>
        else sv1))))" for m b
  proof -
    obtain e sv1 where s: "rc_Send cd ErrCodeOK '''' m (sv\<lparr>sv_backend := b\<rparr>) = (e, sv1)" by (meson surj_pair)
    then have "sv_registry sv1 = sv_registry sv" using Send_keeps(6) [of cd ErrCodeOK "''''" m "sv\<lparr>sv_backend := b\<rparr>"] by simp
    then show ?thesis by (cases e) (simp_all add: s rm_stay rm_logout)
  qed
  then show ?thesis by (simp add: HandleAccountDelete_def Let_def rm_stay split: sum.split prod.split)
qed

lemma registry_move_ok:
  assumes "registry_move sess g g'" "registry_ok g" "\<And>a. sess = Some a \<Longrightarrow> sessions g a \<noteq> None"
  shows "registry_ok g'"
  using assms(1)
proof cases
  case (rm_login w b u d n)
  then show ?thesis using assms(2,3) ok_Authenticate by (cases sess) (auto simp: Authenticate_def [where sp = None])
qed (use assms(2) ok_Invalidate in auto)

lemma registry_move_trimmed: "registry_move sess g g' \<Longrightarrow> sessions_trimmed g \<Longrightarrow> sessions_trimmed g'"
  by (induction rule: registry_move.induct) (auto simp: Authenticate_trimmed Invalidate_trimmed)

lemma guarded_effects:
  assumes "P (sv_backend sv) (sv_registry sv)" and "P (sv_backend (snd (h c sv))) (sv_registry (snd (h c sv)))"
  shows "P (sv_backend (snd (guarded w cd h c sv))) (sv_registry (snd (guarded w cd h c sv)))"
  by (cases rule: guarded_cases [of w cd h c sv]) (use assms in simp_all)

lemma handler_keeps_ok:
  assumes "map_of (main_routes w cd) p = Some (mw, h)" "backend_ok (sv_backend sv)"
  shows "backend_ok (sv_backend (snd (h c sv)))" "registry_move (rc_Session c) (sv_registry sv) (sv_registry (snd (h c sv)))"
proof -
  have h: "h \<in> {PingHandler cd, HandleUserRegister w cd, HandleUserLoginByCredentials w cd, HandleUserLoginByToken w cd,
      HandleAccountDelete w cd, HandleAccountDeleteCancel w cd}"
    using assms(1) by (auto simp: main_routes_def split: if_splits)
  show "backend_ok (sv_backend (snd (h c sv)))"
    using h assms(2) by (auto simp: handler_backends ok_Register ok_LoginByCredentials ok_LoginByToken ok_Schedule ok_Cancel split: sum.split)
  show "registry_move (rc_Session c) (sv_registry sv) (sv_registry (snd (h c sv)))"
    using h move_handlers move_Delete by auto
qed

lemma request_keeps_ok:
  assumes h: "Handle cd (main_table w cd) (Some a) (sv\<lparr>sv_stream := stream\<rparr>) = Some sv'"
    and ok: "server_ok sv" and a: "sessions (sv_registry sv) a \<noteq> None"
  shows "server_ok sv'"
  using h
proof (cases rule: Handle_main_cases)
  case unchanged
  then show ?thesis using ok by (simp add: server_ok_def)
next
  case (routed p mw h e sv1)
  let ?c = "response_context (Some a) e"
  let ?P = "\<lambda>b g. backend_ok b \<and> registry_move (Some a) (sv_registry sv) g"
  have b: "backend_ok (sv_backend sv1)" "sv_registry sv1 = sv_registry sv" using ok routed(3,4) by (simp_all add: server_ok_def)
  have 0: "?P (sv_backend sv1) (sv_registry sv1)" using b by (simp add: rm_stay)
  have 1: "?P (sv_backend (snd (h ?c sv1))) (sv_registry (snd (h ?c sv1)))"
    using handler_keeps_ok [OF routed(1) b(1), of ?c] b(2) by (simp add: response_context_def)
  have "?P (sv_backend sv') (sv_registry sv')"
    using 1 guarded_effects [where P = ?P and h = h and c = ?c and sv = sv1, OF 0 1, of w cd] routed(5) by auto
  then show ?thesis using ok a registry_move_ok registry_move_trimmed by (auto simp: server_ok_def)
qed

interpretation srv: reachable_invariant "server_step cd" server_ok
  "\<lambda>sv. b_tables (sv_backend sv) = empty_db \<and> sv_registry sv = empty_registry" for cd
proof (unfold_locales, goal_cases)
  case (1 sv sv')
  then show ?case
  proof (cases rule: server_step.cases)
    case (sv_connect uid conn a conn')
    then have "sv_backend sv' = sv_backend sv \<and> (\<exists>c. sv_registry sv' = snd (NewDeviceSession c (sv_registry sv)))"
      by (auto simp: begin_connection_def Let_def split: prod.splits) (metis snd_conv)
    then show ?thesis using 1(2) by (auto simp: server_ok_def ok_new new_trimmed)
  next
    case (sv_request a w stream)
    then show ?thesis using request_keeps_ok 1(2) by blast
  next
    case (sv_worker w)
    then show ?thesis using 1(2) by (simp add: server_ok_def ok_worker)
  qed
next
  case (2 sv)
  then show ?case
    by (simp add: server_ok_def backend_ok_def names_valid_def registry_ok_def sessions_ok_def states_ok_def
        sessions_trimmed_def empty_registry_def) (simp add: empty_db_def db_wf_def max_bigint_def)
qed

text \<open>
  C18. In every state the server can reach from an empty database and an empty registry, by
  opening connections, handling any bytes on their streams and running the deletion worker,
  with any failures of the databases, the tables satisfy all their constraints and hold valid
  usernames only, no channel has been closed twice, a session is revoked exactly when its
  channel is closed and is then not authenticated, and an authenticated session carries a
  non-empty user identifier without surrounding white space (which invalidation finds).
\<close>

theorem reachable_server_ok:
  assumes "b_tables (sv_backend sv0) = empty_db" "sv_registry sv0 = empty_registry" "(server_step cd)\<^sup>*\<^sup>* sv0 sv"
  shows "db_wf (b_tables (sv_backend sv)) \<and> (\<forall>user\<in>set (users (b_tables (sv_backend sv))). ValidUsername (u_Username user))
    \<and> \<not> chan_panic (sv_registry sv)
    \<and> (\<forall>a. sessions (sv_registry sv) a \<noteq> None \<longrightarrow>
         IsRevoked (Some a) (sv_registry sv) = Revoked_closed (Some a) (sv_registry sv)
         \<and> \<not> (IsRevoked (Some a) (sv_registry sv) \<and> IsAuthenticated (Some a) (sv_registry sv)))
    \<and> (\<forall>a. IsAuthenticated (Some a) (sv_registry sv) \<longrightarrow> good_id (session_UserID (Some a) (sv_registry sv)))"
proof -
  let ?g = "sv_registry sv"
  have ok: "server_ok sv" using srv.reachable_inv [of sv0 cd sv] assms by blast
  then have so: "sessions_ok ?g" and tr: "sessions_trimmed ?g" by (simp_all add: server_ok_def registry_ok_def)
  have s: "session_ok ?g s \<and> TrimSpace (s_userID s) = s_userID s" if "sessions ?g a = Some s" for a s
    using that so tr unfolding sessions_ok_def sessions_trimmed_def by blast
  have "\<not> chan_panic ?g" using so unfolding sessions_ok_def by blast
  moreover have "IsRevoked (Some a) ?g = Revoked_closed (Some a) ?g \<and> \<not> (IsRevoked (Some a) ?g \<and> IsAuthenticated (Some a) ?g)"
    if "sessions ?g a \<noteq> None" for a
    using that s [of a] by (auto simp: IsRevoked_def Revoked_closed_def IsAuthenticated_def session_ok_def)
  moreover have "good_id (session_UserID (Some a) ?g)" if "IsAuthenticated (Some a) ?g" for a
    using that s [of a] by (auto simp: IsAuthenticated_def session_UserID_def good_id_def split: option.splits)
  ultimately show ?thesis using ok by (auto simp: server_ok_def backend_ok_def names_valid_def)
qed

section \<open>Serving a connection\<close>

lemma registry_move_exists: "registry_move sess g g' \<Longrightarrow> sessions g x \<noteq> None \<Longrightarrow> sessions g' x \<noteq> None"
proof (induction rule: registry_move.induct)
  case (rm_login sess g w b u d n)
  show ?case
  proof (cases sess)
    case (Some a)
    let ?g1 = "auth_fields a (TrimSpace u) (TrimSpace d) (TrimSpace n) g"
    obtain r g2 where s: "auth_state w b (TrimSpace u) ?g1 = (r, g2)" by (meson surj_pair)
    then have "sessions g2 x \<noteq> None" using auth_state_sessions [of w b "TrimSpace u" ?g1] auth_fields_exists [OF rm_login] by simp
    then show ?thesis using rm_login Some s by (auto simp: Authenticate_def Let_def split: option.split)
  qed (use rm_login in \<open>simp add: Authenticate_def\<close>)
next
  case (rm_logout sess g u)
  then show ?case using detach_sessions [of u g]
    by (auto simp: InvalidateUserSessions_def sessions_revoke_all split: prod.split)
qed

lemma Handle_registry_move:
  assumes "Handle cd (main_table w cd) sess sv = Some sv'"
  shows "registry_move sess (sv_registry sv) (sv_registry sv')"
  using assms
proof (cases rule: Handle_main_cases)
  case unchanged
  then show ?thesis by (simp add: rm_stay)
next
  case (routed p mw h e sv1)
  let ?P = "\<lambda>b g. registry_move sess (sv_registry sv) g"
  have 0: "?P (sv_backend sv1) (sv_registry sv1)" using routed(4) by (simp add: rm_stay)
  have "h \<in> {PingHandler cd, HandleUserRegister w cd, HandleUserLoginByCredentials w cd, HandleUserLoginByToken w cd,
      HandleAccountDelete w cd, HandleAccountDeleteCancel w cd}"
    using routed(1) by (auto simp: main_routes_def split: if_splits)
  then have 1: "?P b (sv_registry (snd (h (response_context sess e) sv1)))" for b
    using move_handlers [of "response_context sess e" sv1] move_Delete [of "response_context sess e" sv1] routed(4)
    by (auto simp: response_context_def)
  show ?thesis using 1 guarded_effects [where P = ?P and h = h and c = "response_context sess e" and sv = sv1, OF 0 1, of w cd] routed(5) by auto
qed

lemma Handle_main_returns: "\<exists>sv'. Handle cd (main_table w cd) sess sv = Some sv'"
proof -
  obtain r s where "ReadFrame qread (sv_stream sv) = Some (r, s)" using ReadFrame_total by blast
  then show ?thesis by (simp add: Handle_eq dispatch_main_returns split: sum.split)
qed

lemma run_requests_steps:
  "sessions (sv_registry sv) a \<noteq> None \<Longrightarrow>
   \<exists>sv'. run_requests cd a rs sv = Some sv' \<and> (server_step cd)\<^sup>*\<^sup>* sv sv' \<and> sessions (sv_registry sv') a \<noteq> None"
proof (induction rs arbitrary: sv)
  case (Cons r rs)
  obtain w stream where r: "r = (w, stream)" by (cases r)
  obtain sv1 where h: "Handle cd (main_table w cd) (Some a) (sv\<lparr>sv_stream := Some stream\<rparr>) = Some sv1"
    using Handle_main_returns by blast
  have "sessions (sv_registry sv1) a \<noteq> None"
    using registry_move_exists [OF Handle_registry_move [OF h]] Cons.prems by simp
  from Cons.IH [OF this] obtain sv' where
    "run_requests cd a rs sv1 = Some sv'" "(server_step cd)\<^sup>*\<^sup>* sv1 sv'" "sessions (sv_registry sv') a \<noteq> None" by blast
  moreover have "server_step cd sv sv1" by (rule sv_request [OF Cons.prems h])
  ultimately show ?case using h r by (auto intro: converse_rtranclp_into_rtranclp)
qed simp

definition was_accepted :: "qstream result \<times> string \<Rightarrow> bool" where
  "was_accepted ev \<longleftrightarrow> \<not> isl (fst ev)"

definition accepted_stream :: "nat QuicConnection \<Rightarrow> qstream result \<times> string \<Rightarrow> qstream QuicStream" where
  "accepted_stream conn ev = \<lparr>qs_stream = Some (projr (fst ev)), qs_connID = qc_id conn, qs_id = snd ev\<rparr>"

lemma serve_loop_accepts:
  "serve_loop conn evs = (map (accepted_stream conn) (takeWhile was_accepted evs),
     case dropWhile was_accepted evs of [] \<Rightarrow> None | ev # _ \<Rightarrow> Some (projl (fst ev)))"
proof (induction evs)
  case (Cons ev evs)
  then show ?case
    by (cases ev; cases "fst ev") (auto simp: AcceptStream_def accepted_stream_def was_accepted_def split: prod.split)
qed simp

lemma begin_connection_exists:
  "begin_connection uid conn sv = (a, conn', sv1) \<Longrightarrow> sessions (sv_registry sv1) a \<noteq> None"
  by (auto simp: begin_connection_def NewDeviceSession_def make_chan_def put_session_def Let_def split: prod.splits)

text \<open>
  C24. A connection is served completely. The streams accepted before the first error, and no
  others, are handed to goroutines, in order, each under its own identifier and that of the
  connection; the error is what \<open>ServeConnection\<close> returns. In whatever order these
  goroutines run and whatever each finds outside, all of them return, on a session that stays
  known to the registry, and the states they lead through are reachable states of the server.
\<close>

theorem ServeConnection_runs:
  assumes "ServeConnection uid conn evs sv = (a, streams, err, sv1)"
  shows "map qs_stream streams = map (Some \<circ> projr \<circ> fst) (takeWhile was_accepted evs)
    \<and> map qs_id streams = map snd (takeWhile was_accepted evs)
    \<and> (\<forall>s\<in>set streams. qs_connID s = (if conn_ID conn = '''' then uid else conn_ID conn))
    \<and> err = (case dropWhile was_accepted evs of [] \<Rightarrow> None | ev # _ \<Rightarrow> Some (projl (fst ev)))
    \<and> (\<forall>rs. mset (map snd rs) = mset streams \<longrightarrow>
         (\<exists>sv'. run_requests cd a rs sv1 = Some sv' \<and> (server_step cd)\<^sup>*\<^sup>* sv sv' \<and> sessions (sv_registry sv') a \<noteq> None))"
proof -
  obtain conn' where b: "begin_connection uid conn sv = (a, conn', sv1)"
    and l: "serve_loop conn' evs = (streams, err)"
    using assms by (auto simp: ServeConnection_def split: prod.splits)
  have c: "qc_id conn' = (if conn_ID conn = '''' then uid else conn_ID conn)"
    using b by (auto simp: begin_connection_def Let_def SetID_def conn_ID_def split: prod.splits)
  have "server_step cd sv sv1" by (rule sv_connect [OF b])
  then have "\<exists>sv'. run_requests cd a rs sv1 = Some sv' \<and> (server_step cd)\<^sup>*\<^sup>* sv sv' \<and> sessions (sv_registry sv') a \<noteq> None" for rs
    using run_requests_steps [OF begin_connection_exists [OF b], of cd rs] by (meson converse_rtranclp_into_rtranclp)
  then show ?thesis using l c by (auto simp: serve_loop_accepts accepted_stream_def)
qed

text \<open>
  A peer opens one stream, sends a registration over it and closes the connection.
\<close>

definition register_stream :: qstream where
  "register_stream = demo_stream (data_frame register_bytes) [(1, None)]"

definition register_task :: "qstream QuicStream" where
  "register_task = \<lparr>qs_stream = Some register_stream, qs_connID = ''c1'', qs_id = ''s1''\<rparr>"

definition first_server :: server where
  "first_server = demo_server new_backend empty_registry (demo_stream [] [])"

definition one_session_server :: server where
  "one_session_server = first_server\<lparr>sv_registry := snd (NewDeviceSession (Some 7) empty_registry)\<rparr>"

lemma register_connection:
  "ServeConnection ''c1'' \<lparr>qc_conn = 7, qc_id = ''''\<rparr> [(Inr register_stream, ''s1''), (Inl io_EOF, ''s2'')] first_server
   = (0, [register_task], Some io_EOF, one_session_server)"
proof -
  have "begin_connection ''c1'' \<lparr>qc_conn = 7, qc_id = ''''\<rparr> first_server = (0, \<lparr>qc_conn = 7, qc_id = ''c1''\<rparr>, one_session_server)"
    by (simp add: begin_connection_def conn_ID_def SetID_def first_server_def one_session_server_def Let_def
        NewDeviceSession_def make_chan_def put_session_def empty_registry_def)
  then show ?thesis by (simp add: ServeConnection_def AcceptStream_def register_task_def)
qed

theorem ServeConnection_runs_witness:
  "\<exists>sv'. run_requests other_op 0 [(quiet_outside, register_task)] one_session_server = Some sv'
     \<and> (server_step other_op)\<^sup>*\<^sup>* first_server sv'"
proof -
  have "mset (map snd [(quiet_outside, register_task)]) = mset [register_task]" by simp
  then show ?thesis using ServeConnection_runs [OF register_connection, of other_op] by blast
qed

theorem reachable_server_ok_witness:
  "db_wf (b_tables (sv_backend one_session_server))
   \<and> sessions (sv_registry one_session_server) 0 \<noteq> None
   \<and> IsRevoked (Some 0) (sv_registry one_session_server) = Revoked_closed (Some 0) (sv_registry one_session_server)"
proof -
  have b: "fst (begin_connection ''c1'' \<lparr>qc_conn = 7, qc_id = ''''\<rparr> first_server) = 0"
    "snd (snd (begin_connection ''c1'' \<lparr>qc_conn = 7, qc_id = ''''\<rparr> first_server)) = one_session_server"
    using register_connection by (auto simp: ServeConnection_def split: prod.splits)
  then obtain conn' where c: "begin_connection ''c1'' \<lparr>qc_conn = 7, qc_id = ''''\<rparr> first_server = (0, conn', one_session_server)"
    by (metis prod.collapse)
  have "(server_step other_op)\<^sup>*\<^sup>* first_server one_session_server" by (rule r_into_rtranclp, rule sv_connect [OF c])
  moreover have "b_tables (sv_backend first_server) = empty_db" "sv_registry first_server = empty_registry"
    by (simp_all add: first_server_def new_backend_def)
  ultimately show ?thesis
    using reachable_server_ok [of first_server other_op one_session_server] begin_connection_exists [OF c] by blast
qed

end
