(* ===== verification/Startup.thy ===== *)
theory Startup
  imports Config Server
begin

text \<open>
  The program itself, \<open>src/main.go\<close>: the order of the start, the exit of every failing
  step, the start-up panel, the accept loop and the deferred calls of an orderly shutdown,
  with the network logger of \<open>src/server/logging/network.go\<close> and the listener of
  \<open>src/server/transport/listener.go\<close>. The accept loop is a definition of \<open>Server\<close>.
  Files, certificates and QUIC listeners are numbers; what is written to a log is not modelled.
\<close>

section \<open>The start-up panel\<close>

text \<open>
  The UTF-8 bytes of the box characters. \<open>strings.Repeat\<close> panics on a negative count,
  which is the value \<open>None\<close>.
\<close>

definition box :: "nat \<Rightarrow> string" where
  "box n = [CHR 0xE2, CHR 0x94, char_of n]"

definition strings_Repeat :: "string \<Rightarrow> int \<Rightarrow> string option" where
  "strings_Repeat s n = (if n < 0 then None else Some (concat (replicate (nat n) s)))"

definition panel_rows :: "Config \<Rightarrow> nat \<Rightarrow> string list" where
  "panel_rows cfg routeCount =
     [''PPgram QUIC Server'',
      ''Host    : '' @ QUICHost cfg,
      ''Port    : '' @ QUICPort cfg,
      ''ALPN    : '' @ TLSALPN cfg,
      ''Handlers: '' @ decimal routeCount]"

fun panel_width :: "string list \<Rightarrow> int \<Rightarrow> int" where
  "panel_width [] width = width"
| "panel_width (row # rows) width =
     panel_width rows (if int (length row) > width then int (length row) else width)"

fun panel_lines :: "int \<Rightarrow> string list \<Rightarrow> string list option" where
  "panel_lines width [] = Some []"
| "panel_lines width (row # rows) =
     (case (strings_Repeat '' '' (width - int (length row)), panel_lines width rows) of
        (Some padding, Some ls) \<Rightarrow> Some ((box 0x82 @ '' '' @ row @ padding @ '' '' @ box 0x82) # ls)
      | _ \<Rightarrow> None)"

definition printStartupPanel :: "Config \<Rightarrow> nat \<Rightarrow> string list option" where
  "printStartupPanel cfg routeCount =
     (let rows = panel_rows cfg routeCount; width = panel_width rows 0 in
      case (strings_Repeat (box 0x80) (width + 2), panel_lines width rows) of
        (Some rule, Some ls) \<Rightarrow>
          Some ([box 0x8C @ rule @ box 0x90] @ ls @ [box 0x94 @ rule @ box 0x98])
      | _ \<Rightarrow> None)"

section \<open>Logger and listener\<close>

text \<open>
  A logger is the file it writes to, \<open>None\<close> the one that discards. \<open>mkdir path\<close> is
  \<open>os.MkdirAll\<close> of the directory of the path, \<open>open_file\<close> is \<open>os.OpenFile\<close>; the
  close function of the result closes that file.
\<close>

definition NewNetworkLogger :: "(string \<Rightarrow> unit result) \<Rightarrow> (string \<Rightarrow> nat result) \<Rightarrow> string \<Rightarrow> nat result" where
  "NewNetworkLogger mkdir open_file p =
     (case mkdir p of Inl err \<Rightarrow> Inl err
      | Inr _ \<Rightarrow> (case open_file p of Inl err \<Rightarrow> Inl err | Inr fd \<Rightarrow> Inr fd))"

text \<open>The argument \<open>None\<close> is the nil logger, which is ignored; the second is the current one.\<close>

definition SetNetworkLogger :: "nat option \<Rightarrow> nat option \<Rightarrow> nat option" where
  "SetNetworkLogger logger current = (if logger = None then current else logger)"

definition NetworkLogger :: "nat option \<Rightarrow> nat option" where
  "NetworkLogger current = current"

record QuicListener =
  ql_listener :: nat

definition Start :: "(string \<Rightarrow> tls_Config \<Rightarrow> nat result) \<Rightarrow> string \<Rightarrow> tls_Config \<Rightarrow> QuicListener result" where
  "Start ListenAddr addr tlsConfig =
     (case ListenAddr addr tlsConfig of Inl err \<Rightarrow> Inl err | Inr l \<Rightarrow> Inr \<lparr>ql_listener = l\<rparr>)"

definition listener_Addr :: "(nat \<Rightarrow> string) \<Rightarrow> QuicListener \<Rightarrow> string" where
  "listener_Addr quic_addr l = quic_addr (ql_listener l)"

definition listener_Close :: "QuicListener \<Rightarrow> nat list \<Rightarrow> nat list" where
  "listener_Close l closed = ql_listener l # closed"

section \<open>The program\<close>

text \<open>
  What the start finds outside: the environment, the certificates, the log files, the
  connection pool, the Redis client and the listener; \<open>ext_exchanges\<close> are the exchanges
  with the databases. The process is the state of the stores, the lines printed, whether the
  deletion worker runs, the logger, the listener, and what has been closed.
\<close>

record externals =
  ext_env :: environment
  ext_pair :: "string \<Rightarrow> string \<Rightarrow> nat result"
  ext_mkdir :: "string \<Rightarrow> unit result"
  ext_open :: "string \<Rightarrow> nat result"
  ext_pool :: "nat result"
  ext_client :: nat
  ext_listen :: "string \<Rightarrow> tls_Config \<Rightarrow> nat result"
  ext_exchanges :: outside

record process =
  pr_backend :: backend
  pr_output :: "string list"
  pr_worker :: bool
  pr_logger :: "nat option"
  pr_listener :: "QuicListener option"
  pr_closed_files :: "nat list"
  pr_closed_listeners :: "nat list"

text \<open>\<open>Exited\<close> is \<open>os.Exit(1)\<close> after the log message; \<open>Crashed\<close> is a panic.\<close>

datatype main_outcome = Exited string goerror | Crashed | Serving | Returned

text \<open>The deferred calls of \<open>main\<close>, in the order in which they run.\<close>

definition close_listener :: "QuicListener \<Rightarrow> process \<Rightarrow> process" where
  "close_listener l p = p\<lparr>pr_closed_listeners := listener_Close l (pr_closed_listeners p)\<rparr>"

definition close_default_cache :: "process \<Rightarrow> process" where
  "close_default_cache p =
     (let b = pr_backend p in
      case DefaultCache (b_cache b) of Inl err \<Rightarrow> p
      | Inr c \<Rightarrow> p\<lparr>pr_backend := b\<lparr>b_cache := (b_cache b)\<lparr>closed_clients := cache_Close (Some c) (closed_clients (b_cache b))\<rparr>\<rparr>\<rparr>)"

definition close_default_db :: "process \<Rightarrow> process" where
  "close_default_db p =
     (let b = pr_backend p in
      case DefaultDB (b_db b) of Inl err \<Rightarrow> p
      | Inr d \<Rightarrow> p\<lparr>pr_backend := b\<lparr>b_db := (b_db b)\<lparr>closed_pools := db_Close (Some d) (closed_pools (b_db b))\<rparr>\<rparr>\<rparr>)"

definition close_log :: "nat \<Rightarrow> process \<Rightarrow> process" where
  "close_log fd p = p\<lparr>pr_closed_files := fd # pr_closed_files p\<rparr>"

text \<open>
  The steps up to the accept loop; the left value is the early end of the process, the right
  value the listener and the log file that the deferred calls close.
\<close>

definition main_start :: "codec \<Rightarrow> externals \<Rightarrow> process \<Rightarrow> (main_outcome + QuicListener \<times> nat) \<times> process" where
  "main_start cd ext p =
     (let w = ext_exchanges ext in
      case Load (ext_env ext) of Inl err \<Rightarrow> (Inl (Exited ''load config'' err), p)
      | Inr cfg \<Rightarrow>
     (case TLSConfig (ext_pair ext) cfg of Inl err \<Rightarrow> (Inl (Exited ''build tls config'' err), p)
      | Inr tlsConfig \<Rightarrow>
     (case NewNetworkLogger (ext_mkdir ext) (ext_open ext) (LogFile cfg) of
        Inl err \<Rightarrow> (Inl (Exited ''init network logger'' err), p)
      | Inr fd \<Rightarrow>
      let p = p\<lparr>pr_logger := SetNetworkLogger (Some fd) (pr_logger p)\<rparr>; b = pr_backend p in
     (case InitDefaultDB w (ext_pool ext) (GetPostgresURL cfg) (b_db b) (b_tables b) of
        (Inl err, g, db) \<Rightarrow> (Inl (Exited ''init database'' err), p\<lparr>pr_backend := b\<lparr>b_db := g, b_tables := db\<rparr>\<rparr>)
      | (Inr _, g, db) \<Rightarrow>
      let b = b\<lparr>b_db := g, b_tables := db\<rparr> in
     (case InitDefaultCache w (getenv (ext_env ext) ''REDIS_ADDR'') (ext_client ext) (RedisAddr cfg) (b_cache b) of
        (Inl err, c) \<Rightarrow> (Inl (Exited ''init redis'' err), p\<lparr>pr_backend := b\<lparr>b_cache := c\<rparr>\<rparr>)
      | (Inr _, c) \<Rightarrow>
      let p = p\<lparr>pr_backend := b\<lparr>b_cache := c\<rparr>\<rparr> in
     (case setup_routes w cd of Inl panic \<Rightarrow> (Inl Crashed, p)
      | Inr tbl \<Rightarrow>
     (case printStartupPanel cfg (RouteCount tbl) of None \<Rightarrow> (Inl Crashed, p)
      | Some ls \<Rightarrow>
      let p = p\<lparr>pr_output := pr_output p @ ls, pr_worker := True\<rparr> in
     (case Start (ext_listen ext) (QUICAddr cfg) tlsConfig of
        Inl err \<Rightarrow> (Inl (Exited ''start quic listener'' err), p)
      | Inr listener \<Rightarrow> (Inr (listener, fd), p\<lparr>pr_listener := Some listener\<rparr>)))))))))"

definition main_go ::
    "codec \<Rightarrow> externals \<Rightarrow> (bool \<times> nat result \<times> string) list \<Rightarrow> process \<Rightarrow> main_outcome \<times> nat QuicConnection list \<times> process" where
  "main_go cd ext evs p =
     (case main_start cd ext p of
        (Inl ended, p1) \<Rightarrow> (ended, [], p1)
      | (Inr (listener, fd), p1) \<Rightarrow>
          (case accept_loop evs of
             (conns, False) \<Rightarrow> (Serving, conns, p1)
           | (conns, True) \<Rightarrow>
               (Returned, conns, close_log fd (close_default_db (close_default_cache (close_listener listener p1))))))"

section \<open>The panel is printed and aligned\<close>

lemma panel_width_bounds:
  "w \<le> panel_width rows w" "r \<in> set rows \<Longrightarrow> int (length r) \<le> panel_width rows w"
proof -
  show le: "w \<le> panel_width rows w" for rows w
  proof (induction rows arbitrary: w)
    case (Cons row rows)
    show ?case using Cons.IH [of "int (length row)"] Cons.IH [of w] by auto
  qed simp
  show "r \<in> set rows \<Longrightarrow> int (length r) \<le> panel_width rows w"
  proof (induction rows arbitrary: w)
    case (Cons row rows)
    then show ?case using le [of "max (int (length row)) w" rows] by (auto simp: max_def split: if_splits)
  qed simp
qed

definition panel_row :: "int \<Rightarrow> string \<Rightarrow> string" where
  "panel_row width row = box 0x82 @ '' '' @ row @ replicate (nat width - length row) CHR '' '' @ '' '' @ box 0x82"

lemma strings_Repeat_Some: "0 \<le> n \<Longrightarrow> strings_Repeat s n = Some (concat (replicate (nat n) s))"
  by (simp add: strings_Repeat_def)

lemma concat_replicate_single: "concat (replicate n [c]) = replicate n c"
  by (induction n) simp_all

lemma panel_lines_Some:
  "(\<And>r. r \<in> set rows \<Longrightarrow> int (length r) \<le> width) \<Longrightarrow> panel_lines width rows = Some (map (panel_row width) rows)"
proof (induction rows)
  case (Cons row rows)
  then have "strings_Repeat '' '' (width - int (length row)) = Some (replicate (nat width - length row) CHR '' '')"
    using Cons.prems [of row] by (simp add: strings_Repeat_Some concat_replicate_single nat_diff_distrib)
  then show ?case using Cons by (simp add: panel_row_def)
qed simp

text \<open>The columns a line takes: one for each byte that does not continue a character.\<close>

definition columns :: "string \<Rightarrow> nat" where
  "columns s = length (filter (\<lambda>c. \<not> is_cont c) s)"

lemma columns_append [simp]: "columns (s @ t) = columns s + columns t"
  by (simp add: columns_def)

lemma columns_box: "128 \<le> n \<Longrightarrow> n \<le> 191 \<Longrightarrow> columns (box n) = 1"
  by (simp add: columns_def box_def is_cont_def byte_val_def)

lemma columns_rule: "columns (concat (replicate n (box 0x80))) = n"
  by (induction n) (simp_all add: columns_box, simp add: columns_def)

lemma columns_plain: "list_all (\<lambda>c. \<not> is_cont c) s \<Longrightarrow> columns s = length s"
  by (simp add: columns_def list_all_iff)

lemma panel_aligned:
  obtains ls where "printStartupPanel cfg n = Some ls" "length ls = 7"
    "list_all (list_all (\<lambda>c. \<not> is_cont c)) (panel_rows cfg n) \<Longrightarrow>
       \<forall>l\<in>set ls. int (columns l) = panel_width (panel_rows cfg n) 0 + 4"
proof -
  let ?rows = "panel_rows cfg n" and ?rule = "concat (replicate (nat (panel_width (panel_rows cfg n) 0 + 2)) (box 0x80))"
  define width where "width = panel_width ?rows 0"
  have w: "0 \<le> width" "\<And>r. r \<in> set ?rows \<Longrightarrow> int (length r) \<le> width"
    using panel_width_bounds by (auto simp: width_def)
  let ?ls = "[box 0x8C @ ?rule @ box 0x90] @ map (panel_row width) ?rows @ [box 0x94 @ ?rule @ box 0x98]"
  have p: "printStartupPanel cfg n = Some ?ls"
    using w panel_lines_Some [of ?rows width] by (simp add: printStartupPanel_def Let_def strings_Repeat_Some width_def)
  have row: "int (columns (panel_row width r)) = width + 4" if "r \<in> set ?rows" "list_all (\<lambda>c. \<not> is_cont c) r" for r
  proof -
    have "columns r = length r" by (rule columns_plain [OF that(2)])
    moreover have "columns (CHR '' '' # s) = Suc (columns s)" "columns (replicate k CHR '' '') = k" for k s
      by (simp_all add: columns_def is_cont_def byte_val_def)
    ultimately show ?thesis using w(2) [OF that(1)] by (simp add: panel_row_def columns_box)
  qed
  have "\<forall>l\<in>set ?ls. int (columns l) = panel_width ?rows 0 + 4" if "list_all (list_all (\<lambda>c. \<not> is_cont c)) ?rows"
    using that row w(1) by (auto simp: list_all_iff columns_box columns_rule width_def)
  moreover have "length ?ls = 7" by (simp add: panel_rows_def)
  ultimately show thesis using that p by blast
qed

section \<open>Accepting connections\<close>

definition shutdown_event :: "bool \<times> nat result \<times> string \<Rightarrow> bool" where
  "shutdown_event ev \<longleftrightarrow> fst ev \<and> isl (fst (snd ev))"

definition accepted_connections :: "(bool \<times> nat result \<times> string) list \<Rightarrow> nat QuicConnection list" where
  "accepted_connections evs =
     map (\<lambda>ev. \<lparr>qc_conn = projr (fst (snd ev)), qc_id = snd (snd ev)\<rparr>) (filter (\<lambda>ev. \<not> isl (fst (snd ev))) evs)"

lemma accept_loop_eq:
  "accept_loop evs = (accepted_connections (takeWhile (\<lambda>ev. \<not> shutdown_event ev) evs), \<exists>ev\<in>set evs. shutdown_event ev)"
proof (induction evs)
  case (Cons ev evs)
  obtain cancelled accepted uid where ev: "ev = (cancelled, accepted, uid)" by (cases ev) auto
  show ?case using Cons
    by (cases accepted) (auto simp: ev Accept_def shutdown_event_def accepted_connections_def)
qed (simp add: accepted_connections_def)

lemma RouteCount_main: "RouteCount (main_table w cd) = 6"
proof -
  have "dom (main_table w cd) = fst ` set (main_routes w cd)"
    by (auto simp: dom_def main_table_def map_of_eq_None_iff)
  then show ?thesis by (simp add: RouteCount_def main_routes_def)
qed

section \<open>Start and shutdown\<close>

lemma create_InrD:
  assumes "exchange f (sql_create_table name refs db) db = (Inr u, db')"
  shows "db' = db\<lparr>created := List.insert name (created db)\<rparr>"
proof -
  obtain r db1 where s: "sql_create_table name refs db = (r, db1)" by (meson surj_pair)
  then have "r = Inr u \<and> db' = db1" using exchange_InrD [of f r db1 db u db'] assms by simp
  then show ?thesis using s by (auto simp: sql_create_table_def split: if_splits)
qed

lemma NewPPDatabase_InrD:
  assumes "NewPPDatabase w pool db = (Inr d, db')"
  shows "d = database_on pool" "set [''users'', ''user_tokens'', ''pending_account_deletions''] \<subseteq> set (created db')"
  using assms
  by (auto simp: NewPPDatabase_eq CreateTable_users_def CreateTable_user_tokens_def CreateTable_pending_def
      split: prod.splits sum.splits dest!: create_InrD)

lemma InitDefaultDB_InrD:
  assumes "InitDefaultDB w newp url g db = (Inr u, g', db')" "defaultDB g = None"
  obtains pool where "newp = Inr pool" "g' = g\<lparr>defaultDB := Some (database_on pool)\<rparr>"
    "set [''users'', ''user_tokens'', ''pending_account_deletions''] \<subseteq> set (created db')"
proof -
  obtain pool d where n: "newp = Inr pool" "NewPPDatabase w pool db = (Inr d, db')"
    "g' = g\<lparr>defaultDB := Some d, closed_pools := db_Close None (closed_pools g)\<rparr>"
    using assms by (auto simp: InitDefaultDB_def Let_def split: if_splits sum.splits prod.splits)
  show thesis using that [OF n(1)] NewPPDatabase_InrD [OF n(2)] n(3) by (cases g) (auto simp: db_Close_def)
qed

lemma InitDefaultCache_InrD:
  assumes "InitDefaultCache w env newc addr g = (Inr u, g')" "defaultCache g = None"
  shows "g' = g\<lparr>defaultCache := Some (NewPPCache newc)\<rparr>"
  using assms by (cases g) (auto simp: InitDefaultCache_def cache_Close_def Let_def split: if_splits sum.splits prod.splits)

text \<open>What holds once the start has succeeded.\<close>

definition started :: "externals \<Rightarrow> process \<Rightarrow> process \<Rightarrow> bool" where
  "started ext p p' \<longleftrightarrow>
     (\<exists>pool. ext_pool ext = Inr pool
        \<and> b_db (pr_backend p') = (b_db (pr_backend p))\<lparr>defaultDB := Some (database_on pool)\<rparr>)
   \<and> b_cache (pr_backend p') = (b_cache (pr_backend p))\<lparr>defaultCache := Some (NewPPCache (ext_client ext))\<rparr>
   \<and> set [''users'', ''user_tokens'', ''pending_account_deletions''] \<subseteq> set (created (b_tables (pr_backend p')))
   \<and> (\<exists>cfg ls cert l fd. Load (ext_env ext) = Inr cfg
        \<and> printStartupPanel cfg 6 = Some ls \<and> pr_output p' = pr_output p @ ls
        \<and> ext_pair ext (TLSCertFile cfg) (TLSKeyFile cfg) = Inr cert
        \<and> ext_listen ext (QUICAddr cfg) \<lparr>Certificates = [cert], NextProtos = [TLSALPN cfg]\<rparr> = Inr l
        \<and> ext_open ext (LogFile cfg) = Inr fd
        \<and> pr_listener p' = Some \<lparr>ql_listener = l\<rparr> \<and> pr_logger p' = Some fd)
   \<and> pr_worker p' \<and> pr_closed_files p' = pr_closed_files p \<and> pr_closed_listeners p' = pr_closed_listeners p"

lemma main_start_cases:
  assumes m: "main_start cd ext p = (r, p')"
    and fresh: "defaultDB (b_db (pr_backend p)) = None" "defaultCache (b_cache (pr_backend p)) = None"
  shows "(\<exists>msg err. r = Inl (Exited msg err) \<and> pr_listener p' = pr_listener p)
    \<or> (\<exists>l fd. r = Inr (l, fd) \<and> started ext p p' \<and> pr_listener p' = Some l \<and> pr_logger p' = Some fd)"
proof (cases "Load (ext_env ext)")
  case (Inr cfg)
  obtain ls where ls: "printStartupPanel cfg 6 = Some ls" by (rule panel_aligned)
  let ?b = "pr_backend p" and ?w = "ext_exchanges ext"
  let ?tls = "ext_pair ext (TLSCertFile cfg) (TLSKeyFile cfg)" and ?log = "NewNetworkLogger (ext_mkdir ext) (ext_open ext) (LogFile cfg)"
  obtain rd g db where d: "InitDefaultDB ?w (ext_pool ext) (GetPostgresURL cfg) (b_db ?b) (b_tables ?b) = (rd, g, db)"
    by (metis surj_pair)
  obtain rc c where c: "InitDefaultCache ?w (getenv (ext_env ext) ''REDIS_ADDR'') (ext_client ext) (RedisAddr cfg) (b_cache ?b) = (rc, c)"
    by (meson surj_pair)
  let ?listen = "\<lambda>cert. ext_listen ext (QUICAddr cfg) \<lparr>Certificates = [cert], NextProtos = [TLSALPN cfg]\<rparr>"
  note run = m [unfolded main_start_def Let_def TLSConfig_def Start_def] and eqs = Inr setup_routes_eq RouteCount_main ls d c
  show ?thesis
  proof (cases "isl ?tls \<or> isl ?log \<or> isl rd \<or> isl rc \<or> isl (?listen (projr ?tls))")
    case True
    then show ?thesis using run by (cases ?tls; cases "?listen (projr ?tls)") (auto simp: eqs split: sum.splits)
  next
    case False
    then obtain u1 u2 cert fd l where ok: "rd = Inr u1" "rc = Inr u2" "?tls = Inr cert" "?log = Inr fd" "?listen cert = Inr l"
      by (cases rd; cases rc; cases ?tls; cases ?log; cases "?listen (projr ?tls)") auto
    have p': "r = Inr (\<lparr>ql_listener = l\<rparr>, fd)" "p' = p\<lparr>pr_logger := Some fd, pr_backend := ?b\<lparr>b_db := g, b_tables := db, b_cache := c\<rparr>,
        pr_output := pr_output p @ ls, pr_worker := True, pr_listener := Some \<lparr>ql_listener = l\<rparr>\<rparr>"
      using run by (auto simp: eqs ok SetNetworkLogger_def)
    have "ext_open ext (LogFile cfg) = Inr fd" using ok(4) by (auto simp: NewNetworkLogger_def split: sum.splits)
    moreover obtain pool where "ext_pool ext = Inr pool" "g = (b_db ?b)\<lparr>defaultDB := Some (database_on pool)\<rparr>"
      "set [''users'', ''user_tokens'', ''pending_account_deletions''] \<subseteq> set (created db)"
      by (rule InitDefaultDB_InrD [OF d [unfolded ok(1)] fresh(1)])
    moreover have "c = (b_cache ?b)\<lparr>defaultCache := Some (NewPPCache (ext_client ext))\<rparr>"
      by (rule InitDefaultCache_InrD [OF c [unfolded ok(2)] fresh(2)])
    ultimately show ?thesis using p' Inr ls ok by (simp add: started_def)
  qed
qed (use m in \<open>auto simp: main_start_def Let_def\<close>)

text \<open>Nothing outside stands in the way of a start.\<close>

definition can_start :: "externals \<Rightarrow> bool" where
  "can_start ext \<longleftrightarrow> \<not> isl (Load (ext_env ext)) \<and> \<not> isl (ext_pool ext)
     \<and> (\<forall>cert key. \<not> isl (ext_pair ext cert key)) \<and> (\<forall>p. \<not> isl (ext_mkdir ext p) \<and> \<not> isl (ext_open ext p))
     \<and> (\<forall>addr tls. \<not> isl (ext_listen ext addr tls)) \<and> redis_fault (ext_exchanges ext) R_Ping = Delivered
     \<and> (\<forall>name. db_fault (ext_exchanges ext) (Q_CreateTable name) = Delivered)"

lemma InitDefaultDB_up:
  assumes "url \<noteq> ''''" "\<forall>name. db_fault w (Q_CreateTable name) = Delivered"
  shows "isl (fst (InitDefaultDB w (Inr pool) url g db)) = False"
  using assms
  by (simp add: InitDefaultDB_def NewPPDatabase_eq CreateTable_users_def CreateTable_user_tokens_def CreateTable_pending_def
      sql_create_table_def wrap_def Let_def)

lemma GetPostgresURL_nonempty [simp]: "GetPostgresURL c \<noteq> []"
  by (simp add: GetPostgresURL_def url_String_def Let_def)

lemma main_start_possible:
  assumes "can_start ext" "main_start cd ext p = (r, p')"
  shows "\<not> isl r"
proof -
  obtain cfg pool where ok: "Load (ext_env ext) = Inr cfg" "ext_pool ext = Inr pool"
    using assms(1) unfolding can_start_def by (metis sum.collapse(2))
  have up: "\<exists>x. ext_pair ext cert key = Inr x" "\<exists>x. ext_mkdir ext q = Inr x" "\<exists>x. ext_open ext q = Inr x"
      "\<exists>x. ext_listen ext addr tls = Inr x" for cert key q addr tls
    using assms(1) unfolding can_start_def by (metis sum.collapse(2))+
  obtain cert where t: "ext_pair ext (TLSCertFile cfg) (TLSKeyFile cfg) = Inr cert" using up(1) by blast
  obtain u4 fd where f: "ext_mkdir ext (LogFile cfg) = Inr u4" "ext_open ext (LogFile cfg) = Inr fd" using up(2,3) by blast
  obtain l where l: "ext_listen ext (QUICAddr cfg) \<lparr>Certificates = [cert], NextProtos = [TLSALPN cfg]\<rparr> = Inr l" using up(4) by blast
  obtain ls where ls: "printStartupPanel cfg 6 = Some ls" by (rule panel_aligned)
  let ?b = "pr_backend p" and ?w = "ext_exchanges ext"
  obtain rd g db where d: "InitDefaultDB ?w (Inr pool) (GetPostgresURL cfg) (b_db ?b) (b_tables ?b) = (rd, g, db)"
    by (metis surj_pair)
  then obtain u1 where "rd = Inr u1"
    using InitDefaultDB_up [of "GetPostgresURL cfg" ?w pool "b_db ?b" "b_tables ?b"] assms(1) by (cases rd) (auto simp: can_start_def)
  moreover have "RedisAddr cfg \<noteq> ''''" using ok(1) by (auto simp: Load_def Let_def split: if_splits)
  ultimately show ?thesis using assms d ok ls t f l
    by (auto simp: TLSConfig_def NewNetworkLogger_def Start_def main_start_def Let_def setup_routes_eq RouteCount_main InitDefaultCache_def can_start_def)
qed

text \<open>
  C39. The life of the program, from a process with no default stores. It never panics. It
  ends with exit code 1 only when something outside stood in the way of the start, before it
  listens, and then has accepted no connection. Otherwise
  the configuration was complete, both stores are open, all three tables exist, the panel with
  the six routes was printed and the worker and the listener run; it serves exactly the
  connections accepted before the first error of \<open>Accept\<close> under a cancelled context, other
  errors being skipped. It returns exactly when there is such an error, and then has closed the
  listener, the log, and the pool and the client it opened, each once.
\<close>

theorem main_life:
  assumes "main_go cd ext evs p = (out, conns, p')"
    and "defaultDB (b_db (pr_backend p)) = None" "defaultCache (b_cache (pr_backend p)) = None"
  shows "(\<exists>msg err. out = Exited msg err \<and> \<not> can_start ext \<and> conns = [] \<and> pr_listener p' = pr_listener p)
    \<or> (\<exists>p1. started ext p p1 \<and> conns = accepted_connections (takeWhile (\<lambda>ev. \<not> shutdown_event ev) evs)
        \<and> (if \<exists>ev\<in>set evs. shutdown_event ev
           then out = Returned \<and> b_tables (pr_backend p') = b_tables (pr_backend p1)
             \<and> (\<exists>pool. ext_pool ext = Inr pool \<and> closed_pools (b_db (pr_backend p')) = pool # closed_pools (b_db (pr_backend p)))
             \<and> closed_clients (b_cache (pr_backend p')) = ext_client ext # closed_clients (b_cache (pr_backend p))
             \<and> (\<exists>l. pr_listener p1 = Some l \<and> pr_closed_listeners p' = ql_listener l # pr_closed_listeners p)
             \<and> (\<exists>fd. pr_logger p1 = Some fd \<and> pr_closed_files p' = fd # pr_closed_files p)
           else out = Serving \<and> p' = p1))"
proof -
  obtain r p1 where s: "main_start cd ext p = (r, p1)" by (meson surj_pair)
  show ?thesis
  proof (cases "isl r")
    case True
    then show ?thesis using main_start_cases [OF s assms(2,3)] main_start_possible [OF _ s] assms(1) s by (auto simp: main_go_def)
  next
    case False
    then obtain l fd where r: "r = Inr (l, fd)" "started ext p p1" "pr_listener p1 = Some l" "pr_logger p1 = Some fd"
      using main_start_cases [OF s assms(2,3)] by auto
    let ?p2 = "close_log fd (close_default_db (close_default_cache (close_listener l p1)))"
    have closed: "b_tables (pr_backend ?p2) = b_tables (pr_backend p1)"
      "\<exists>pool. ext_pool ext = Inr pool \<and> closed_pools (b_db (pr_backend ?p2)) = pool # closed_pools (b_db (pr_backend p))"
      "closed_clients (b_cache (pr_backend ?p2)) = ext_client ext # closed_clients (b_cache (pr_backend p))"
      "pr_closed_listeners ?p2 = ql_listener l # pr_closed_listeners p" "pr_closed_files ?p2 = fd # pr_closed_files p"
      using r(2)
      by (auto simp: started_def close_listener_def close_default_cache_def close_default_db_def close_log_def
          listener_Close_def DefaultCache_def DefaultDB_def cache_Close_def db_Close_def Let_def)
    have "main_go cd ext evs p = (if \<exists>ev\<in>set evs. shutdown_event ev then Returned else Serving,
        accepted_connections (takeWhile (\<lambda>ev. \<not> shutdown_event ev) evs), if \<exists>ev\<in>set evs. shutdown_event ev then ?p2 else p1)"
      using r(1) s by (simp add: main_go_def accept_loop_eq)
    then show ?thesis using assms(1) r closed by (intro disjI2 exI [of _ p1]) (auto simp del: set_simps)
  qed
qed

text \<open>
  A process started with every variable set to \<open>x\<close>; one peer connects, then one
  \<open>Accept\<close> fails, then the program is interrupted.
\<close>

definition demo_externals :: externals where
  "demo_externals = \<lparr>ext_env = (\<lambda>_. Some ''x''), ext_pair = (\<lambda>_ _. Inr 3), ext_mkdir = (\<lambda>_. Inr ()),
     ext_open = (\<lambda>_. Inr 4), ext_pool = Inr 1, ext_client = 2, ext_listen = (\<lambda>_ _. Inr 5), ext_exchanges = quiet_outside\<rparr>"

definition demo_process :: process where
  "demo_process = \<lparr>pr_backend = \<lparr>b_db = \<lparr>defaultDB = None, closed_pools = []\<rparr>,
       b_cache = \<lparr>defaultCache = None, closed_clients = []\<rparr>, b_tables = empty_db, b_redis = (\<lambda>_. None)\<rparr>,
     pr_output = [], pr_worker = False, pr_logger = None, pr_listener = None, pr_closed_files = [], pr_closed_listeners = []\<rparr>"

definition demo_accepts :: "(bool \<times> nat result \<times> string) list" where
  "demo_accepts = [(False, Inr 7, ''c1''), (False, Inl io_EOF, ''''), (True, Inl io_EOF, '''')]"

lemma demo_starts: "can_start demo_externals"
  by (simp add: can_start_def demo_externals_def quiet_outside_def Load_def read_config_def getenv_def)

theorem main_life_witness:
  "\<exists>p'. main_go demo_codec demo_externals demo_accepts demo_process = (Returned, [\<lparr>qc_conn = 7, qc_id = ''c1''\<rparr>], p')
     \<and> closed_pools (b_db (pr_backend p')) = [1] \<and> closed_clients (b_cache (pr_backend p')) = [2]"
proof -
  obtain out conns p' where m: "main_go demo_codec demo_externals demo_accepts demo_process = (out, conns, p')" by (metis surj_pair)
  have fresh: "defaultDB (b_db (pr_backend demo_process)) = None" "defaultCache (b_cache (pr_backend demo_process)) = None"
    "closed_pools (b_db (pr_backend demo_process)) = []" "closed_clients (b_cache (pr_backend demo_process)) = []"
    by (simp_all add: demo_process_def)
  have ev: "\<exists>ev\<in>set demo_accepts. shutdown_event ev"
    "accepted_connections (takeWhile (\<lambda>ev. \<not> shutdown_event ev) demo_accepts) = [\<lparr>qc_conn = 7, qc_id = ''c1''\<rparr>]"
    by (simp_all add: demo_accepts_def shutdown_event_def accepted_connections_def)
  have "ext_pool demo_externals = Inr 1" "ext_client demo_externals = 2" by (simp_all add: demo_externals_def)
  then show ?thesis using main_life [OF m fresh(1,2)] demo_starts m fresh(3,4) ev by auto
qed

end
