(* ===== verification/Goroutines.thy ===== *)
theory Goroutines
  imports Auth
begin

text \<open>
  Goroutines that share a state. A goroutine is a program that makes one atomic access to the
  shared state at a time: a statement of a store, an operation of a concurrent map, or a section
  under a mutex. Any number of goroutines form a pool, which runs them in any interleaving.
  Nothing here depends on what the state is.
\<close>

section \<open>Programs\<close>

text \<open>
  A program has returned, or makes an access: the condition under which it can be made (a
  goroutine that waits for a mutex cannot go on), the state it leaves, and the program that
  follows, all depending on the state the access finds.
\<close>

datatype ('s, 'a) prog = Return "'a result" | Call "'s \<Rightarrow> bool" "'s \<Rightarrow> 's" "'s \<Rightarrow> ('s, 'a) prog"

text \<open>What a program does when nothing else runs and it never has to wait.\<close>

primrec run :: "('s, 'a) prog \<Rightarrow> 's \<Rightarrow> 'a result \<times> 's" where
  "run (Return r) s = (r, s)"
| "run (Call g e c) s = run (c s) (e s)"

primrec never_waits :: "('s, 'a) prog \<Rightarrow> 's \<Rightarrow> bool" where
  "never_waits (Return r) s \<longleftrightarrow> True"
| "never_waits (Call g e c) s \<longleftrightarrow> g s \<and> never_waits (c s) (e s)"

primrec bind_prog :: "('s, 'a) prog \<Rightarrow> ('a \<Rightarrow> ('s, 'b) prog) \<Rightarrow> ('s, 'b) prog" where
  "bind_prog (Return r) k = (case r of Inl err \<Rightarrow> Return (Inl err) | Inr x \<Rightarrow> k x)"
| "bind_prog (Call g e c) k = Call g e (\<lambda>s. bind_prog (c s) k)"

text \<open>An access that need not wait, and what follows it.\<close>

definition call :: "('s \<Rightarrow> 'a result \<times> 's) \<Rightarrow> ('s, 'a) prog" where
  "call f = Call (\<lambda>_. True) (\<lambda>s. snd (f s)) (\<lambda>s. Return (fst (f s)))"

definition next_call :: "('s \<Rightarrow> 'a result \<times> 's) \<Rightarrow> ('a \<Rightarrow> ('s, 'b) prog) \<Rightarrow> ('s, 'b) prog" where
  "next_call f k = bind_prog (call f) k"

text \<open>The error of a program as its value.\<close>

primrec attempt :: "('s, 'a) prog \<Rightarrow> ('s, 'a result) prog" where
  "attempt (Return r) = Return (Inr r)"
| "attempt (Call g e c) = Call g e (\<lambda>s. attempt (c s))"

lemma bind_Return [simp]: "bind_prog (Return (Inl err)) k = Return (Inl err)" "bind_prog (Return (Inr x)) k = k x"
  by simp_all

declare bind_prog.simps(1) [simp del]

lemma run_bind [simp]: "run (bind_prog p k) s = and_then (run p s) (\<lambda>x. run (k x))"
proof (induction p arbitrary: s)
  case (Return r)
  then show ?case by (cases r) simp_all
qed simp

lemma run_call [simp]: "run (call f) s = f s"
  by (simp add: call_def)

lemma run_next [simp]: "run (next_call f k) s = and_then (f s) (\<lambda>x. run (k x))"
  by (simp add: next_call_def)

lemma run_attempt [simp]: "run (attempt p) s = (Inr (fst (run p s)), snd (run p s))"
  by (induction p arbitrary: s) simp_all

lemma run_if: "run (if c then p else q) s = (if c then run p s else run q s)"
  by simp

lemma and_then_cong: "(\<And>y s. k y s = k' y s) \<Longrightarrow> and_then x k = and_then x k'"
  by (cases x; cases "fst x") auto

lemma bind_assoc: "bind_prog (bind_prog p k) k' = bind_prog p (\<lambda>x. bind_prog (k x) k')"
proof (induction p)
  case (Return r)
  then show ?case by (cases r) simp_all
qed simp

lemma bind_next: "bind_prog (next_call g k) k' = next_call g (\<lambda>x. bind_prog (k x) k')"
  by (simp add: next_call_def bind_assoc)

section \<open>What every access of a program does\<close>

primrec every_call :: "('s \<Rightarrow> 's \<Rightarrow> bool) \<Rightarrow> ('s, 'a) prog \<Rightarrow> bool" where
  "every_call R (Return r) \<longleftrightarrow> True"
| "every_call R (Call g e c) \<longleftrightarrow> (\<forall>s. (g s \<longrightarrow> R s (e s)) \<and> every_call R (c s))"

lemma every_call_bind: "every_call R p \<Longrightarrow> (\<And>x. every_call R (k x)) \<Longrightarrow> every_call R (bind_prog p k)"
proof (induction p)
  case (Return r)
  then show ?case by (cases r) simp_all
qed simp

lemma every_call_call [simp]: "every_call R (call f) \<longleftrightarrow> (\<forall>s. R s (snd (f s)))"
  by (simp add: call_def)

lemma every_call_next: "(\<And>s. R s (snd (f s))) \<Longrightarrow> (\<And>x. every_call R (k x)) \<Longrightarrow> every_call R (next_call f k)"
  by (simp add: next_call_def every_call_bind)

lemma every_call_if: "(c \<Longrightarrow> every_call R p) \<Longrightarrow> (\<not> c \<Longrightarrow> every_call R q) \<Longrightarrow> every_call R (if c then p else q)"
  by simp

lemma every_call_attempt: "every_call R p \<Longrightarrow> every_call R (attempt p)"
  by (induction p) simp_all

lemmas every_intros = every_call_next every_call_bind every_call_if

definition keeps :: "('s \<Rightarrow> bool) \<Rightarrow> 's \<Rightarrow> 's \<Rightarrow> bool" where
  "keeps P s s' \<longleftrightarrow> (P s \<longrightarrow> P s')"

lemma keeps_same [simp]: "keeps P s s"
  by (simp add: keeps_def)

section \<open>Pools\<close>

text \<open>One step of a pool: one goroutine makes its next access.\<close>

inductive pool_step :: "('s, 'a) prog list \<times> 's \<Rightarrow> ('s, 'a) prog list \<times> 's \<Rightarrow> bool" where
  "i < length ps \<Longrightarrow> ps ! i = Call g e c \<Longrightarrow> g s \<Longrightarrow> pool_step (ps, s) (ps[i := c s], e s)"

inductive_cases pool_stepE: "pool_step (ps, s) t"

lemma pool_length: "pool_step\<^sup>*\<^sup>* s t \<Longrightarrow> length (fst t) = length (fst s)"
  by (induction rule: rtranclp_induct) (auto elim!: pool_step.cases)

definition pool_ok :: "('s \<Rightarrow> bool) \<Rightarrow> ('s, 'a) prog list \<times> 's \<Rightarrow> bool" where
  "pool_ok P t \<longleftrightarrow> (\<forall>p\<in>set (fst t). every_call (keeps P) p) \<and> P (snd t)"

interpretation pools: step_invariant pool_step "pool_ok P" for P
proof
  fix s t
  assume "pool_step s t" "pool_ok P s"
  then show "pool_ok P t"
  proof cases
    case (1 i ps g e c st)
    have "every_call (keeps P) (Call g e c)" using \<open>pool_ok P s\<close> 1 nth_mem [of i ps] by (auto simp: pool_ok_def)
    then show ?thesis using \<open>pool_ok P s\<close> 1
      by (auto simp: pool_ok_def keeps_def dest!: subsetD [OF set_update_subset_insert])
  qed
qed

text \<open>Every pool ends: programs are finite, however many programs they may go on to be.\<close>

inductive follows :: "('s, 'a) prog \<Rightarrow> ('s, 'a) prog \<Rightarrow> bool" where
  "follows (c s) (Call g e c)"

lemma wf_follows: "wf {(q :: ('s, 'a) prog, p). follows q p}"
proof (rule wfUNIVI)
  fix P :: "('s, 'a) prog \<Rightarrow> bool" and p
  assume step: "\<forall>p. (\<forall>q. (q, p) \<in> {(q, p). follows q p} \<longrightarrow> P q) \<longrightarrow> P p"
  show "P p"
  proof (induction p)
    case (Return r)
    then show ?case using step by (auto elim: follows.cases)
  next
    case (Call g e c)
    then have "P q" if "follows q (Call g e c)" for q using that by (auto elim: follows.cases)
    then show ?case using step by blast
  qed
qed

lemma pool_ends: "wf {(t, s :: ('s, 'a) prog list \<times> 's). pool_step s t}"
proof -
  have "wf (inv_image (listrel1 {(q, p). follows q p}) (fst :: ('s, 'a) prog list \<times> 's \<Rightarrow> _))"
    using wf_follows by (intro wf_inv_image) (simp add: wf_listrel1_iff)
  moreover have "{(t, s :: ('s, 'a) prog list \<times> 's). pool_step s t} \<subseteq> inv_image (listrel1 {(q, p). follows q p}) fst"
  proof clarify
    fix ps ps' :: "('s, 'a) prog list" and s s'
    assume "pool_step (ps, s) (ps', s')"
    then show "((ps', s'), (ps, s)) \<in> inv_image (listrel1 {(q, p). follows q p}) fst"
    proof (rule pool_stepE)
      fix i g e c
      assume i: "i < length ps" "ps ! i = Call g e c" "(ps', s') = (ps[i := c s], e s)"
      have "ps' = take i ps @ c s # drop (Suc i) ps" "ps = take i ps @ Call g e c # drop (Suc i) ps"
        using i by (simp_all add: upd_conv_take_nth_drop) (metis id_take_nth_drop)
      then show ?thesis using follows.intros [of c s g e] by (auto intro: listrel1I)
    qed
  qed
  ultimately show ?thesis by (rule wf_subset)
qed

lemma pool_no_infinite: "\<not> (\<forall>n. pool_step (f n) (f (Suc n)))"
  using pool_ends unfolding wf_iff_no_infinite_down_chain by blast

lemma pool_finishes: "\<exists>t. pool_step\<^sup>*\<^sup>* s t \<and> (\<nexists>u. pool_step t u)"
  using pool_ends
proof (induction s rule: wf_induct_rule)
  case (less s)
  then show ?case
  proof (cases "\<exists>u. pool_step s u")
    case True
    then obtain u where u: "pool_step s u" by blast
    then obtain t where "pool_step\<^sup>*\<^sup>* u t" "\<nexists>v. pool_step t v" using less by blast
    then show ?thesis using u by (blast intro: converse_rtranclp_into_rtranclp)
  qed blast
qed

section \<open>The number of accesses\<close>

text \<open>At most \<open>n\<close> accesses, as long as the state satisfies \<open>P\<close> when they are made.\<close>

primrec calls_within :: "('s \<Rightarrow> bool) \<Rightarrow> ('s, 'a) prog \<Rightarrow> nat \<Rightarrow> bool" where
  "calls_within P (Return r) n \<longleftrightarrow> True"
| "calls_within P (Call g e c) n \<longleftrightarrow> 0 < n \<and> (\<forall>s. P s \<longrightarrow> calls_within P (c s) (n - 1))"

lemma calls_within_mono: "calls_within P p m \<Longrightarrow> m \<le> n \<Longrightarrow> calls_within P p n"
proof (induction p arbitrary: m n)
  case (Call g e c)
  then show ?case by (auto intro: Call.IH [of "c _" "m - 1" "n - 1"])
qed simp

lemma calls_bind:
  "calls_within P p m \<Longrightarrow> (\<And>x. calls_within P (k x) n) \<Longrightarrow> calls_within P (bind_prog p k) (m + n)"
proof (induction p arbitrary: m)
  case (Return r)
  have "calls_within P (k x) (m + n)" for x using Return(2) [of x] by (rule calls_within_mono) simp
  then show ?case by (cases r) simp_all
next
  case (Call g e c)
  have "calls_within P (bind_prog (c s) k) (m + n - 1)" if "P s" for s
  proof -
    have "calls_within P (bind_prog (c s) k) (m - 1 + n)" using Call.prems that by (intro Call.IH) auto
    then show ?thesis using Call.prems(1) by simp
  qed
  then show ?case using Call.prems(1) by simp
qed

lemma calls_next_result:
  "(\<And>s x. P s \<Longrightarrow> fst (f s) = Inr x \<Longrightarrow> calls_within P (k x) n) \<Longrightarrow> calls_within P (next_call f k) (Suc n)"
proof -
  assume k: "\<And>s x. P s \<Longrightarrow> fst (f s) = Inr x \<Longrightarrow> calls_within P (k x) n"
  have "calls_within P (bind_prog (Return (fst (f s))) k) n" if "P s" for s
    using k [OF that] by (cases "fst (f s)") auto
  then show ?thesis by (simp add: next_call_def call_def)
qed

lemma calls_next: "(\<And>x. calls_within P (k x) n) \<Longrightarrow> calls_within P (next_call f k) (Suc n)"
  by (rule calls_next_result)

lemma calls_call: "calls_within P (call f) (Suc 0)"
  by (simp add: call_def)

lemma calls_Return: "calls_within P (Return r) n"
  by simp

lemma calls_if: "(c \<Longrightarrow> calls_within P p n) \<Longrightarrow> (\<not> c \<Longrightarrow> calls_within P q n) \<Longrightarrow> calls_within P (if c then p else q) n"
  by simp

lemma calls_pure: "(\<And>x. calls_within P (k x) n) \<Longrightarrow> calls_within P (bind_prog (Return r) k) n"
  by (cases r) simp_all

lemma calls_optional: "(\<And>x. calls_within P (k x) n) \<Longrightarrow> calls_within P (bind_prog (if c then call f else Return r) k) (Suc n)"
  using calls_bind [of P "if c then call f else Return r" "Suc 0" k n] by (simp add: calls_call split: if_split_asm)

lemmas calls_intros = calls_Return calls_if calls_next calls_pure calls_optional

text \<open>Each step of a pool uses up one of the accesses that are left.\<close>

definition calls_left :: "('s \<Rightarrow> bool) \<Rightarrow> ('s, 'a) prog list \<Rightarrow> nat list \<Rightarrow> bool" where
  "calls_left P ps ms \<longleftrightarrow> list_all2 (calls_within P) ps ms"

lemma step_uses_call:
  assumes "pool_step (ps, s) (ps', s')" "calls_left P ps ms" "P s"
  shows "\<exists>ms'. calls_left P ps' ms' \<and> sum_list ms = Suc (sum_list ms')"
  using assms(1)
proof (rule pool_stepE)
  fix i g e c
  assume i: "i < length ps" "ps ! i = Call g e c" "(ps', s') = (ps[i := c s], e s)"
  have len: "length ms = length ps" using assms(2) by (auto simp: calls_left_def dest: list_all2_lengthD)
  have w: "calls_within P (Call g e c) (ms ! i)" using assms(2) i(1,2) by (metis calls_left_def list_all2_nthD)
  then have c: "0 < ms ! i" "calls_within P (c s) (ms ! i - 1)" using assms(3) by auto
  have "calls_left P ps' (ms[i := ms ! i - 1])"
    using assms(2) i(3) c(2) by (auto simp: calls_left_def intro: list_all2_update_cong)
  moreover have "sum_list ms = Suc (sum_list (ms[i := ms ! i - 1]))"
    using c(1) i(1) len elem_le_sum_list [of i ms] by (simp add: sum_list_update)
  ultimately show ?thesis by blast
qed

lemma steps_use_calls:
  "(pool_step ^^ n) (ps, s) (ps', s') \<Longrightarrow> pool_ok P (ps, s) \<Longrightarrow> calls_left P ps ms \<Longrightarrow>
   \<exists>ms'. calls_left P ps' ms' \<and> sum_list ms = n + sum_list ms'"
proof (induction n arbitrary: ps' s')
  case (Suc n)
  then obtain ps1 s1 where s: "(pool_step ^^ n) (ps, s) (ps1, s1)" "pool_step (ps1, s1) (ps', s')" by auto
  then obtain ms1 where m: "calls_left P ps1 ms1" "sum_list ms = n + sum_list ms1" using Suc by blast
  have "pool_step\<^sup>*\<^sup>* (ps, s) (ps1, s1)" using s(1) by (rule relpowp_imp_rtranclp)
  then have "P s1" using pools.steps_keep [of "(ps, s)" "(ps1, s1)" P] Suc.prems(2) by (simp add: pool_ok_def)
  then show ?case using step_uses_call [OF s(2) m(1)] m(2) by auto
qed auto

section \<open>One goroutine\<close>

text \<open>One goroutine alone, and its steps as steps of a pool.\<close>

inductive thread_step :: "('s, 'a) prog \<times> 's \<Rightarrow> ('s, 'a) prog \<times> 's \<Rightarrow> bool" where
  thread_call: "g s \<Longrightarrow> thread_step (Call g e c, s) (c s, e s)"

lemma thread_next: "f s = (Inr x, s') \<Longrightarrow> thread_step (next_call f k, s) (k x, s')"
  using thread_call [of "\<lambda>_. True" s "\<lambda>s. snd (f s)" "\<lambda>s. bind_prog (Return (fst (f s))) k"] by (simp add: next_call_def call_def)

lemma thread_bind: "thread_step (p, s) (q, s') \<Longrightarrow> thread_step (bind_prog p k, s) (bind_prog q k, s')"
  by (auto elim!: thread_step.cases intro: thread_call)

lemma thread_binds: "thread_step\<^sup>*\<^sup>* (p, s) (q, s') \<Longrightarrow> thread_step\<^sup>*\<^sup>* (bind_prog p k, s) (bind_prog q k, s')"
proof (induction rule: rtranclp_induct2)
  case (step q s q' s')
  then show ?case using thread_bind by (meson rtranclp.rtrancl_into_rtrancl)
qed simp

lemma pool_lift_step: "thread_step s t \<Longrightarrow> i < length ps \<Longrightarrow> pool_step (ps[i := fst s], snd s) (ps[i := fst t], snd t)"
proof (induction rule: thread_step.induct)
  case (thread_call g s e c)
  then show ?case using pool_step.intros [of i "ps[i := Call g e c]" g e c s] by simp
qed

lemma pool_lift:
  assumes "thread_step\<^sup>*\<^sup>* s t" "i < length ps"
  shows "pool_step\<^sup>*\<^sup>* (ps[i := fst s], snd s) (ps[i := fst t], snd t)"
  using assms(1)
proof (induction rule: rtranclp_induct)
  case (step t u)
  then show ?case using pool_lift_step [OF step(2) assms(2)] by simp
qed simp

lemma thread_runs: "never_waits p s \<Longrightarrow> thread_step\<^sup>*\<^sup>* (p, s) (Return (fst (run p s)), snd (run p s))"
proof (induction p arbitrary: s)
  case (Call g e c)
  then show ?case using thread_call [of g s e c] by (auto intro: converse_rtranclp_into_rtranclp)
qed simp

text \<open>Programs all of whose accesses need not wait.\<close>

primrec waitless :: "('s, 'a) prog \<Rightarrow> bool" where
  "waitless (Return r) \<longleftrightarrow> True"
| "waitless (Call g e c) \<longleftrightarrow> (\<forall>s. g s \<and> waitless (c s))"

lemma waitless_bind: "waitless p \<Longrightarrow> (\<And>x. waitless (k x)) \<Longrightarrow> waitless (bind_prog p k)"
proof (induction p)
  case (Return r)
  then show ?case by (cases r) simp_all
qed simp

lemma waitless_call [simp]: "waitless (call f)"
  by (simp add: call_def)

lemma waitless_next: "(\<And>x. waitless (k x)) \<Longrightarrow> waitless (next_call f k)"
  by (simp add: next_call_def waitless_bind)

lemma waitless_if: "(c \<Longrightarrow> waitless p) \<Longrightarrow> (\<not> c \<Longrightarrow> waitless q) \<Longrightarrow> waitless (if c then p else q)"
  by simp

lemmas waitless_intros = waitless_next waitless_bind waitless_if

lemma waitless_never: "waitless p \<Longrightarrow> never_waits p s"
  by (induction p arbitrary: s) auto

interpretation waiting: step_invariant pool_step "\<lambda>t. \<forall>p\<in>set (fst t). waitless p"
proof
  fix s t
  assume "pool_step s t" "\<forall>p\<in>set (fst s). waitless p"
  then show "\<forall>p\<in>set (fst t). waitless p"
  proof cases
    case (1 i ps g e c st)
    then have "waitless (Call g e c)" using \<open>\<forall>p\<in>set (fst s). waitless p\<close> nth_mem [of i ps] by fastforce
    then show ?thesis using 1 \<open>\<forall>p\<in>set (fst s). waitless p\<close> by (auto dest!: subsetD [OF set_update_subset_insert])
  qed
qed

lemma waitless_stuck:
  assumes "\<forall>p\<in>set ps. waitless p" "\<nexists>t. pool_step (ps, s) t" "i < length ps"
  shows "\<exists>r. ps ! i = Return r"
proof (cases "ps ! i")
  case (Call g e c)
  then have "g s" using assms(1,3) nth_mem [of i ps] by fastforce
  then show ?thesis using assms(2,3) Call pool_step.intros [of i ps g e c s] by blast
qed simp

end
