(* ===== verification/Interleaving.thy ===== *)
theory Interleaving
  imports Deletion Goroutines
begin

text \<open>
  The account service under concurrency. \<open>Auth\<close> and \<open>Deletion\<close> give each call of
  \<open>src/server/auth\<close> as one function of the stores. Here the same calls are programs that
  make one exchange with a store at a time, so that the goroutines of several requests and of
  the deletion worker can run between any two of them. Every program is shown to be the
  function when it runs alone.
\<close>

section \<open>The calls of the account service\<close>

definition reject_pending_prog :: "outside \<Rightarrow> string \<Rightarrow> (backend, unit) prog" where
  "reject_pending_prog w userID =
     next_call (on_db (ExistsActiveByUserID w userID))
       (\<lambda>pending. Return (if pending then Inl ErrAccountPendingDeletion else Inr ()))"

definition Register_prog :: "outside \<Rightarrow> AuthCredentials \<Rightarrow> (backend, AuthResult) prog" where
  "Register_prog w creds =
     next_call (\<lambda>b. (defaultDeps b, b)) (\<lambda>(database, redis).
     let normalized = NormalizeUsername (lower_table w) (c_Username creds) in
     if \<not> ValidUsername normalized then Return (Inl ErrInvalidUsername)
     else if TrimSpace (c_Password creds) = '''' then Return (Inl ErrPasswordRequired)
     else
     let deviceID = TrimSpace (c_DeviceID creds) in
     if deviceID = '''' then Return (Inl ErrDeviceIDRequired)
     else
     let deviceName = TrimSpace (c_DeviceName creds); displayName = TrimSpace (c_DisplayName creds) in
     bind_prog (if redis \<noteq> None then call (on_redis (UsernameExists w redis normalized)) else Return (Inr False)) (\<lambda>ex.
     if ex then Return (Inl ErrUsernameTaken)
     else
     next_call (on_db (IsUsernameAvailable w normalized)) (\<lambda>available.
     if \<not> available then Return (Inl ErrUsernameTaken)
     else
     bind_prog (Return (hashPassword w (c_Password creds))) (\<lambda>passwordHash.
     next_call (on_db (CreateUser w normalized displayName passwordHash)) (\<lambda>user.
     bind_prog (if redis \<noteq> None
                then call (\<lambda>b. (Inr (), snd (on_redis (SetUsername w redis normalized (u_ID user)) b)))
                else Return (Inr ())) (\<lambda>_.
     bind_prog (Return (generateSessionTokenPair w)) (\<lambda>(sessionToken, sessionTokenHash).
     next_call (on_db (UpsertActiveToken w (u_ID user) deviceID deviceName sessionTokenHash)) (\<lambda>_.
     Return (Inr \<lparr>a_UserID = u_ID user, a_DeviceID = deviceID, a_DeviceName = deviceName,
                  a_SessionToken = sessionToken\<rparr>)))))))))"

definition LoginByCredentials_prog :: "outside \<Rightarrow> AuthCredentials \<Rightarrow> (backend, AuthResult) prog" where
  "LoginByCredentials_prog w creds =
     next_call (\<lambda>b. (defaultDeps b, b)) (\<lambda>_.
     let normalized = NormalizeUsername (lower_table w) (c_Username creds) in
     if \<not> ValidUsername normalized then Return (Inl ErrInvalidCredentials)
     else if TrimSpace (c_Password creds) = '''' then Return (Inl ErrInvalidCredentials)
     else
     let deviceID = TrimSpace (c_DeviceID creds) in
     if deviceID = '''' then Return (Inl ErrDeviceIDRequired)
     else
     let deviceName = TrimSpace (c_DeviceName creds) in
     next_call (\<lambda>b. replace_error ErrUserNotFound ErrInvalidCredentials (on_db (GetUserByUsername w normalized) b)) (\<lambda>user.
     if verifyPassword (argon2_IDKey w) (c_Password creds) (u_PasswordHash user) \<noteq> Inr True
     then Return (Inl ErrInvalidCredentials)
     else
     bind_prog (reject_pending_prog w (u_ID user)) (\<lambda>_.
     bind_prog (Return (generateSessionTokenPair w)) (\<lambda>(sessionToken, sessionTokenHash).
     next_call (on_db (UpsertActiveToken w (u_ID user) deviceID deviceName sessionTokenHash)) (\<lambda>_.
     Return (Inr \<lparr>a_UserID = u_ID user, a_DeviceID = deviceID, a_DeviceName = deviceName,
                  a_SessionToken = sessionToken\<rparr>))))))"

definition LoginByToken_prog :: "outside \<Rightarrow> string \<Rightarrow> (backend, AuthResult) prog" where
  "LoginByToken_prog w sessionToken0 =
     next_call (\<lambda>b. (defaultDeps b, b)) (\<lambda>_.
     let sessionToken = TrimSpace sessionToken0 in
     if sessionToken = '''' then Return (Inl ErrSessionTokenNeeded)
     else
     next_call (\<lambda>b. replace_error ErrUserTokenNotFound ErrInvalidToken
                      (on_db (GetActiveByTokenHash w (hashToken sessionToken)) b)) (\<lambda>storedToken.
     bind_prog (reject_pending_prog w (t_UserID storedToken)) (\<lambda>_.
     bind_prog (Return (generateSessionTokenPair w)) (\<lambda>(newToken, newTokenHash).
     next_call (\<lambda>b. replace_error ErrUserTokenNotFound ErrInvalidToken
                      (on_db (RotateToken w (t_TokenID storedToken) newTokenHash) b)) (\<lambda>_.
     Return (Inr \<lparr>a_UserID = t_UserID storedToken, a_DeviceID = t_DeviceID storedToken,
                  a_DeviceName = t_DeviceName storedToken, a_SessionToken = newToken\<rparr>))))))"

definition verify_delete_prog :: "outside \<Rightarrow> string \<Rightarrow> string \<Rightarrow> (backend, User) prog" where
  "verify_delete_prog w username password =
     (let normalized = NormalizeUsername (lower_table w) username in
      if \<not> ValidUsername normalized \<or> TrimSpace password = '''' then Return (Inl ErrInvalidCredentials)
      else
      next_call (\<lambda>b. replace_error ErrUserNotFound ErrInvalidCredentials (on_db (GetUserByUsername w normalized) b)) (\<lambda>user.
      if verifyPassword (argon2_IDKey w) password (u_PasswordHash user) \<noteq> Inr True
      then Return (Inl ErrInvalidCredentials)
      else Return (Inr user)))"

definition ScheduleAccountDeletion_prog :: "outside \<Rightarrow> string \<Rightarrow> string \<Rightarrow> (backend, uint64) prog" where
  "ScheduleAccountDeletion_prog w username password =
     next_call (\<lambda>b. (defaultDeps b, b)) (\<lambda>_.
     bind_prog (verify_delete_prog w username password) (\<lambda>user.
     let deleteAt = go_now w + AccountDeletionDelay in
     next_call (on_db (UpsertDeletion w (u_ID user) deleteAt)) (\<lambda>deletion.
     Return (Inr (word_of_int (p_DeleteAt deletion div 10 ^ 6))))))"

text \<open>The two statements of \<open>CancelIfNotStarted\<close>.\<close>

definition cancel_delete :: "outside \<Rightarrow> string \<Rightarrow> tables \<Rightarrow> nat result \<times> tables" where
  "cancel_delete w userID db = wrap ''cancel pending account deletion''
     (with_uuid w userID (\<lambda>u. exchange (db_fault w Q_CancelDelete) (sql_cancel_deletion u db) db) db)"

definition cancel_check :: "outside \<Rightarrow> string \<Rightarrow> tables \<Rightarrow> bool result \<times> tables" where
  "cancel_check w userID db = wrap ''check started pending account deletion''
     (with_uuid w userID (\<lambda>u. exchange (db_fault w Q_CancelCheck)
        (Inr (\<exists>r\<in>set (deletions db). p_UserID r = u \<and> p_StartedAt r \<noteq> None), db) db) db)"

definition CancelIfNotStarted_prog :: "outside \<Rightarrow> string \<Rightarrow> (backend, bool \<times> bool) prog" where
  "CancelIfNotStarted_prog w userID0 =
     (let userID = TrimSpace userID0 in
      if userID = '''' then Return (Inl (missing ''user_id''))
      else
      next_call (on_db (cancel_delete w userID)) (\<lambda>affected.
      if 0 < affected then Return (Inr (True, False))
      else
      next_call (on_db (cancel_check w userID)) (\<lambda>startedExists.
      Return (Inr (False, startedExists)))))"

definition CancelAccountDeletion_prog :: "outside \<Rightarrow> string \<Rightarrow> string \<Rightarrow> (backend, unit) prog" where
  "CancelAccountDeletion_prog w username password =
     next_call (\<lambda>b. (defaultDeps b, b)) (\<lambda>_.
     bind_prog (verify_delete_prog w username password) (\<lambda>user.
     bind_prog (CancelIfNotStarted_prog w (u_ID user)) (\<lambda>(cancelled, inProgress).
     Return (if inProgress then Inl ErrAccountDeletionInProgress else Inr ()))))"

section \<open>A program alone is the function\<close>

lemma run_reject: "run (reject_pending_prog w i) b = rejectIfPendingDeletion w i b"
  by (auto simp: reject_pending_prog_def rejectIfPendingDeletion_def intro!: and_then_cong)

lemma run_verify: "run (verify_delete_prog w n p) b = verifyDeleteCredentials w n p b"
  by (auto simp: verify_delete_prog_def verifyDeleteCredentials_def Let_def intro!: and_then_cong)

lemma run_Register: "run (Register_prog w creds) b = Register w creds b"
  by (auto simp: Register_prog_def Register_def Let_def run_if split: prod.split intro!: and_then_cong)

lemma run_LoginByCredentials: "run (LoginByCredentials_prog w creds) b = LoginByCredentials w creds b"
  by (auto simp: LoginByCredentials_prog_def LoginByCredentials_def Let_def run_reject split: prod.split intro!: and_then_cong)

lemma run_LoginByToken: "run (LoginByToken_prog w tok) b = LoginByToken w tok b"
  by (auto simp: LoginByToken_prog_def LoginByToken_def Let_def run_reject split: prod.split intro!: and_then_cong)

lemma run_Schedule: "run (ScheduleAccountDeletion_prog w n p) b = ScheduleAccountDeletion w n p b"
  by (auto simp: ScheduleAccountDeletion_prog_def ScheduleAccountDeletion_def Let_def run_verify intro!: and_then_cong)

lemma run_CancelIfNotStarted: "run (CancelIfNotStarted_prog w i) b = on_db (CancelIfNotStarted w i) b"
proof (cases "TrimSpace i = ''''")
  case False
  let ?del = "with_uuid w (TrimSpace i) (\<lambda>u. exchange (db_fault w Q_CancelDelete) (sql_cancel_deletion u (b_tables b)) (b_tables b)) (b_tables b)"
  obtain r db1 where d: "?del = (r, db1)" by (meson surj_pair)
  let ?chk = "with_uuid w (TrimSpace i) (\<lambda>u. exchange (db_fault w Q_CancelCheck)
    (Inr (\<exists>r\<in>set (deletions db1). p_UserID r = u \<and> p_StartedAt r \<noteq> None), db1) db1) db1"
  obtain r' db2 where c: "?chk = (r', db2)" by (meson surj_pair)
  show ?thesis using False d c
    by (cases r; cases r')
       (auto simp: CancelIfNotStarted_prog_def CancelIfNotStarted_def cancel_delete_def cancel_check_def wrap_def on_db_def Let_def)
qed (simp add: CancelIfNotStarted_prog_def CancelIfNotStarted_def on_db_def)

lemma run_Cancel: "run (CancelAccountDeletion_prog w n p) b = CancelAccountDeletion w n p b"
  by (auto simp: CancelAccountDeletion_prog_def CancelAccountDeletion_def run_verify run_CancelIfNotStarted split: prod.split
      intro!: and_then_cong)

section \<open>The deletion worker\<close>

text \<open>Errors of the worker are logged and the loop goes on, so its programs never fail.\<close>

definition remove_name_prog :: "outside \<Rightarrow> PPCache option \<Rightarrow> string \<Rightarrow> (backend, unit) prog" where
  "remove_name_prog w redis username =
     (if redis = None then Return (Inr ())
      else let normalized = NormalizeUsername (lower_table w) username in
        if \<not> ValidUsername normalized then Return (Inr ())
        else call (\<lambda>b. (Inr (), snd (on_redis (RemoveUsername w redis normalized) b))))"

definition process_item_prog :: "outside \<Rightarrow> PPCache option \<Rightarrow> PendingAccountDeletion \<Rightarrow> (backend, unit) prog" where
  "process_item_prog w redis item =
     next_call (\<lambda>b. case on_db (DeleteUserByID w (p_UserID item)) b of (r, b1) \<Rightarrow> (Inr r, b1)) (\<lambda>r.
     case r of
       Inl err \<Rightarrow>
         if errors_is err ErrUserNotFound then call (\<lambda>b. (Inr (), snd (on_db (DeleteByUserID w (p_UserID item)) b)))
         else Return (Inr ())
     | Inr username \<Rightarrow> remove_name_prog w redis username)"

fun process_items_prog :: "outside \<Rightarrow> PPCache option \<Rightarrow> PendingAccountDeletion list \<Rightarrow> (backend, unit) prog" where
  "process_items_prog w redis [] = Return (Inr ())"
| "process_items_prog w redis (item # items) =
     bind_prog (process_item_prog w redis item) (\<lambda>_. process_items_prog w redis items)"

definition worker_prog :: "outside \<Rightarrow> (backend, unit) prog" where
  "worker_prog w =
     next_call (\<lambda>b. (Inr (defaultDeps b), b)) (\<lambda>deps.
     case deps of
       Inl err \<Rightarrow> Return (Inr ())
     | Inr (database, redis) \<Rightarrow>
         next_call (\<lambda>b. case on_db (ClaimDue w 50) b of (r, b1) \<Rightarrow> (Inr r, b1)) (\<lambda>r.
         case r of Inl err \<Rightarrow> Return (Inr ()) | Inr claimed \<Rightarrow> process_items_prog w redis claimed))"

lemma run_process_item: "run (process_item_prog w redis item) b = (Inr (), process_item w redis item b)"
  by (auto simp: process_item_prog_def process_item_def remove_name_prog_def removeUsernameFromCache_def Let_def
      split: prod.split sum.split)

lemma run_process_items: "run (process_items_prog w redis items) b = (Inr (), process_items w redis items b)"
  by (induction items arbitrary: b) (simp_all add: run_process_item)

lemma run_worker: "run (worker_prog w) b = (Inr (), processDueAccountDeletions w b)"
  by (auto simp: worker_prog_def processDueAccountDeletions_def run_process_items split: sum.split prod.split)

section \<open>Goroutines\<close>

datatype request =
    RRegister outside AuthCredentials
  | RLogin outside AuthCredentials
  | RToken outside string
  | RSchedule outside string string
  | RCancel outside string string
  | RWorker outside

datatype reply = Authenticated AuthResult | Scheduled uint64 | Finished

definition reply_prog :: "('a \<Rightarrow> reply) \<Rightarrow> (backend, 'a) prog \<Rightarrow> (backend, reply) prog" where
  "reply_prog f p = bind_prog p (\<lambda>x. Return (Inr (f x)))"

fun prog_of :: "request \<Rightarrow> (backend, reply) prog" where
  "prog_of (RRegister w creds) = reply_prog Authenticated (Register_prog w creds)"
| "prog_of (RLogin w creds) = reply_prog Authenticated (LoginByCredentials_prog w creds)"
| "prog_of (RToken w tok) = reply_prog Authenticated (LoginByToken_prog w tok)"
| "prog_of (RSchedule w n p) = reply_prog Scheduled (ScheduleAccountDeletion_prog w n p)"
| "prog_of (RCancel w n p) = reply_prog (\<lambda>_. Finished) (CancelAccountDeletion_prog w n p)"
| "prog_of (RWorker w) = reply_prog (\<lambda>_. Finished) (worker_prog w)"

text \<open>What the same request does in one step.\<close>

definition with_reply :: "('a \<Rightarrow> reply) \<Rightarrow> 'a result \<times> backend \<Rightarrow> reply result \<times> backend" where
  "with_reply f rb = (map_sum id f (fst rb), snd rb)"

fun serve :: "request \<Rightarrow> backend \<Rightarrow> reply result \<times> backend" where
  "serve (RRegister w creds) b = with_reply Authenticated (Register w creds b)"
| "serve (RLogin w creds) b = with_reply Authenticated (LoginByCredentials w creds b)"
| "serve (RToken w tok) b = with_reply Authenticated (LoginByToken w tok b)"
| "serve (RSchedule w n p) b = with_reply Scheduled (ScheduleAccountDeletion w n p b)"
| "serve (RCancel w n p) b = with_reply (\<lambda>_. Finished) (CancelAccountDeletion w n p b)"
| "serve (RWorker w) b = (Inr Finished, processDueAccountDeletions w b)"

lemma run_reply: "run (reply_prog f p) b = with_reply f (run p b)"
proof -
  obtain r b' where r: "run p b = (r, b')" by (meson surj_pair)
  then show ?thesis by (cases r) (simp_all add: reply_prog_def with_reply_def)
qed

lemma run_prog_of: "run (prog_of r) b = serve r b"
  by (cases r) (simp_all add: run_reply run_Register run_LoginByCredentials run_LoginByToken run_Schedule run_Cancel run_worker with_reply_def)

section \<open>What every call of a program does\<close>

abbreviation keeps_ok :: "backend \<Rightarrow> backend \<Rightarrow> bool" where
  "keeps_ok \<equiv> keeps backend_ok"

definition keeps_users :: "backend \<Rightarrow> backend \<Rightarrow> bool" where
  "keeps_users b b' \<longleftrightarrow> u_Username ` set (users (b_tables b)) \<subseteq> u_Username ` set (users (b_tables b'))"

lemma keeps_refl [simp]: "keeps_users b b"
  by (simp add: keeps_users_def)

lemma keeps_same_users [simp]:
  "users db = users (b_tables b) \<Longrightarrow> keeps_users b (b\<lparr>b_tables := db\<rparr>)" "keeps_users b (b\<lparr>b_redis := rs\<rparr>)"
  "keeps_ok b (b\<lparr>b_redis := rs\<rparr>)"
  by (simp_all add: keeps_users_def keeps_def ok_tokens)

lemma users_more: "set (users db) \<subseteq> set (users (snd (CreateUser w n d h db)))"
proof -
  obtain r d' where s: "sql_insert_user w (TrimSpace n) (TrimSpace d) h db = (r, d')" by (meson surj_pair)
  then have "set (users db) \<subseteq> set (users d')" by (auto simp: sql_insert_user_def Let_def split: if_splits)
  then show ?thesis by (cases "db_fault w Q_CreateUser") (auto simp: CreateUser_def Let_def s split: sum.split)
qed

lemma keeps_CreateUser: "keeps_users b (b\<lparr>b_tables := snd (CreateUser w n d ph (b_tables b))\<rparr>)"
  using users_more [of "b_tables b" w n d ph] by (auto simp: keeps_users_def)

lemma cancel_statements:
  "users (snd (cancel_delete w i db)) = users db" "snd (cancel_check w i db) = db"
  "backend_ok b \<Longrightarrow> backend_ok (b\<lparr>b_tables := snd (cancel_delete w i (b_tables b))\<rparr>)"
proof -
  have w: "snd (wrap m x) = snd x" for m and x :: "'a result \<times> tables" by (cases x; cases "fst x") (auto simp: wrap_def)
  show u: "users (snd (cancel_delete w i db)) = users db" for db
    unfolding cancel_delete_def w
    by (auto intro!: exchange_keeps [where P = "\<lambda>d. users d = users db"] with_uuid_keeps [where P = "\<lambda>d. users d = users db"]
        simp: sql_cancel_deletion_def)
  show "snd (cancel_check w i db) = db" unfolding cancel_check_def w by (simp add: snd_with_uuid_readonly)
  show "backend_ok (b\<lparr>b_tables := snd (cancel_delete w i (b_tables b))\<rparr>)" if "backend_ok b"
  proof -
    have "db_wf (snd (cancel_delete w i (b_tables b)))"
      using that unfolding cancel_delete_def w backend_ok_def by (auto intro!: method_keeps wf_intros)
    then show ?thesis using that u [of "b_tables b"] by (simp add: backend_ok_def names_valid_def)
  qed
qed

lemma keeps_calls [simp]:
  "keeps_ok b (b\<lparr>b_tables := snd (UpsertActiveToken w u d n h (b_tables b))\<rparr>)"
  "keeps_ok b (b\<lparr>b_tables := snd (RotateToken w i h (b_tables b))\<rparr>)"
  "keeps_ok b (b\<lparr>b_tables := snd (UpsertDeletion w u t (b_tables b))\<rparr>)"
  "keeps_ok b (b\<lparr>b_tables := snd (cancel_delete w u (b_tables b))\<rparr>)"
  "ValidUsername n \<Longrightarrow> keeps_ok b (b\<lparr>b_tables := snd (CreateUser w n d ph (b_tables b))\<rparr>)"
  by (simp_all add: keeps_def ok_tokens ok_CreateUser cancel_statements)

lemma every_reject: "R = keeps_ok \<or> R = keeps_users \<Longrightarrow> every_call R (reject_pending_prog w i)"
  by (auto simp: reject_pending_prog_def intro!: every_intros)

lemma every_verify: "R = keeps_ok \<or> R = keeps_users \<Longrightarrow> every_call R (verify_delete_prog w n p)"
  by (auto simp: verify_delete_prog_def Let_def intro!: every_intros)

lemma every_service_call:
  assumes "R = keeps_ok \<or> R = keeps_users"
  shows "every_call R (Register_prog w creds)" "every_call R (LoginByCredentials_prog w creds)"
    "every_call R (LoginByToken_prog w tok)" "every_call R (ScheduleAccountDeletion_prog w n p)"
    "every_call R (CancelAccountDeletion_prog w n p)"
  using assms every_reject [OF assms] every_verify [OF assms]
  by (auto simp: Register_prog_def LoginByCredentials_prog_def LoginByToken_prog_def ScheduleAccountDeletion_prog_def
      CancelAccountDeletion_prog_def CancelIfNotStarted_prog_def Let_def cancel_statements keeps_CreateUser split: prod.split intro!: every_intros)

lemma every_worker: "every_call keeps_ok (worker_prog w)"
proof -
  have del: "keeps_ok b (b\<lparr>b_tables := snd (DeleteUserByID w i (b_tables b))\<rparr>)" for i b
    using users_DeleteUserByID [of w i "b_tables b"] wf_DeleteUserByID [of "b_tables b" w i]
    by (auto simp: keeps_def backend_ok_def names_valid_def)
  have del2: "keeps_ok b (b\<lparr>b_tables := snd (DeleteByUserID w i (b_tables b))\<rparr>)" for i b
    by (simp add: keeps_def backend_ok_def names_valid_def wf_intros)
  have claim: "keeps_ok b (b\<lparr>b_tables := snd (ClaimDue w 50 (b_tables b))\<rparr>)" for b
    using ClaimDue_tables(1) [of w 50 "b_tables b" "fst (ClaimDue w 50 (b_tables b))" "snd (ClaimDue w 50 (b_tables b))"]
    by (auto simp: keeps_def backend_ok_def names_valid_def wf_intros)
  have tagged: "snd (case on_db f b of (r, b1) \<Rightarrow> (Inr r, b1)) = b\<lparr>b_tables := snd (f (b_tables b))\<rparr>" for f b
    by (simp add: on_db_def split: prod.split)
  have item: "every_call keeps_ok (process_item_prog w redis item)" for redis item
    unfolding process_item_prog_def remove_name_prog_def
    by (auto simp: tagged del del2 Let_def split: sum.split intro!: every_intros)
  have "every_call keeps_ok (process_items_prog w redis items)" for redis items
    by (induction items) (auto intro!: every_intros item)
  then show ?thesis unfolding worker_prog_def
    by (auto simp: tagged claim split: sum.split prod.split intro!: every_intros)
qed

lemma every_reply: "every_call R p \<Longrightarrow> every_call R (reply_prog f p)"
  by (simp add: reply_prog_def every_call_bind)

lemma prog_keeps_ok: "every_call keeps_ok (prog_of r)"
  by (cases r) (simp_all add: every_reply every_service_call every_worker)

fun is_worker :: "request \<Rightarrow> bool" where
  "is_worker (RWorker w) = True"
| "is_worker _ = False"

lemma prog_keeps_users: "\<not> is_worker r \<Longrightarrow> every_call keeps_users (prog_of r)"
  by (cases r) (simp_all add: every_reply every_service_call)

section \<open>The number of calls\<close>

lemma calls_reject: "calls_within backend_ok (reject_pending_prog w i) 1"
  unfolding reject_pending_prog_def One_nat_def by (intro calls_intros)

lemma calls_verify: "calls_within backend_ok (verify_delete_prog w n p) 1"
  unfolding verify_delete_prog_def Let_def One_nat_def by (intro calls_intros)

lemma calls_Register: "calls_within backend_ok (Register_prog w creds) 6"
proof -
  have "calls_within backend_ok (Register_prog w creds) (Suc (Suc (Suc (Suc (Suc (Suc 0))))))"
    unfolding Register_prog_def Let_def case_prod_beta by (intro calls_intros)
  then show ?thesis by (simp add: eval_nat_numeral)
qed

lemma calls_LoginByCredentials: "calls_within backend_ok (LoginByCredentials_prog w creds) 4"
proof -
  have "calls_within backend_ok (LoginByCredentials_prog w creds) (Suc (Suc (1 + Suc 0)))"
    unfolding LoginByCredentials_prog_def Let_def case_prod_beta by (intro calls_intros calls_bind calls_reject)
  then show ?thesis by (simp add: eval_nat_numeral)
qed

lemma calls_LoginByToken: "calls_within backend_ok (LoginByToken_prog w tok) 4"
proof -
  have "calls_within backend_ok (LoginByToken_prog w tok) (Suc (Suc (1 + Suc 0)))"
    unfolding LoginByToken_prog_def Let_def case_prod_beta by (intro calls_intros calls_bind calls_reject)
  then show ?thesis by (simp add: eval_nat_numeral)
qed

lemma calls_Schedule: "calls_within backend_ok (ScheduleAccountDeletion_prog w n p) 3"
proof -
  have "calls_within backend_ok (ScheduleAccountDeletion_prog w n p) (Suc (1 + Suc 0))"
    unfolding ScheduleAccountDeletion_prog_def Let_def by (intro calls_intros calls_bind calls_verify)
  then show ?thesis by (simp add: eval_nat_numeral)
qed

lemma calls_Cancel: "calls_within backend_ok (CancelAccountDeletion_prog w n p) 4"
proof -
  have c: "calls_within backend_ok (CancelIfNotStarted_prog w i) (Suc (Suc 0))" for i
    unfolding CancelIfNotStarted_prog_def Let_def by (intro calls_intros)
  have "calls_within backend_ok (CancelAccountDeletion_prog w n p) (Suc (1 + (Suc (Suc 0) + 0)))"
    unfolding CancelAccountDeletion_prog_def case_prod_beta by (intro calls_intros calls_bind calls_verify c)
  then show ?thesis by (simp add: eval_nat_numeral)
qed

lemma claimed_at_most_50: "backend_ok b \<Longrightarrow> fst (on_db (ClaimDue w 50) b) = Inr items \<Longrightarrow> length items \<le> 50"
proof -
  assume b: "backend_ok b" and i: "fst (on_db (ClaimDue w 50) b) = Inr items"
  obtain db' where c: "ClaimDue w 50 (b_tables b) = (Inr items, db')"
    using i by (cases "ClaimDue w 50 (b_tables b)") (auto simp: on_db_def)
  then show ?thesis using ClaimDue_effect(2) [OF c] b by (simp add: backend_ok_def due_rows_def claim_limit_def)
qed

lemma calls_worker: "calls_within backend_ok (worker_prog w) 102"
proof -
  have item: "calls_within backend_ok (process_item_prog w redis item) 2" for redis item
  proof -
    have "calls_within backend_ok (process_item_prog w redis item) (Suc (Suc 0))"
      unfolding process_item_prog_def remove_name_prog_def Let_def
      by (rule calls_next) (auto split: sum.split simp: calls_call)
    then show ?thesis by (simp add: eval_nat_numeral)
  qed
  have "calls_within backend_ok (process_items_prog w redis items) (2 * length items)" for redis items
  proof (induction items)
    case (Cons i items)
    have "calls_within backend_ok (process_items_prog w redis (i # items)) (2 + 2 * length items)"
      unfolding process_items_prog.simps by (intro calls_bind item Cons)
    then show ?case by simp
  qed simp
  then have items: "calls_within backend_ok (process_items_prog w redis items) 100" if "length items \<le> 50" for redis items
    by (rule calls_within_mono) (use that in simp)
  have "calls_within backend_ok (worker_prog w) (Suc (Suc 100))"
    unfolding worker_prog_def
  proof (rule calls_next, split sum.split, intro conjI allI impI)
    fix deps :: "goerror + PPDatabase \<times> PPCache option" and x
    assume "deps = Inr x"
    have "calls_within backend_ok (next_call (\<lambda>b. case on_db (ClaimDue w 50) b of (r, b1) \<Rightarrow> (Inr r, b1))
        (\<lambda>r. case r of Inl err \<Rightarrow> Return (Inr ()) | Inr claimed \<Rightarrow> process_items_prog w (snd x) claimed)) (Suc 100)"
      by (rule calls_next_result) (auto split: sum.split prod.splits intro!: items claimed_at_most_50 [where w = w])
    then show "calls_within backend_ok (case x of (database, redis) \<Rightarrow> next_call (\<lambda>b. case on_db (ClaimDue w 50) b of (r, b1) \<Rightarrow> (Inr r, b1))
        (\<lambda>r. case r of Inl err \<Rightarrow> Return (Inr ()) | Inr claimed \<Rightarrow> process_items_prog w redis claimed)) (Suc 100)"
      by (simp add: case_prod_beta)
  qed simp
  then show ?thesis by simp
qed

fun max_calls :: "request \<Rightarrow> nat" where
  "max_calls (RRegister w creds) = 6"
| "max_calls (RLogin w creds) = 4"
| "max_calls (RToken w tok) = 4"
| "max_calls (RSchedule w n p) = 3"
| "max_calls (RCancel w n p) = 4"
| "max_calls (RWorker w) = 102"

lemma calls_reply: "calls_within backend_ok p n \<Longrightarrow> calls_within backend_ok (reply_prog f p) n"
  unfolding reply_prog_def using calls_bind [of backend_ok p n "\<lambda>x. Return (Inr (f x))" 0] by simp

lemma prog_calls: "calls_within backend_ok (prog_of r) (max_calls r)"
  by (cases r) (simp_all add: calls_reply calls_Register calls_LoginByCredentials calls_LoginByToken calls_Schedule calls_Cancel calls_worker)

section \<open>Any interleaving\<close>

text \<open>No access of these programs waits for another goroutine.\<close>

lemma service_waitless:
  "waitless (Register_prog w creds)" "waitless (LoginByCredentials_prog w creds)" "waitless (LoginByToken_prog w tok)"
  "waitless (ScheduleAccountDeletion_prog w n p)" "waitless (CancelAccountDeletion_prog w n p)"
proof -
  have verify: "waitless (verify_delete_prog w n p)" for w n p by (auto simp: verify_delete_prog_def Let_def intro!: waitless_intros)
  show "waitless (Register_prog w creds)" "waitless (LoginByCredentials_prog w creds)" "waitless (LoginByToken_prog w tok)"
    "waitless (ScheduleAccountDeletion_prog w n p)" "waitless (CancelAccountDeletion_prog w n p)"
    by (auto simp: Register_prog_def LoginByCredentials_prog_def LoginByToken_prog_def ScheduleAccountDeletion_prog_def reject_pending_prog_def
        CancelAccountDeletion_prog_def CancelIfNotStarted_prog_def Let_def split: prod.split intro!: waitless_intros verify)
qed

lemma worker_waitless: "waitless (worker_prog w)"
proof -
  have item: "waitless (process_item_prog w redis item)" for redis item
    by (auto simp: process_item_prog_def remove_name_prog_def Let_def split: sum.split intro!: waitless_intros)
  have "waitless (process_items_prog w redis items)" for redis items
    by (induction items) (auto intro!: waitless_intros item)
  then show ?thesis by (auto simp: worker_prog_def split: sum.split prod.split intro!: waitless_intros)
qed

lemma prog_waitless: "waitless (prog_of r)"
  by (cases r) (auto simp: reply_prog_def service_waitless worker_waitless intro!: waitless_intros)

lemma pool_start: "backend_ok b \<Longrightarrow> pool_ok backend_ok (map prog_of rs, b)"
  by (auto simp: pool_ok_def prog_keeps_ok)

text \<open>
  C9. Requests under concurrency. Any number of requests and rounds of the worker are started
  on well-formed tables and their goroutines run in any interleaving of their exchanges with
  the stores, each of which may fail. Then every request makes at most six, four, four, three
  or four exchanges, a round of the worker at most 102, so that the whole run is no longer
  than the sum of these; when no goroutine can go on, all have returned; and at every moment the
  tables satisfy their constraints and hold valid names only.
\<close>

theorem interleavings_bounded:
  assumes "backend_ok b" "(pool_step ^^ n) (map prog_of rs, b) (ps, b')"
  shows "n \<le> sum_list (map max_calls rs) \<and> db_wf (b_tables b') \<and> names_valid (b_tables b')
    \<and> ((\<nexists>t. pool_step (ps, b') t) \<longrightarrow> (\<forall>i<length rs. \<exists>r. ps ! i = Return r))"
proof -
  have left: "calls_left backend_ok (map prog_of rs) (map max_calls rs)"
    by (simp add: calls_left_def list_all2_map1 list_all2_map2 list_all2_same prog_calls)
  obtain ms where ms: "calls_left backend_ok ps ms" "sum_list (map max_calls rs) = n + sum_list ms"
    using steps_use_calls [OF assms(2) pool_start [OF assms(1)] left] by blast
  have steps: "pool_step\<^sup>*\<^sup>* (map prog_of rs, b) (ps, b')" using assms(2) by (rule relpowp_imp_rtranclp)
  then have "pool_ok backend_ok (ps, b')" using pools.steps_keep pool_start [OF assms(1)] by blast
  moreover have "length ps = length rs" using pool_length [OF steps] by simp
  moreover have "\<exists>r. ps ! i = Return r" if "i < length ps" "\<nexists>t. pool_step (ps, b') t" for i
    using waiting.steps_keep [OF steps] prog_waitless that by (intro waitless_stuck [of ps b']) auto
  ultimately show ?thesis using ms(2) by (simp add: pool_ok_def backend_ok_def)
qed

section \<open>Registering the same name twice\<close>

definition has_name :: "string \<Rightarrow> backend \<Rightarrow> bool" where
  "has_name n b \<longleftrightarrow> n \<in> u_Username ` set (users (b_tables b))"

text \<open>
  A program that can only succeed after one of its calls has inserted the name \<open>n\<close>, which
  was not there.
\<close>

primrec must_insert :: "string \<Rightarrow> (backend, 'a) prog \<Rightarrow> bool" where
  "must_insert n (Return r) \<longleftrightarrow> isl r"
| "must_insert n (Call g e c) \<longleftrightarrow> (\<forall>b. (\<not> has_name n b \<and> has_name n (e b)) \<or> must_insert n (c b))"

lemma must_insert_bind: "(\<And>x. must_insert n (k x)) \<Longrightarrow> must_insert n (bind_prog p k)"
proof (induction p)
  case (Return r)
  then show ?case by (cases r) simp_all
qed simp

lemma must_insert_next: "(\<And>x. must_insert n (k x)) \<Longrightarrow> must_insert n (next_call f k)"
  by (simp add: next_call_def must_insert_bind)

lemma must_insert_call:
  "(\<And>b x b'. f b = (Inr x, b') \<Longrightarrow> \<not> has_name n b \<and> has_name n b') \<Longrightarrow> must_insert n (next_call f k)"
proof -
  assume f: "\<And>b x b'. f b = (Inr x, b') \<Longrightarrow> \<not> has_name n b \<and> has_name n b'"
  have "\<not> has_name n b \<and> has_name n (snd (f b)) \<or> must_insert n (bind_prog (Return (fst (f b))) k)" for b
    using f [of b] by (cases "fst (f b)"; cases "f b") auto
  then show ?thesis by (simp add: next_call_def call_def)
qed

lemma must_insert_reply: "must_insert n p \<Longrightarrow> must_insert n (reply_prog f p)"
proof -
  have "must_insert n p \<Longrightarrow> must_insert n (bind_prog p (\<lambda>x. Return (Inr (f x))))"
  proof (induction p)
    case (Return r)
    then show ?case by (cases r) simp_all
  qed auto
  then show "must_insert n p \<Longrightarrow> must_insert n (reply_prog f p)" by (simp add: reply_prog_def)
qed

lemma Register_must_insert: "must_insert (NormalizeUsername (lower_table w) (c_Username creds)) (Register_prog w creds)"
proof -
  let ?n = "NormalizeUsername (lower_table w) (c_Username creds)"
  have c: "must_insert ?n (next_call (on_db (CreateUser w ?n d ph)) k)" if "ValidUsername ?n" for d ph and k :: "User \<Rightarrow> (backend, AuthResult) prog"
  proof (rule must_insert_call)
    fix b x b'
    assume "on_db (CreateUser w ?n d ph) b = (Inr x, b')"
    then obtain db where "CreateUser w ?n d ph (b_tables b) = (Inr x, db)" "b' = b\<lparr>b_tables := db\<rparr>" by (auto simp: on_db_iff)
    note new = CreateUser_InrD(3,5,6) [OF this(1), unfolded TrimSpace_ValidUsername [OF that]] this(2)
    show "\<not> has_name ?n b \<and> has_name ?n b'" using new by (auto simp: has_name_def lookup_by_None_iff)
  qed
  show ?thesis unfolding Register_prog_def Let_def
    by (auto split: prod.split intro!: must_insert_next must_insert_bind c)
qed

text \<open>The goroutines \<open>G\<close> of a pool that register \<open>n\<close>: before the insertion all of them must
  still insert it, after it all but one.\<close>

definition one_inserter :: "nat set \<Rightarrow> string \<Rightarrow> (backend, 'a) prog list \<times> backend \<Rightarrow> bool" where
  "one_inserter G n t \<longleftrightarrow> (\<forall>p\<in>set (fst t). every_call keeps_users p) \<and> (\<forall>i\<in>G. i < length (fst t))
     \<and> ((\<forall>i\<in>G. must_insert n (fst t ! i)) \<or> (has_name n (snd t) \<and> (\<exists>j. \<forall>i\<in>G. i \<noteq> j \<longrightarrow> must_insert n (fst t ! i))))"

interpretation registrations: step_invariant pool_step "one_inserter G n" for G n
proof
  fix s t :: "(backend, 'a) prog list \<times> backend"
  assume "pool_step s t" and inv: "one_inserter G n s"
  from \<open>pool_step s t\<close> show "one_inserter G n t"
  proof cases
    case (1 i ps g e c b)
    have call: "every_call keeps_users (Call g e c)" using inv 1 nth_mem [of i ps] by (auto simp: one_inserter_def)
    then have "keeps_users b (e b)" using \<open>g b\<close> by simp
    then have kept: "has_name n b \<Longrightarrow> has_name n (e b)" by (auto simp: keeps_users_def has_name_def)
    have all: "\<forall>p\<in>set (ps[i := c b]). every_call keeps_users p"
      using inv 1 call by (auto simp: one_inserter_def dest!: subsetD [OF set_update_subset_insert])
    have len: "\<forall>j\<in>G. j < length ps" using inv 1 by (simp add: one_inserter_def)
    have other: "must_insert n (ps[i := c b] ! j)" if "j \<noteq> i" "must_insert n (ps ! j)" for j using that by simp
    consider "\<forall>j\<in>G. must_insert n (ps ! j)" | k where "has_name n b" "\<forall>j\<in>G. j \<noteq> k \<longrightarrow> must_insert n (ps ! j)"
      using inv 1 by (auto simp: one_inserter_def)
    then have "(\<forall>j\<in>G. must_insert n (ps[i := c b] ! j)) \<or> (has_name n (e b) \<and> (\<exists>k. \<forall>j\<in>G. j \<noteq> k \<longrightarrow> must_insert n (ps[i := c b] ! j)))"
    proof cases
      case 1
      show ?thesis
      proof (cases "must_insert n (c b) \<or> i \<notin> G")
        case True
        then show ?thesis using 1 other len by (metis nth_list_update_eq)
      next
        case False
        then have "must_insert n (Call g e c)" using 1 \<open>ps ! i = Call g e c\<close> by metis
        then have "has_name n (e b)" using False by auto
        then show ?thesis using 1 other by blast
      qed
    next
      case (2 k)
      have "must_insert n (ps[i := c b] ! j)" if "j \<in> G" "j \<noteq> k" for j
      proof (cases "j = i")
        case True
        then have "must_insert n (Call g e c)" using 2 that \<open>ps ! i = Call g e c\<close> by metis
        then have "must_insert n (c b)" using 2(1) by auto
        then show ?thesis using True len that(1) by simp
      qed (use 2 that other in blast)
      then show ?thesis using kept 2(1) by blast
    qed
    then show ?thesis using all len 1 by (simp add: one_inserter_def)
  qed
qed

text \<open>
  C8. A name is registered once, also under concurrency. Whatever requests run at the same
  time (registrations, logins, scheduled and cancelled deletions, but no round of the worker,
  which may free the name), in whatever interleaving of their exchanges with the stores: of two
  registrations of names with the same normal form at most one succeeds. The check before the
  insertion does not give this, both may pass it; the unique column does.
\<close>

theorem concurrent_registrations:
  assumes "\<forall>r\<in>set rs. \<not> is_worker r" "pool_step\<^sup>*\<^sup>* (map prog_of rs, b) (ps, b')"
    and "i < length rs" "j < length rs" "i \<noteq> j" "rs ! i = RRegister w creds" "rs ! j = RRegister w' creds'"
    and "NormalizeUsername (lower_table w) (c_Username creds) = NormalizeUsername (lower_table w') (c_Username creds')"
  shows "\<not> (\<exists>x y. ps ! i = Return (Inr x) \<and> ps ! j = Return (Inr y))"
proof -
  let ?n = "NormalizeUsername (lower_table w) (c_Username creds)"
  have r: "must_insert (NormalizeUsername (lower_table w) (c_Username creds)) (prog_of (RRegister w creds))" for w creds
    by (simp add: must_insert_reply Register_must_insert)
  have "one_inserter {i, j} ?n (map prog_of rs, b)"
    using assms(1,3,4) r [of w creds] r [of w' creds'] prog_keeps_users unfolding assms(8) [symmetric]
    by (auto simp: one_inserter_def assms(6,7))
  then have "one_inserter {i, j} ?n (ps, b')" using registrations.steps_keep assms(2) by blast
  then show ?thesis using assms(5) by (auto simp: one_inserter_def)
qed

section \<open>Presenting the same token twice\<close>

lemma reply_next: "reply_prog f (next_call g k) = next_call g (\<lambda>x. reply_prog f (k x))"
  by (simp add: reply_prog_def next_call_def bind_assoc)

text \<open>A token login that has found its token and not yet replaced it.\<close>

definition rotate_stage :: "outside \<Rightarrow> token_row \<Rightarrow> string \<Rightarrow> byte list \<Rightarrow> (backend, reply) prog" where
  "rotate_stage w r newToken newTokenHash =
     next_call (\<lambda>b. replace_error ErrUserTokenNotFound ErrInvalidToken (on_db (RotateToken w (r_TokenID r) newTokenHash) b)) (\<lambda>_.
     Return (Inr (Authenticated \<lparr>a_UserID = r_UserID r, a_DeviceID = r_DeviceID r,
       a_DeviceName = t_DeviceName (scan_token r), a_SessionToken = newToken\<rparr>)))"

lemma token_stages:
  assumes login: "LoginByToken w tok b = (Inr res, b')"
  obtains r h db' where "lookup_by r_TokenHash (hashToken (TrimSpace tok)) (tokens (b_tables b)) = Some r"
    "h = hashToken (a_SessionToken res)" "RotateToken w (r_TokenID r) h (b_tables b) = (Inr (), db')"
    "thread_step\<^sup>*\<^sup>* (prog_of (RToken w tok), b) (rotate_stage w r (a_SessionToken res) h, b)"
    "\<And>b1 db1. RotateToken w (r_TokenID r) h (b_tables b1) = (Inr (), db1) \<Longrightarrow>
       thread_step (rotate_stage w r (a_SessionToken res) h, b1) (Return (Inr (Authenticated res)), b1\<lparr>b_tables := db1\<rparr>)"
  using login
proof (rule LoginByToken_InrD)
  fix r u db' h
  assume tok: "TrimSpace tok \<noteq> ''''"
    and r: "lookup_by r_TokenHash (hashToken (TrimSpace tok)) (tokens (b_tables b)) = Some r"
    and g: "generateSessionTokenPair w = Inr (a_SessionToken res, h)"
    and rot: "RotateToken w (r_TokenID r) h (b_tables b) = (Inr (), db')"
    and res: "a_UserID res = r_UserID r" "a_DeviceID res = r_DeviceID r" "a_DeviceName res = t_DeviceName (scan_token r)"
  obtain d where d: "defaultDeps b = Inr d" using login by (cases "defaultDeps b") (auto simp: LoginByToken_def)
  obtain st b1 b2 where get: "on_db (GetActiveByTokenHash w (hashToken (TrimSpace tok))) b = (Inr st, b1)"
    and rj: "rejectIfPendingDeletion w (t_UserID st) b1 = (Inr (), b2)"
    using login by (auto simp: LoginByToken_def run_simps Let_def split: if_splits)
  have st: "st = scan_token r" "b1 = b" using get r by (auto simp: on_db_iff dest!: GetActiveByTokenHash_InrD)
  have ex: "on_db (ExistsActiveByUserID w (t_UserID st)) b = (Inr False, b)"
    using rj st(2) rejectIfPendingDeletion_InrD [OF rj]
    by (auto simp: rejectIfPendingDeletion_def and_then_Inr_iff split: if_splits)
  define after where "after st = reply_prog Authenticated (bind_prog (reject_pending_prog w (t_UserID st)) (\<lambda>_.
     bind_prog (Return (generateSessionTokenPair w)) (\<lambda>(newToken, newTokenHash).
     next_call (\<lambda>b. replace_error ErrUserTokenNotFound ErrInvalidToken (on_db (RotateToken w (t_TokenID st) newTokenHash) b)) (\<lambda>_.
     Return (Inr \<lparr>a_UserID = t_UserID st, a_DeviceID = t_DeviceID st, a_DeviceName = t_DeviceName st, a_SessionToken = newToken\<rparr>)))))" for st :: UserToken
  let ?get = "\<lambda>b. replace_error ErrUserTokenNotFound ErrInvalidToken (on_db (GetActiveByTokenHash w (hashToken (TrimSpace tok))) b)"
  have "prog_of (RToken w tok) = next_call (\<lambda>b. (defaultDeps b, b)) (\<lambda>_. next_call ?get after)"
    using tok by (simp add: LoginByToken_prog_def reply_next after_def [abs_def])
  then have 1: "thread_step (prog_of (RToken w tok), b) (next_call ?get after, b)"
    using thread_next [of "\<lambda>b. (defaultDeps b, b)" b d b] d by simp
  have 2: "thread_step (next_call ?get after, b) (after st, b)"
    using get st(2) by (intro thread_next [where f = ?get and k = after]) simp
  have "after st = next_call (on_db (ExistsActiveByUserID w (t_UserID st)))
      (\<lambda>pending. if pending then Return (Inl ErrAccountPendingDeletion) else rotate_stage w r (a_SessionToken res) h)"
    using g st(1)
    by (auto simp: after_def reject_pending_prog_def bind_next reply_next rotate_stage_def reply_prog_def scan_token_def
        intro!: arg_cong2 [where f = next_call])
  then have 3: "thread_step (after st, b) (rotate_stage w r (a_SessionToken res) h, b)"
    using thread_next [where f = "on_db (ExistsActiveByUserID w (t_UserID st))", OF ex,
        of "\<lambda>pending. if pending then Return (Inl ErrAccountPendingDeletion) else rotate_stage w r (a_SessionToken res) h"] by simp
  have "res = \<lparr>a_UserID = r_UserID r, a_DeviceID = r_DeviceID r, a_DeviceName = t_DeviceName (scan_token r), a_SessionToken = a_SessionToken res\<rparr>"
    using res by (cases res) simp
  then have 4: "thread_step (rotate_stage w r (a_SessionToken res) h, b1) (Return (Inr (Authenticated res)), b1\<lparr>b_tables := db1\<rparr>)"
    if "RotateToken w (r_TokenID r) h (b_tables b1) = (Inr (), db1)" for b1 db1
    unfolding rotate_stage_def using that thread_next [of "\<lambda>b. replace_error ErrUserTokenNotFound ErrInvalidToken (on_db (RotateToken w (r_TokenID r) h) b)" b1 "()" "b1\<lparr>b_tables := db1\<rparr>"]
    by (auto simp: on_db_def)
  have "thread_step\<^sup>*\<^sup>* (prog_of (RToken w tok), b) (rotate_stage w r (a_SessionToken res) h, b)"
    using 1 2 3 by (meson converse_rtranclp_into_rtranclp r_into_rtranclp)
  then show thesis using that [OF r token_pair(1) [OF g] rot] 4 token_pair(1) [OF g] by blast
qed

lemma RotateToken_iff:
  "RotateToken w i h db = (Inr (), db') \<longleftrightarrow> i \<noteq> 0 \<and> h \<noteq> [] \<and> db_fault w Q_RotateToken = Delivered
     \<and> i \<in> r_TokenID ` set (tokens db) \<and> (\<forall>r\<in>set (tokens db). r_TokenHash r = h \<longrightarrow> r_TokenID r = i)
     \<and> db' = db\<lparr>tokens := map (\<lambda>r. if r_TokenID r = i then r\<lparr>r_TokenHash := h, r_LastUsedAt := pg_now w Q_RotateToken\<rparr> else r) (tokens db)\<rparr>"
proof (cases "lookup_by r_TokenID i (tokens db)")
  case None
  then have "i \<notin> r_TokenID ` set (tokens db)" by (auto simp: lookup_by_None_iff)
  then show ?thesis using None by (cases "db_fault w Q_RotateToken") (simp_all add: RotateToken_def sql_rotate_token_def)
next
  case (Some r)
  then have "i \<in> r_TokenID ` set (tokens db)" by (auto dest!: lookup_by_SomeD)
  then show ?thesis using Some
    by (cases "db_fault w Q_RotateToken") (auto simp: RotateToken_def sql_rotate_token_def)
qed

lemma rotate_twice:
  assumes "RotateToken w i h db = (Inr (), db1)" "RotateToken w' i h' db = (Inr (), db0)"
  obtains db2 where "RotateToken w' i h' db1 = (Inr (), db2)" "h \<noteq> h' \<Longrightarrow> lookup_by r_TokenHash h (tokens db2) = None"
proof
  let ?db2 = "db1\<lparr>tokens := map (\<lambda>r. if r_TokenID r = i then r\<lparr>r_TokenHash := h', r_LastUsedAt := pg_now w' Q_RotateToken\<rparr> else r) (tokens db1)\<rparr>"
  let ?g = "\<lambda>r. if r_TokenID r = i then r\<lparr>r_TokenHash := h', r_LastUsedAt := pg_now w' Q_RotateToken\<rparr> else r"
  let ?f = "\<lambda>r. if r_TokenID r = i then r\<lparr>r_TokenHash := h, r_LastUsedAt := pg_now w Q_RotateToken\<rparr> else r"
  have i: "r_TokenID ` set (map ?f rs) = r_TokenID ` set rs" for rs
    unfolding set_map image_image by (rule image_cong) simp_all
  have t: "tokens db1 = map ?f (tokens db)" using assms(1) by (simp add: RotateToken_iff)
  have ids: "r_TokenID ` set (tokens db1) = r_TokenID ` set (tokens db)" unfolding t by (rule i)
  have first: "\<forall>r\<in>set (tokens db). r_TokenHash r = h \<longrightarrow> r_TokenID r = i" using assms(1) unfolding RotateToken_iff by blast
  have second: "i \<noteq> 0" "h' \<noteq> []" "db_fault w' Q_RotateToken = Delivered" "i \<in> r_TokenID ` set (tokens db)"
    "\<forall>r\<in>set (tokens db). r_TokenHash r = h' \<longrightarrow> r_TokenID r = i" using assms(2) unfolding RotateToken_iff by blast+
  have "\<forall>r\<in>set (tokens db1). r_TokenHash r = h' \<longrightarrow> r_TokenID r = i" using second(5) unfolding t by auto
  then show "RotateToken w' i h' db1 = (Inr (), ?db2)"
    unfolding RotateToken_iff ids by (intro conjI refl second(1-4))
  have "r_TokenHash r \<noteq> h" if neq: "h \<noteq> h'" and mem: "r \<in> set (tokens ?db2)" for r
  proof -
    have "r \<in> ?g ` set (tokens db1)" using mem by simp
    then obtain r1 where r1: "r1 \<in> set (tokens db1)" "r = ?g r1" by (rule imageE) blast
    obtain r0 where r0: "r0 \<in> set (tokens db)" "r1 = ?f r0" using r1(1) unfolding t set_map by blast
    show ?thesis using r1(2) r0 first neq by (cases "r_TokenID r0 = i") auto
  qed
  then show "h \<noteq> h' \<Longrightarrow> lookup_by r_TokenHash h (tokens ?db2) = None" unfolding lookup_by_None_iff by blast
qed

lemma dead_token:
  assumes "lookup_by r_TokenHash (hashToken (TrimSpace tok)) (tokens (b_tables b)) = None"
  shows "fst (LoginByToken w tok b) \<noteq> Inr x"
proof
  assume "fst (LoginByToken w tok b) = Inr x"
  then have "LoginByToken w tok b = (Inr x, snd (LoginByToken w tok b))" by (simp add: prod_eq_iff)
  then show False by (rule LoginByToken_InrD) (simp add: assms)
qed

text \<open>
  C35. A session token is not single-use under concurrency: of two requests that present the
  same token at the same time both can succeed, each with a new token, when each alone would,
  because the token is replaced by its row number and not by the value that was looked up. The
  request that replaced it last wins: the new token of the other one, returned to its client
  with a success, is dead unless the two tokens have the same hash. (Without concurrency the second request is refused, as
  \<open>LoginByToken_rotates\<close> shows.)
\<close>

theorem token_login_race:
  assumes "LoginByToken w tok b = (Inr res, b1)" "LoginByToken w' tok b = (Inr res', b2)"
  shows "\<exists>b'. pool_step\<^sup>*\<^sup>* (map prog_of [RToken w tok, RToken w' tok], b)
       ([Return (Inr (Authenticated res)), Return (Inr (Authenticated res'))], b')
     \<and> (hashToken (a_SessionToken res) \<noteq> hashToken (a_SessionToken res') \<longrightarrow>
          (\<forall>v x. fst (LoginByToken v (a_SessionToken res) b') \<noteq> Inr x))"
proof (rule token_stages [OF assms(1)], rule token_stages [OF assms(2)])
  fix r h db1 r' h' db2
  assume 1: "lookup_by r_TokenHash (hashToken (TrimSpace tok)) (tokens (b_tables b)) = Some r" "h = hashToken (a_SessionToken res)"
      "RotateToken w (r_TokenID r) h (b_tables b) = (Inr (), db1)"
      "thread_step\<^sup>*\<^sup>* (prog_of (RToken w tok), b) (rotate_stage w r (a_SessionToken res) h, b)"
      "\<And>b1 db1. RotateToken w (r_TokenID r) h (b_tables b1) = (Inr (), db1) \<Longrightarrow>
         thread_step (rotate_stage w r (a_SessionToken res) h, b1) (Return (Inr (Authenticated res)), b1\<lparr>b_tables := db1\<rparr>)"
    and 2: "lookup_by r_TokenHash (hashToken (TrimSpace tok)) (tokens (b_tables b)) = Some r'" "h' = hashToken (a_SessionToken res')"
      "RotateToken w' (r_TokenID r') h' (b_tables b) = (Inr (), db2)"
      "thread_step\<^sup>*\<^sup>* (prog_of (RToken w' tok), b) (rotate_stage w' r' (a_SessionToken res') h', b)"
      "\<And>b1 db1. RotateToken w' (r_TokenID r') h' (b_tables b1) = (Inr (), db1) \<Longrightarrow>
         thread_step (rotate_stage w' r' (a_SessionToken res') h', b1) (Return (Inr (Authenticated res')), b1\<lparr>b_tables := db1\<rparr>)"
  let ?s1 = "rotate_stage w r (a_SessionToken res) h" and ?s2 = "rotate_stage w' r' (a_SessionToken res') h'"
  let ?p1 = "prog_of (RToken w tok)" and ?p2 = "prog_of (RToken w' tok)" and ?b1 = "b\<lparr>b_tables := db1\<rparr>"
  have r: "r' = r" using 1(1) 2(1) by simp
  obtain db where db: "RotateToken w' (r_TokenID r) h' db1 = (Inr (), db)" "h \<noteq> h' \<Longrightarrow> lookup_by r_TokenHash h (tokens db) = None"
    using rotate_twice [OF 1(3) 2(3) [unfolded r]] by metis
  let ?b2 = "b\<lparr>b_tables := db\<rparr>"
  have a: "pool_step\<^sup>*\<^sup>* ([?p1, ?p2], b) ([?s1, ?p2], b)" using pool_lift [OF 1(4), of 0 "[?p1, ?p2]"] by simp
  have b: "pool_step\<^sup>*\<^sup>* ([?s1, ?p2], b) ([?s1, ?s2], b)" using pool_lift [OF 2(4), of 1 "[?s1, ?p2]"] by simp
  have c: "pool_step ([?s1, ?s2], b) ([Return (Inr (Authenticated res)), ?s2], ?b1)"
    using pool_lift_step [OF 1(5) [OF 1(3)], of 0 "[?s1, ?s2]"] by simp
  have d: "pool_step ([Return (Inr (Authenticated res)), ?s2], ?b1) ([Return (Inr (Authenticated res)), Return (Inr (Authenticated res'))], ?b2)"
    using pool_lift_step [OF 2(5) [of ?b1 db], of 1 "[Return (Inr (Authenticated res)), ?s2]"] db(1) r by simp
  have "TrimSpace (a_SessionToken res) = a_SessionToken res" using assms(1) by (rule LoginByToken_InrD) (rule token_pair)
  then have "fst (LoginByToken v (a_SessionToken res) ?b2) \<noteq> Inr x" if "h \<noteq> h'" for v x
    using dead_token db(2) [OF that] 1(2) by simp
  moreover have "pool_step\<^sup>*\<^sup>* ([?p1, ?p2], b) ([Return (Inr (Authenticated res)), Return (Inr (Authenticated res'))], ?b2)"
    using rtranclp.rtrancl_into_rtrancl [OF rtranclp.rtrancl_into_rtrancl [OF rtranclp_trans [OF a b] c] d] .
  ultimately show ?thesis using 1(2) 2(2) by (intro exI [of _ ?b2]) simp
qed

section \<open>Examples\<close>

text \<open>Two clients present the token of Alice's phone; the second draws other random bytes.\<close>

definition other_outside :: outside where
  "other_outside = quiet_outside\<lparr>rand_token := Some (\<lambda>_. 2)\<rparr>"


text \<open>Alice's registration runs, and the one beside it after it.\<close>

lemma two_registrations:
  obtains res b1 where "Register quiet_outside alice_creds new_backend = (Inr res, b1)"
    "pool_step\<^sup>*\<^sup>* (map prog_of [RRegister quiet_outside alice_creds, RRegister quiet_outside alice_creds], new_backend)
       ([Return (Inr (Authenticated res)), Return (fst (serve (RRegister quiet_outside alice_creds) b1))],
        snd (serve (RRegister quiet_outside alice_creds) b1))"
proof -
  let ?p = "prog_of (RRegister quiet_outside alice_creds)"
  obtain res b1 where reg: "Register quiet_outside alice_creds new_backend = (Inr res, b1)" by (rule register_alice)
  then have "run ?p new_backend = (Inr (Authenticated res), b1)"
    unfolding run_prog_of by (simp add: with_reply_def)
  then have "pool_step\<^sup>*\<^sup>* ([?p, ?p], new_backend) ([Return (Inr (Authenticated res)), ?p], b1)"
    using pool_lift [OF thread_runs [OF waitless_never [OF prog_waitless], of "RRegister quiet_outside alice_creds" new_backend], of 0 "[?p, ?p]"] by (simp del: prog_of.simps)
  moreover have "pool_step\<^sup>*\<^sup>* ([Return (Inr (Authenticated res)), ?p], b1)
      ([Return (Inr (Authenticated res)), Return (fst (run ?p b1))], snd (run ?p b1))"
    using pool_lift [OF thread_runs [OF waitless_never [OF prog_waitless], of "RRegister quiet_outside alice_creds" b1], of 1 "[Return (Inr (Authenticated res)), ?p]"] by (simp del: prog_of.simps)
  ultimately have "pool_step\<^sup>*\<^sup>* ([?p, ?p], new_backend)
      ([Return (Inr (Authenticated res)), Return (fst (run ?p b1))], snd (run ?p b1))" by (rule rtranclp_trans)
  then show thesis using that [OF reg] unfolding run_prog_of by (simp del: serve.simps)
qed

theorem concurrent_registrations_witness:
  "\<exists>res b1. Register quiet_outside alice_creds new_backend = (Inr res, b1)
     \<and> (\<nexists>y. fst (serve (RRegister quiet_outside alice_creds) b1) = Inr y)"
proof (rule two_registrations)
  fix res b1
  assume reg: "Register quiet_outside alice_creds new_backend = (Inr res, b1)"
    and run: "pool_step\<^sup>*\<^sup>* (map prog_of [RRegister quiet_outside alice_creds, RRegister quiet_outside alice_creds], new_backend)
       ([Return (Inr (Authenticated res)), Return (fst (serve (RRegister quiet_outside alice_creds) b1))],
        snd (serve (RRegister quiet_outside alice_creds) b1))"
  show ?thesis using concurrent_registrations [OF _ run, of 0 1] reg by (auto simp del: serve.simps)
qed

theorem interleavings_bounded_witness:
  "\<exists>n ps b'. (pool_step ^^ n) (map prog_of [RRegister quiet_outside alice_creds, RRegister quiet_outside alice_creds], new_backend) (ps, b')
     \<and> n \<le> 12 \<and> db_wf (b_tables b') \<and> names_valid (b_tables b')"
proof (rule two_registrations)
  fix res b1
  assume "pool_step\<^sup>*\<^sup>* (map prog_of [RRegister quiet_outside alice_creds, RRegister quiet_outside alice_creds], new_backend)
       ([Return (Inr (Authenticated res)), Return (fst (serve (RRegister quiet_outside alice_creds) b1))],
        snd (serve (RRegister quiet_outside alice_creds) b1))"
  then obtain n ps b' where n: "(pool_step ^^ n) (map prog_of [RRegister quiet_outside alice_creds, RRegister quiet_outside alice_creds], new_backend) (ps, b')"
    by (meson rtranclp_imp_relpowp)
  have "backend_ok new_backend" using new_backend_wf by (simp add: backend_ok_def names_valid_def new_backend_def empty_db_def)
  then show ?thesis using interleavings_bounded [OF _ n] n by auto
qed

lemma other_backend_up: "backend_up other_outside (phone_backend h)"
  using phone_backend_up [of h]
  by (simp add: backend_up_def db_live_def redis_live_def ids_canonical_def other_outside_def max_bigint_def)

lemma both_draw: "draws_token w (\<lambda>y. r_TokenHash y = h) (phone_backend h)" if "w = quiet_outside \<or> w = other_outside"
  using that by (auto simp: draws_token_def phone_backend_def generateSessionTokenPair_def quiet_outside_def other_outside_def Let_def)

theorem token_login_race_witness:
  "\<exists>res res' b'. pool_step\<^sup>*\<^sup>* (map prog_of [RToken quiet_outside ''abc'', RToken other_outside ''abc''], phone_backend (hashToken ''abc''))
       ([Return (Inr (Authenticated res)), Return (Inr (Authenticated res'))], b')
     \<and> a_UserID res = ''u1'' \<and> a_UserID res' = ''u1''"
proof -
  let ?b = "phone_backend (hashToken ''abc'')"
  have plain: "TrimSpace ''abc'' = ''abc''" by code_simp
  have row: "lookup_by r_TokenHash (hashToken (TrimSpace ''abc'')) (tokens (b_tables ?b)) = Some (issue_row 0 1 ''u1'' (hashToken ''abc'') ''phone'' ''Pixel'')"
    "deletions (b_tables ?b) = []" by (simp_all add: plain phone_backend_def alice_db_def)
  have "\<exists>res b'. LoginByToken w ''abc'' ?b = (Inr res, b') \<and> a_UserID res = ''u1''" if "w = quiet_outside \<or> w = other_outside" for w
    using LoginByToken_succeeds [of w ?b "''abc''", OF _ _ _ row(1)] that phone_backend_up other_backend_up both_draw [OF that] row(2) plain
    by auto
  then obtain res b1 res' b2 where "LoginByToken quiet_outside ''abc'' ?b = (Inr res, b1)" "LoginByToken other_outside ''abc'' ?b = (Inr res', b2)"
    "a_UserID res = ''u1''" "a_UserID res' = ''u1''" by metis
  then show ?thesis using token_login_race [of quiet_outside "''abc''" ?b res b1 other_outside res' b2] by blast
qed

end
