(* ===== verification/Concurrency.thy ===== *)
theory Concurrency
  imports Interleaving Requests
begin

text \<open>
  Whole requests under concurrency. The router starts one goroutine for each stream, so the
  handlers of \<open>src/server/handlers\<close> run side by side on the stores and on the session
  registry of \<open>src/server/core/session/session.go\<close>. Here a handler is a program whose
  accesses are the statements of the stores, the operations of the concurrent map
  \<open>userStates\<close>, and the sections under a mutex; \<open>userStatesInitMu\<close>, which is held across
  a database call, is a flag of the shared state on which goroutines wait. The bytes of a stream
  belong to one goroutine only: a handler returns the response it sends.
\<close>

section \<open>The shared state\<close>

record world =
  wd_backend :: backend
  wd_registry :: registry
  wd_initMu :: bool

text \<open>A program on the stores, an access to the registry, an access to the stores, and the mutex.\<close>

primrec in_world :: "(backend, 'a) prog \<Rightarrow> (world, 'a) prog" where
  "in_world (Return r) = Return r"
| "in_world (Call g e c) =
     Call (\<lambda>s. g (wd_backend s)) (\<lambda>s. s\<lparr>wd_backend := e (wd_backend s)\<rparr>) (\<lambda>s. in_world (c (wd_backend s)))"

definition on_registry :: "(registry \<Rightarrow> 'a \<times> registry) \<Rightarrow> world \<Rightarrow> 'a result \<times> world" where
  "on_registry f s = (case f (wd_registry s) of (x, g) \<Rightarrow> (Inr x, s\<lparr>wd_registry := g\<rparr>))"

definition on_backend :: "(backend \<Rightarrow> 'a result \<times> backend) \<Rightarrow> world \<Rightarrow> 'a result \<times> world" where
  "on_backend f s = (case f (wd_backend s) of (r, b) \<Rightarrow> (r, s\<lparr>wd_backend := b\<rparr>))"

definition locked :: "(world, 'a) prog \<Rightarrow> (world, 'a) prog" where
  "locked p = Call (\<lambda>s. \<not> wd_initMu s) (\<lambda>s. s\<lparr>wd_initMu := True\<rparr>) (\<lambda>_. p)"

definition unlocked :: "(world, 'a) prog \<Rightarrow> (world, 'a) prog" where
  "unlocked p = Call (\<lambda>_. True) (\<lambda>s. s\<lparr>wd_initMu := False\<rparr>) (\<lambda>_. p)"

section \<open>Sessions, access by access\<close>

definition get_state :: "string \<Rightarrow> registry \<Rightarrow> nat option \<times> registry" where
  "get_state userID g = (userStates g userID, g)"

definition set_new_state :: "string \<Rightarrow> registry \<Rightarrow> nat \<times> registry" where
  "set_new_state userID g =
     (let p = next_ustate g in
      (p, (put_ustate p \<lparr>us_userID = userID, us_devices = []\<rparr> g)
            \<lparr>userStates := (userStates g)(userID := Some p), next_ustate := p + 1\<rparr>))"

definition user_state_prog :: "outside \<Rightarrow> string \<Rightarrow> (world, nat option) prog" where
  "user_state_prog w userID =
     next_call (on_registry (get_state userID)) (\<lambda>state.
     case state of
       Some p \<Rightarrow> Return (Inr (Some p))
     | None \<Rightarrow>
         locked (next_call (on_registry (get_state userID)) (\<lambda>state.
         case state of
           Some p \<Rightarrow> unlocked (Return (Inr (Some p)))
         | None \<Rightarrow>
             bind_prog (attempt (next_call (on_backend (\<lambda>b. (DefaultDB (b_db b), b))) (\<lambda>_.
                          call (on_backend (on_db (GetUserByID w userID)))))) (\<lambda>r.
             case r of
               Inl err \<Rightarrow> unlocked (Return (Inr None))
             | Inr _ \<Rightarrow> next_call (on_registry (set_new_state userID)) (\<lambda>p. unlocked (Return (Inr (Some p))))))))"

definition Authenticate_prog :: "outside \<Rightarrow> nat option \<Rightarrow> string \<Rightarrow> string \<Rightarrow> string \<Rightarrow> (world, unit) prog" where
  "Authenticate_prog w sp userID0 deviceID0 deviceName0 =
     (case sp of
        None \<Rightarrow> Return (Inr ())
      | Some a \<Rightarrow>
          let userID = TrimSpace userID0; deviceID = TrimSpace deviceID0; deviceName = TrimSpace deviceName0 in
          if userID = '''' \<or> deviceID = '''' then Return (Inr ())
          else
          next_call (on_registry (\<lambda>g. ((), auth_fields a userID deviceID deviceName g))) (\<lambda>_.
          bind_prog (user_state_prog w userID) (\<lambda>state.
          case state of
            None \<Rightarrow> Return (Inr ())
          | Some p \<Rightarrow> call (on_registry (\<lambda>g. ((), auth_register p a deviceID g))))))"

definition take_devices :: "nat \<Rightarrow> registry \<Rightarrow> nat list \<times> registry" where
  "take_devices p g =
     (case ustates g p of
        None \<Rightarrow> ([], g)
      | Some st \<Rightarrow> (map snd (us_devices st), put_ustate p (st\<lparr>us_devices := []\<rparr>) g))"

definition detach_prog :: "string \<Rightarrow> (world, nat list) prog" where
  "detach_prog userID0 =
     (let userID = TrimSpace userID0 in
      if userID = '''' then Return (Inr [])
      else
      next_call (on_registry (get_state userID)) (\<lambda>state.
      case state of
        None \<Rightarrow> Return (Inr [])
      | Some p \<Rightarrow>
          next_call (on_registry (take_devices p)) (\<lambda>sessions.
          next_call (on_registry (\<lambda>g. ((), g\<lparr>userStates := (userStates g)(userID := None)\<rparr>))) (\<lambda>_.
          Return (Inr sessions)))))"

fun revoke_prog :: "nat list \<Rightarrow> (world, unit) prog" where
  "revoke_prog [] = Return (Inr ())"
| "revoke_prog (a # as) = next_call (on_registry (\<lambda>g. ((), Revoke (Some a) g))) (\<lambda>_. revoke_prog as)"

definition InvalidateUserSessions_prog :: "string \<Rightarrow> (world, unit) prog" where
  "InvalidateUserSessions_prog userID = bind_prog (detach_prog userID) revoke_prog"

section \<open>Handlers\<close>

type_synonym response = "PPStatusCode \<times> string \<times> byte list result option"

definition finish_auth_prog :: "outside \<Rightarrow> codec \<Rightarrow> ResponseContext \<Rightarrow> AuthResult \<Rightarrow> (world, response) prog" where
  "finish_auth_prog w cd c res =
     bind_prog (Authenticate_prog w (rc_Session c) (a_UserID res) (a_DeviceID res) (a_DeviceName res)) (\<lambda>_.
     Return (Inr (ErrCodeOK, '''', Some (mar_Auth cd \<lparr>ar_SessionToken = a_SessionToken res\<rparr>))))"

definition HandleUserRegister_prog :: "outside \<Rightarrow> codec \<Rightarrow> ResponseContext \<Rightarrow> (world, response) prog" where
  "HandleUserRegister_prog w cd c =
     (case unm_Register cd (rc_Request c) of
        Inl err \<Rightarrow> Return (Inr (ErrCodeBadRequest, '''', None))
      | Inr req \<Rightarrow>
          bind_prog (attempt (in_world (Register_prog w \<lparr>c_Username = rr_Username req, c_DisplayName = rr_DisplayName req,
             c_Password = rr_Password req, c_DeviceID = rr_DeviceId req, c_DeviceName = rr_DeviceName req\<rparr>))) (\<lambda>r.
          case r of
            Inl err \<Rightarrow> Return (Inr (
              if errors_is err ErrInvalidUsername then (ErrCodeInvalidParameters, ''invalid username'', None)
              else if errors_is err ErrPasswordRequired then (ErrCodeInvalidParameters, ''password is required'', None)
              else if errors_is err ErrDeviceIDRequired then (ErrCodeInvalidParameters, ''device_id is required'', None)
              else if errors_is err ErrUsernameTaken then (ErrCodeUsernameTaken, '''', None)
              else (ErrCodeInternal, '''', None)))
          | Inr res \<Rightarrow> finish_auth_prog w cd c res))"

definition HandleUserLoginByCredentials_prog :: "outside \<Rightarrow> codec \<Rightarrow> ResponseContext \<Rightarrow> (world, response) prog" where
  "HandleUserLoginByCredentials_prog w cd c =
     (case unm_LoginCredentials cd (rc_Request c) of
        Inl err \<Rightarrow> Return (Inr (ErrCodeBadRequest, '''', None))
      | Inr req \<Rightarrow>
          bind_prog (attempt (in_world (LoginByCredentials_prog w \<lparr>c_Username = lr_Username req, c_DisplayName = '''',
             c_Password = lr_Password req, c_DeviceID = lr_DeviceId req, c_DeviceName = lr_DeviceName req\<rparr>))) (\<lambda>r.
          case r of
            Inl err \<Rightarrow> Return (Inr (
              if errors_is err ErrDeviceIDRequired then (ErrCodeInvalidParameters, ''device_id is required'', None)
              else if errors_is err ErrAccountPendingDeletion then (ErrCodeForbidden, ''account pending deletion'', None)
              else if errors_is err ErrInvalidCredentials then (ErrCodeInvalidCredentials, '''', None)
              else (ErrCodeInternal, '''', None)))
          | Inr res \<Rightarrow> finish_auth_prog w cd c res))"

definition HandleUserLoginByToken_prog :: "outside \<Rightarrow> codec \<Rightarrow> ResponseContext \<Rightarrow> (world, response) prog" where
  "HandleUserLoginByToken_prog w cd c =
     (case unm_LoginToken cd (rc_Request c) of
        Inl err \<Rightarrow> Return (Inr (ErrCodeBadRequest, '''', None))
      | Inr req \<Rightarrow>
          bind_prog (attempt (in_world (LoginByToken_prog w (tr_SessionToken req)))) (\<lambda>r.
          case r of
            Inl err \<Rightarrow> Return (Inr (
              if errors_is err ErrSessionTokenNeeded then (ErrCodeInvalidParameters, ''session token must be provided'', None)
              else if errors_is err ErrAccountPendingDeletion then (ErrCodeForbidden, ''account pending deletion'', None)
              else if errors_is err ErrInvalidToken then (ErrCodeInvalidToken, '''', None)
              else (ErrCodeInternal, '''', None)))
          | Inr res \<Rightarrow> finish_auth_prog w cd c res))"

text \<open>
  The deletion handler invalidates the sessions after its response has been sent: \<open>sent\<close> says
  whether sending succeeds.
\<close>

definition HandleAccountDelete_prog :: "outside \<Rightarrow> codec \<Rightarrow> bool \<Rightarrow> ResponseContext \<Rightarrow> (world, response) prog" where
  "HandleAccountDelete_prog w cd sent c =
     (case unm_Delete cd (rc_Request c) of
        Inl err \<Rightarrow> Return (Inr (ErrCodeBadRequest, '''', None))
      | Inr req \<Rightarrow>
          bind_prog (attempt (in_world (ScheduleAccountDeletion_prog w (dr_Username req) (dr_Password req)))) (\<lambda>r.
          case r of
            Inl err \<Rightarrow> Return (Inr (
              if errors_is err ErrInvalidCredentials then (ErrCodeInvalidCredentials, '''', None)
              else (ErrCodeInternal, '''', None)))
          | Inr timestamp \<Rightarrow>
              let resp = (ErrCodeOK, '''', Some (mar_Delete cd \<lparr>dr_Timestamp = timestamp\<rparr>)) in
              if \<not> sent \<or> rc_Session c = None then Return (Inr resp)
              else next_call (on_registry (\<lambda>g. (session_UserID (rc_Session c) g, g))) (\<lambda>userID.
                   bind_prog (InvalidateUserSessions_prog userID) (\<lambda>_. Return (Inr resp)))))"

definition HandleAccountDeleteCancel_prog :: "outside \<Rightarrow> codec \<Rightarrow> ResponseContext \<Rightarrow> (world, response) prog" where
  "HandleAccountDeleteCancel_prog w cd c =
     (case unm_DeleteCancel cd (rc_Request c) of
        Inl err \<Rightarrow> Return (Inr (ErrCodeBadRequest, '''', None))
      | Inr req \<Rightarrow>
          bind_prog (attempt (in_world (CancelAccountDeletion_prog w (cr_Username req) (cr_Password req)))) (\<lambda>r.
          case r of
            Inl err \<Rightarrow> Return (Inr (
              if errors_is err ErrInvalidCredentials then (ErrCodeInvalidCredentials, '''', None)
              else if errors_is err ErrAccountDeletionInProgress then (ErrCodeForbidden, ''account deletion already started'', None)
              else (ErrCodeInternal, '''', None)))
          | Inr _ \<Rightarrow> Return (Inr (ErrCodeOK, '''', None))))"

definition AuthMiddleware_prog :: "outside \<Rightarrow> nat option \<Rightarrow> (world, response) prog \<Rightarrow> (world, response) prog" where
  "AuthMiddleware_prog w sess nxt =
     next_call (on_registry (\<lambda>g. (IsAuthenticated sess g, g))) (\<lambda>auth.
     if sess = None \<or> \<not> auth then Return (Inr (ErrCodeUnauthorized, '''', None))
     else
     bind_prog (attempt (call (on_backend (\<lambda>b. (DefaultDB (b_db b), b))))) (\<lambda>r.
     case r of
       Inl err \<Rightarrow> Return (Inr (ErrCodeInternal, '''', None))
     | Inr _ \<Rightarrow>
         next_call (on_registry (\<lambda>g. (session_UserID sess g, g))) (\<lambda>userID.
         bind_prog (attempt (call (on_backend (on_db (ExistsActiveByUserID w userID))))) (\<lambda>r.
         case r of
           Inl err \<Rightarrow> Return (Inr (ErrCodeInternal, '''', None))
         | Inr pending \<Rightarrow> if pending then Return (Inr (ErrCodeUnauthorized, '''', None)) else nxt))))"


section \<open>A handler alone is the function\<close>

lemma run_in_world [simp]:
  "run (in_world p) s = (fst (run p (wd_backend s)), s\<lparr>wd_backend := snd (run p (wd_backend s))\<rparr>)"
  by (induction p arbitrary: s) simp_all

lemma on_registry_simps [simp]:
  "fst (on_registry f s) = Inr (fst (f (wd_registry s)))" "snd (on_registry f s) = s\<lparr>wd_registry := snd (f (wd_registry s))\<rparr>"
  by (simp_all add: on_registry_def split: prod.split)

lemma on_backend_simps [simp]:
  "fst (on_backend f s) = fst (f (wd_backend s))" "snd (on_backend f s) = s\<lparr>wd_backend := snd (f (wd_backend s))\<rparr>"
  by (simp_all add: on_backend_def split: prod.split)

lemma on_db_simps [simp]: "fst (on_db f b) = fst (f (b_tables b))" "snd (on_db f b) = b\<lparr>b_tables := snd (f (b_tables b))\<rparr>"
  by (simp_all add: on_db_def split: prod.split)

lemma and_then_pair: "and_then r k = (case fst r of Inl err \<Rightarrow> (Inl err, snd r) | Inr x \<Rightarrow> k x (snd r))"
  by (cases r; cases "fst r") auto

lemma run_locks [simp]: "run (locked p) s = run p (s\<lparr>wd_initMu := True\<rparr>)" "run (unlocked p) s = run p (s\<lparr>wd_initMu := False\<rparr>)"
  by (simp_all add: locked_def unlocked_def)

lemma run_user_state:
  assumes "\<not> wd_initMu s"
  shows "run (user_state_prog w u) s =
    (Inr (fst (auth_state w (wd_backend s) u (wd_registry s))), s\<lparr>wd_registry := snd (auth_state w (wd_backend s) u (wd_registry s))\<rparr>)"
  using assms
  by (auto simp: user_state_prog_def auth_state_def get_state_def set_new_state_def and_then_pair Let_def
      split: option.split sum.split prod.split)

lemma run_Authenticate:
  assumes "\<not> wd_initMu s"
  shows "run (Authenticate_prog w sp u d n) s =
    (Inr (), s\<lparr>wd_registry := Authenticate w (wd_backend s) sp u d n (wd_registry s)\<rparr>)"
  using assms
  by (auto simp: Authenticate_prog_def Authenticate_def run_user_state and_then_pair Let_def on_registry_def split: option.split prod.split)

lemma run_revoke [simp]: "run (revoke_prog as) s = (Inr (), s\<lparr>wd_registry := revoke_all as (wd_registry s)\<rparr>)"
  by (induction as arbitrary: s) (simp_all add: and_then_pair)

lemma run_Invalidate:
  assumes "registry_ok (wd_registry s)"
  shows "run (InvalidateUserSessions_prog u) s = (Inr (), s\<lparr>wd_registry := InvalidateUserSessions u (wd_registry s)\<rparr>)"
proof -
  have "userStates (wd_registry s) v \<noteq> Some p" if "ustates (wd_registry s) p = None" for v p
    using assms that unfolding registry_ok_def states_ok_def by (metis option.distinct(1))
  then show ?thesis
    by (auto simp: InvalidateUserSessions_prog_def detach_prog_def InvalidateUserSessions_def detachUserSessions_def take_devices_def
        get_state_def put_ustate_def and_then_pair Let_def split: option.split)
qed

definition world_of :: "server \<Rightarrow> world" where
  "world_of sv = \<lparr>wd_backend = sv_backend sv, wd_registry = sv_registry sv, wd_initMu = False\<rparr>"

text \<open>The response of a handler is sent on the stream of its request.\<close>

definition deliver :: "codec \<Rightarrow> server \<Rightarrow> response result \<times> world \<Rightarrow> goerror option \<times> server" where
  "deliver cd sv rs =
     (case rs of
        (Inl err, s) \<Rightarrow> (Some err, sv)
      | (Inr (code, msg, body), s) \<Rightarrow> SendResponse cd code msg body (sv\<lparr>sv_backend := wd_backend s, sv_registry := wd_registry s\<rparr>))"

lemma run_finish:
  "\<not> wd_initMu s \<Longrightarrow> wd_backend s = b \<Longrightarrow> wd_registry s = sv_registry sv \<Longrightarrow>
   deliver cd sv (run (finish_auth_prog w cd c res) s) = finish_auth w cd c res (sv\<lparr>sv_backend := b\<rparr>)"
  by (auto simp: finish_auth_prog_def finish_auth_def run_Authenticate deliver_def rc_Send_def Authenticate_def Let_def)

lemma handlers_alone:
  "HandleUserRegister w cd c sv = deliver cd sv (run (HandleUserRegister_prog w cd c) (world_of sv))"
  "HandleUserLoginByCredentials w cd c sv = deliver cd sv (run (HandleUserLoginByCredentials_prog w cd c) (world_of sv))"
  "HandleUserLoginByToken w cd c sv = deliver cd sv (run (HandleUserLoginByToken_prog w cd c) (world_of sv))"
  "HandleAccountDeleteCancel w cd c sv = deliver cd sv (run (HandleAccountDeleteCancel_prog w cd c) (world_of sv))"
proof -
  note run_services = run_Register run_LoginByCredentials run_LoginByToken run_Cancel
  have fin: "deliver cd sv (run (finish_auth_prog w cd c res) ((world_of sv)\<lparr>wd_backend := b\<rparr>)) = finish_auth w cd c res (sv\<lparr>sv_backend := b\<rparr>)" for res b
    by (rule run_finish) (simp_all add: world_of_def)
  have base: "wd_backend (world_of sv) = sv_backend sv" "wd_registry (world_of sv) = sv_registry sv" by (simp_all add: world_of_def)
  show "HandleUserRegister w cd c sv = deliver cd sv (run (HandleUserRegister_prog w cd c) (world_of sv))"
    by (auto simp: HandleUserRegister_def HandleUserRegister_prog_def run_services fin base split: sum.split prod.split)
       (simp_all add: deliver_def base SendCode_def SendStatus_def)
  show "HandleUserLoginByCredentials w cd c sv = deliver cd sv (run (HandleUserLoginByCredentials_prog w cd c) (world_of sv))"
    by (auto simp: HandleUserLoginByCredentials_def HandleUserLoginByCredentials_prog_def run_services fin base split: sum.split prod.split)
       (simp_all add: deliver_def base SendCode_def SendStatus_def)
  show "HandleUserLoginByToken w cd c sv = deliver cd sv (run (HandleUserLoginByToken_prog w cd c) (world_of sv))"
    by (auto simp: HandleUserLoginByToken_def HandleUserLoginByToken_prog_def run_services fin base split: sum.split prod.split)
       (simp_all add: deliver_def base SendCode_def SendStatus_def)
  show "HandleAccountDeleteCancel w cd c sv = deliver cd sv (run (HandleAccountDeleteCancel_prog w cd c) (world_of sv))"
    by (auto simp: HandleAccountDeleteCancel_def HandleAccountDeleteCancel_prog_def run_services base split: sum.split prod.split)
       (simp_all add: deliver_def base SendCode_def SendStatus_def)
qed


text \<open>Sending touches the stream only.\<close>

lemma SendResponse_registry:
  "SendResponse cd code msg r (sv\<lparr>sv_registry := g\<rparr>) = (fst (SendResponse cd code msg r sv), (snd (SendResponse cd code msg r sv))\<lparr>sv_registry := g\<rparr>)"
  "sv_registry (snd (SendResponse cd code msg r sv)) = sv_registry sv"
  by (auto simp: SendResponse_def writeEnvelope_def send_data_def split: option.split sum.split prod.split)

lemma delete_handler_alone:
  assumes ok: "registry_ok (sv_registry sv)"
    and sent: "sent \<longleftrightarrow> fst (deliver cd sv (run (HandleAccountDelete_prog w cd False c) (world_of sv))) = None"
  shows "HandleAccountDelete w cd c sv = deliver cd sv (run (HandleAccountDelete_prog w cd sent c) (world_of sv))"
proof (cases "unm_Delete cd (rc_Request c)")
  case (Inl err)
  then show ?thesis by (simp add: HandleAccountDelete_def HandleAccountDelete_prog_def deliver_def SendCode_def world_of_def)
next
  case (Inr req)
  have base: "wd_backend (world_of sv) = sv_backend sv" "wd_registry (world_of sv) = sv_registry sv" by (simp_all add: world_of_def)
  obtain r b where s: "ScheduleAccountDeletion w (dr_Username req) (dr_Password req) (sv_backend sv) = (r, b)" by (meson surj_pair)
  show ?thesis
  proof (cases r)
    case (Inl err)
    then show ?thesis using Inr s
      by (simp add: HandleAccountDelete_def HandleAccountDelete_prog_def run_Schedule deliver_def base SendCode_def)
  next
    case (Inr ts)
    let ?sv = "sv\<lparr>sv_backend := b\<rparr>" and ?m = "Some (mar_Delete cd \<lparr>dr_Timestamp = ts\<rparr>)"
    let ?g = "InvalidateUserSessions (session_UserID (rc_Session c) (sv_registry sv)) (sv_registry sv)"
    have sent': "sent \<longleftrightarrow> fst (SendResponse cd ErrCodeOK '''' ?m ?sv) = None"
      using sent \<open>unm_Delete cd (rc_Request c) = Inr req\<close> Inr s
      by (simp add: HandleAccountDelete_prog_def run_Schedule deliver_def base)
    have run: "run (HandleAccountDelete_prog w cd sent c) (world_of sv) =
        (Inr (ErrCodeOK, '''', ?m), (world_of sv)\<lparr>wd_backend := b, wd_registry := (if sent \<and> rc_Session c \<noteq> None then ?g else sv_registry sv)\<rparr>)"
      using \<open>unm_Delete cd (rc_Request c) = Inr req\<close> Inr s run_Invalidate [of "(world_of sv)\<lparr>wd_backend := b\<rparr>"] ok
      by (auto simp: HandleAccountDelete_prog_def run_Schedule base and_then_pair world_of_def)
    obtain e sv1 where e: "SendResponse cd ErrCodeOK '''' ?m ?sv = (e, sv1)" by (meson surj_pair)
    have reg: "sv_registry sv1 = sv_registry sv" using SendResponse_registry(2) [where sv = ?sv and cd = cd and code = ErrCodeOK and r = ?m and msg = "''''"] e by simp
    have send: "SendResponse cd ErrCodeOK '''' ?m (sv\<lparr>sv_backend := b, sv_registry := g\<rparr>) = (e, sv1\<lparr>sv_registry := g\<rparr>)" for g
      using SendResponse_registry(1) [where sv = ?sv and g = g and cd = cd and code = ErrCodeOK and r = ?m and msg = "''''"] e by simp
    show ?thesis unfolding run using \<open>unm_Delete cd (rc_Request c) = Inr req\<close> Inr s e send sent' reg
      by (cases e) (auto simp: HandleAccountDelete_def rc_Send_def deliver_def)
  qed
qed

lemma delete_alone:
  assumes ok: "registry_ok (sv_registry sv)"
    and sent: "sent \<longleftrightarrow> fst (deliver cd sv (run (AuthMiddleware_prog w (rc_Session c) (HandleAccountDelete_prog w cd False c)) (world_of sv))) = None"
  shows "guarded w cd (HandleAccountDelete w cd) c sv =
    deliver cd sv (run (AuthMiddleware_prog w (rc_Session c) (HandleAccountDelete_prog w cd sent c)) (world_of sv))"
proof -
  let ?s = "world_of sv"
  have base: "wd_backend ?s = sv_backend sv" "wd_registry ?s = sv_registry sv" by (simp_all add: world_of_def)
  have ex: "snd (ExistsActiveByUserID w u db) = db" for u db by simp
  obtain r where r: "ExistsActiveByUserID w (session_UserID (rc_Session c) (sv_registry sv)) (b_tables (sv_backend sv)) = (r, b_tables (sv_backend sv))"
    using ex by (metis prod.collapse)
  have run: "run (AuthMiddleware_prog w (rc_Session c) p) ?s =
     (if \<not> IsAuthenticated (rc_Session c) (sv_registry sv) then (Inr (ErrCodeUnauthorized, '''', None), ?s)
      else case DefaultDB (b_db (sv_backend sv)) of
          Inl err \<Rightarrow> (Inr (ErrCodeInternal, '''', None), ?s)
        | Inr _ \<Rightarrow> (case r of Inl err \<Rightarrow> (Inr (ErrCodeInternal, '''', None), ?s)
             | Inr pending \<Rightarrow> if pending then (Inr (ErrCodeUnauthorized, '''', None), ?s) else run p ?s))" for p
    using r by (cases "rc_Session c"; auto simp: AuthMiddleware_prog_def and_then_pair base split: sum.split; simp add: world_of_def)
  have same: "deliver cd sv (Inr (code, msg, body), ?s) = SendResponse cd code msg body sv" for code msg body
    by (simp add: deliver_def base)
  show ?thesis
    using sent delete_handler_alone [OF ok, of sent cd w c] unfolding run
    by (auto simp: guarded_def r same split: sum.split if_splits)
qed



section \<open>The goroutines of the server\<close>

datatype task =
    TRegister outside ResponseContext
  | TLogin outside ResponseContext
  | TToken outside ResponseContext
  | TDelete outside bool ResponseContext
  | TCancel outside ResponseContext
  | TConnect "nat option"
  | TWorker outside

datatype outcome = Answered response | Connected nat | Worked

definition answered :: "(world, response) prog \<Rightarrow> (world, outcome) prog" where
  "answered p = bind_prog p (\<lambda>r. Return (Inr (Answered r)))"

fun task_prog :: "codec \<Rightarrow> task \<Rightarrow> (world, outcome) prog" where
  "task_prog cd (TRegister w c) = answered (HandleUserRegister_prog w cd c)"
| "task_prog cd (TLogin w c) = answered (HandleUserLoginByCredentials_prog w cd c)"
| "task_prog cd (TToken w c) = answered (HandleUserLoginByToken_prog w cd c)"
| "task_prog cd (TDelete w sent c) = answered (AuthMiddleware_prog w (rc_Session c) (HandleAccountDelete_prog w cd sent c))"
| "task_prog cd (TCancel w c) = answered (HandleAccountDeleteCancel_prog w cd c)"
| "task_prog cd (TConnect conn) = next_call (on_registry (NewDeviceSession conn)) (\<lambda>a. Return (Inr (Connected a)))"
| "task_prog cd (TWorker w) = bind_prog (in_world (worker_prog w)) (\<lambda>_. Return (Inr Worked))"

text \<open>The sessions a task may write to.\<close>

fun task_sessions :: "task \<Rightarrow> nat set" where
  "task_sessions (TRegister w c) = set_option (rc_Session c)"
| "task_sessions (TLogin w c) = set_option (rc_Session c)"
| "task_sessions (TToken w c) = set_option (rc_Session c)"
| "task_sessions _ = {}"

section \<open>The invariant\<close>

definition world_ok :: "nat set \<Rightarrow> world \<Rightarrow> bool" where
  "world_ok A s \<longleftrightarrow> backend_ok (wd_backend s) \<and> registry_ok (wd_registry s) \<and> A \<subseteq> dom (sessions (wd_registry s))"

lemma every_in_world: "every_call keeps_ok p \<Longrightarrow> every_call (keeps (world_ok A)) (in_world p)"
  by (induction p) (auto simp: keeps_def world_ok_def)

lemma keeps_registry:
  assumes "\<And>g. registry_ok g \<Longrightarrow> A \<subseteq> dom (sessions g) \<Longrightarrow> registry_ok (snd (f g)) \<and> A \<subseteq> dom (sessions (snd (f g)))"
  shows "keeps (world_ok A) s (snd (on_registry f s))"
  using assms [of "wd_registry s"] by (simp add: keeps_def world_ok_def)

lemma every_locks [simp]:
  "every_call (keeps (world_ok A)) (locked p) \<longleftrightarrow> every_call (keeps (world_ok A)) p"
  "every_call (keeps (world_ok A)) (unlocked p) \<longleftrightarrow> every_call (keeps (world_ok A)) p"
  by (simp_all add: locked_def unlocked_def keeps_def world_ok_def)

lemma ok_new_state: "registry_ok g \<Longrightarrow> u \<noteq> '''' \<Longrightarrow> registry_ok (snd (set_new_state u g))"
proof -
  assume ok: "registry_ok g" and u: "u \<noteq> ''''"
  have st: "states_ok g" and so: "sessions_ok g" using ok by (auto simp: registry_ok_def)
  have "ustates g (next_ustate g) = None" using st unfolding states_ok_def by (metis less_irrefl_nat option.exhaust)
  then have "states_ok (snd (set_new_state u g))"
    using st u unfolding states_ok_def set_new_state_def put_ustate_def by (auto simp: less_Suc_eq Let_def)
  moreover have "sessions_ok (snd (set_new_state u g))"
    using so by (rule sessions_ok_cong [rotated -1]) (simp_all add: set_new_state_def put_ustate_def Let_def)
  ultimately show ?thesis by (simp add: registry_ok_def)
qed

lemma ok_take_devices: "registry_ok g \<Longrightarrow> registry_ok (snd (take_devices p g))"
proof (cases "ustates g p")
  case (Some st)
  assume "registry_ok g"
  then have so: "sessions_ok g" and ok: "states_ok g" by (auto simp: registry_ok_def)
  let ?g = "put_ustate p (st\<lparr>us_devices := []\<rparr>) g"
  have "states_ok ?g" by (rule states_ok_devices [OF ok Some]) auto
  moreover have "sessions_ok ?g" using so by (rule sessions_ok_cong [rotated -1]) (simp_all add: put_ustate_def)
  ultimately show ?thesis using Some by (simp add: take_devices_def registry_ok_def)
qed (simp add: take_devices_def)

lemma ok_remove_state: "registry_ok g \<Longrightarrow> registry_ok (g\<lparr>userStates := (userStates g)(u := None)\<rparr>)"
  by (auto simp: registry_ok_def sessions_ok_def session_ok_def states_ok_def)

text \<open>No access removes a session.\<close>

lemma sessions_stay:
  "A \<subseteq> dom (sessions g) \<Longrightarrow> A \<subseteq> dom (sessions (auth_fields b u d n g))" "A \<subseteq> dom (sessions g) \<Longrightarrow> A \<subseteq> dom (sessions (Revoke sp g))"
  "A \<subseteq> dom (sessions g) \<Longrightarrow> A \<subseteq> dom (sessions (snd (NewDeviceSession conn g)))"
  "sessions (auth_register p b d g) = sessions g" "sessions (snd (set_new_state u g)) = sessions g" "sessions (snd (take_devices p g)) = sessions g"
  by (auto simp: auth_fields_def Revoke_def NewDeviceSession_def make_chan_def put_session_def close_chan_def auth_register_def put_ustate_def
      set_new_state_def take_devices_def Let_def split: option.split)

lemma registers: "A \<subseteq> dom (sessions g) \<Longrightarrow> a \<in> A \<Longrightarrow> sessions g a \<noteq> None"
  by auto

lemma every_user_state: "u \<noteq> '''' \<Longrightarrow> every_call (keeps (world_ok A)) (user_state_prog w u)"
  unfolding user_state_prog_def
  by (auto split: option.split sum.split simp: get_state_def keeps_def world_ok_def ok_new_state sessions_stay backend_ok_def
      intro!: every_intros every_call_attempt)

lemma keeps_accesses:
  "keeps (world_ok A) s (snd (on_registry (\<lambda>g. ((), auth_fields a u d n g)) s))"
  "a \<in> A \<Longrightarrow> keeps (world_ok A) s (snd (on_registry (\<lambda>g. ((), auth_register p a d g)) s))"
  "keeps (world_ok A) s (snd (on_registry (\<lambda>g. ((), Revoke sp g)) s))"
  "keeps (world_ok A) s (snd (on_registry (NewDeviceSession conn) s))"
  "keeps (world_ok A) s (snd (on_registry (take_devices p) s))"
  "keeps (world_ok A) s (snd (on_registry (\<lambda>g. ((), g\<lparr>userStates := (userStates g)(u := None)\<rparr>)) s))"
  "keeps (world_ok A) s (snd (on_registry (\<lambda>g. (f g, g)) s))" "keeps (world_ok A) s (snd (on_registry (get_state u) s))"
  by (rule keeps_registry; simp add: ok_fields ok_register registers ok_revoke ok_new ok_take_devices ok_remove_state get_state_def sessions_stay)+

lemma keeps_reads:
  "keeps (world_ok A) s (snd (on_backend (\<lambda>b. (f b, b)) s))" "keeps (world_ok A) s (snd (on_backend (on_db (ExistsActiveByUserID w u)) s))"
  by (simp_all add: keeps_def world_ok_def)

lemmas every_world = every_intros every_call_attempt keeps_accesses keeps_reads every_in_world

lemma every_Authenticate: "set_option sp \<subseteq> A \<Longrightarrow> every_call (keeps (world_ok A)) (Authenticate_prog w sp u d n)"
  unfolding Authenticate_prog_def Let_def
  by (auto split: option.split intro!: every_world every_user_state simp del: on_registry_simps)

lemma every_Invalidate: "every_call (keeps (world_ok A)) (InvalidateUserSessions_prog u)"
proof -
  have "every_call (keeps (world_ok A)) (revoke_prog as)" for as
    by (induction as) (auto intro!: every_world simp del: on_registry_simps)
  then show ?thesis unfolding InvalidateUserSessions_prog_def detach_prog_def Let_def
    by (auto split: option.split intro!: every_world simp del: on_registry_simps)
qed

lemma task_keeps_ok:
  assumes "task_sessions t \<subseteq> A"
  shows "every_call (keeps (world_ok A)) (task_prog cd t)"
proof -
  have service: "every_call keeps_ok (Register_prog w creds)" "every_call keeps_ok (LoginByCredentials_prog w creds)"
    "every_call keeps_ok (LoginByToken_prog w tok)" "every_call keeps_ok (ScheduleAccountDeletion_prog w n p)"
    "every_call keeps_ok (CancelAccountDeletion_prog w n p)" for w creds tok n p by (simp_all add: every_service_call)
  have fin: "every_call (keeps (world_ok A)) (finish_auth_prog w cd c res)" if "set_option (rc_Session c) \<subseteq> A" for w c res
    unfolding finish_auth_prog_def using that by (auto intro!: every_world every_Authenticate)
  show ?thesis using assms
    by (cases t)
       (auto simp: answered_def HandleUserRegister_prog_def HandleUserLoginByCredentials_prog_def HandleUserLoginByToken_prog_def
         HandleAccountDelete_prog_def HandleAccountDeleteCancel_prog_def AuthMiddleware_prog_def Let_def
         simp del: on_registry_simps on_backend_simps split: sum.split intro!: every_world service fin every_Invalidate every_worker)
qed


section \<open>The mutex\<close>

text \<open>
  How a program uses \<open>userStatesInitMu\<close>, when it holds it (\<open>h\<close>) and when it does not: the
  holder never waits, gives the mutex back before it returns, and no other program gives it back.
\<close>

primrec mutex_use :: "(world, 'a) prog \<Rightarrow> bool \<Rightarrow> bool" where
  "mutex_use (Return r) = (\<lambda>h. \<not> h)"
| "mutex_use (Call g e c) = (\<lambda>h.
     if h then \<forall>s. wd_initMu s \<longrightarrow> g s \<and> mutex_use (c s) (wd_initMu (e s))
     else \<forall>s. if wd_initMu s then g s \<longrightarrow> wd_initMu (e s) \<and> mutex_use (c s) False
              else g s \<and> mutex_use (c s) (wd_initMu (e s)))"

text \<open>A program that neither uses the mutex nor waits, and one that returns no error.\<close>

primrec off_mutex :: "(world, 'a) prog \<Rightarrow> bool" where
  "off_mutex (Return r) \<longleftrightarrow> True"
| "off_mutex (Call g e c) \<longleftrightarrow> (\<forall>s. g s \<and> wd_initMu (e s) = wd_initMu s \<and> off_mutex (c s))"

primrec succeeds :: "('s, 'a) prog \<Rightarrow> bool" where
  "succeeds (Return r) \<longleftrightarrow> \<not> isl r"
| "succeeds (Call g e c) \<longleftrightarrow> (\<forall>s. succeeds (c s))"

lemma succeeds_attempt [simp]: "succeeds (attempt p)"
  by (induction p) simp_all

lemma succeeds_bind: "succeeds p \<Longrightarrow> (\<And>x. succeeds (k x)) \<Longrightarrow> succeeds (bind_prog p k)"
proof (induction p)
  case (Return r)
  then show ?case by (cases r) simp_all
qed simp

lemma off_bind: "off_mutex p \<Longrightarrow> (\<And>x. off_mutex (k x)) \<Longrightarrow> off_mutex (bind_prog p k)"
proof (induction p)
  case (Return r)
  then show ?case by (cases r) simp_all
qed simp

lemma off_attempt: "off_mutex p \<Longrightarrow> off_mutex (attempt p)"
  by (induction p) simp_all

lemma off_in_world: "waitless p \<Longrightarrow> off_mutex (in_world p)"
  by (induction p) simp_all

lemma off_access [simp]: "off_mutex (call (on_registry f))" "off_mutex (call (on_backend h))" "succeeds (call (on_registry f))"
  by (simp_all add: call_def)

lemma mutex_off: "off_mutex p \<Longrightarrow> mutex_use p False"
  by (induction p) auto

lemma mutex_bind: "mutex_use p h \<Longrightarrow> (\<And>x. mutex_use (k x) False) \<Longrightarrow> mutex_use (bind_prog p k) h"
proof (induction p arbitrary: h)
  case (Return r)
  then show ?case by (cases r; cases h) simp_all
next
  case (Call g e c)
  then show ?case by (cases h) (simp_all split: if_split_asm)
qed

lemma mutex_inside: "off_mutex p \<Longrightarrow> succeeds p \<Longrightarrow> (\<And>x. mutex_use (k x) True) \<Longrightarrow> mutex_use (bind_prog p k) True"
proof (induction p)
  case (Return r)
  then show ?case by (cases r) simp_all
qed simp

lemma mutex_access: "mutex_use (call (on_registry f)) False" "mutex_use (call (on_backend h)) False"
  by (simp_all add: mutex_off)

lemma mutex_service: "off_mutex p \<Longrightarrow> mutex_use (attempt p) False" "waitless q \<Longrightarrow> mutex_use (in_world q) False"
  by (simp_all add: mutex_off off_attempt off_in_world)

lemma mutex_next:
  "(\<And>x. mutex_use (k x) h) \<Longrightarrow> mutex_use (next_call (on_registry f) k) h"
proof (cases h)
  case False
  assume "\<And>x. mutex_use (k x) h"
  then show ?thesis using False unfolding next_call_def by (auto intro!: mutex_bind mutex_access)
qed (auto simp: next_call_def intro!: mutex_inside)

lemma mutex_locks: "mutex_use p True \<Longrightarrow> mutex_use (locked p) False" "mutex_use p False \<Longrightarrow> mutex_use (unlocked p) True"
  by (simp_all add: locked_def unlocked_def)

lemma mutex_user_state: "mutex_use (user_state_prog w u) False"
proof -
  have db: "off_mutex (attempt (next_call (on_backend (\<lambda>b. (DefaultDB (b_db b), b))) (\<lambda>_. call (on_backend (on_db (GetUserByID w u))))))"
    unfolding next_call_def by (intro off_attempt off_bind off_access)
  show ?thesis unfolding user_state_prog_def
    by (auto split: option.split sum.split intro!: mutex_next mutex_locks mutex_inside db)
qed

lemmas mutex_intros = mutex_next mutex_bind mutex_access mutex_service off_in_world off_access service_waitless worker_waitless

lemma mutex_Authenticate: "mutex_use (Authenticate_prog w sp u d n) False"
  unfolding Authenticate_prog_def Let_def by (auto split: option.split intro!: mutex_user_state mutex_intros)

lemma mutex_Invalidate: "mutex_use (InvalidateUserSessions_prog u) False"
proof -
  have "mutex_use (revoke_prog as) False" for as by (induction as) (auto intro!: mutex_next)
  then show ?thesis unfolding InvalidateUserSessions_prog_def detach_prog_def Let_def
    by (auto split: option.split intro!: mutex_next mutex_bind)
qed

lemma mutex_task: "mutex_use (task_prog cd t) False"
  by (cases t)
     (auto simp: answered_def HandleUserRegister_prog_def HandleUserLoginByCredentials_prog_def HandleUserLoginByToken_prog_def finish_auth_prog_def
       HandleAccountDelete_prog_def HandleAccountDeleteCancel_prog_def AuthMiddleware_prog_def Let_def
       split: sum.split intro!: mutex_Authenticate mutex_Invalidate mutex_intros)


text \<open>Either nobody holds the mutex, or exactly one goroutine of the pool does.\<close>

definition mutex_ok :: "(world, 'a) prog list \<times> world \<Rightarrow> bool" where
  "mutex_ok t \<longleftrightarrow> (\<exists>h. (h = None \<longleftrightarrow> \<not> wd_initMu (snd t)) \<and> (\<forall>j. h = Some j \<longrightarrow> j < length (fst t))
     \<and> (\<forall>i<length (fst t). mutex_use (fst t ! i) (h = Some i)))"

interpretation mutex: step_invariant pool_step mutex_ok
proof
  fix s t
  assume "pool_step s t" "mutex_ok s"
  then obtain h where h: "h = None \<longleftrightarrow> \<not> wd_initMu (snd s)" "\<forall>j. h = Some j \<longrightarrow> j < length (fst s)"
    "\<forall>i<length (fst s). mutex_use (fst s ! i) (h = Some i)" by (auto simp: mutex_ok_def)
  from \<open>pool_step s t\<close> show "mutex_ok t"
  proof cases
    case (1 i ps g e c st)
    let ?h = "if wd_initMu st \<and> h \<noteq> Some i then h else if wd_initMu (e st) then Some i else None"
    have i: "mutex_use (Call g e c) (h = Some i)" using h(3) 1 by (metis fst_conv)
    have "mutex_use (ps[i := c st] ! j) (?h = Some j)" if "j < length ps" for j
    proof (cases "j = i")
      case True
      then show ?thesis using i 1 h(1) by (cases "h = Some i"; cases "wd_initMu st") (auto split: if_split_asm)
    next
      case False
      have "mutex_use (ps ! j) (h = Some j)" using h(3) that 1 by simp
      then show ?thesis using False h(1) 1 by (auto split: if_split_asm)
    qed
    moreover have "?h = None \<longleftrightarrow> \<not> wd_initMu (e st)" using i 1 h(1) by (auto split: if_split_asm)
    moreover have "\<forall>j. ?h = Some j \<longrightarrow> j < length ps" using h(2) 1 by auto
    ultimately show ?thesis using 1 unfolding mutex_ok_def by (intro exI [of _ ?h]) simp
  qed
qed

lemma stuck_returned:
  assumes "mutex_ok (ps, s)" "\<nexists>t. pool_step (ps, s) t"
  shows "\<not> wd_initMu s \<and> (\<forall>i<length ps. \<exists>r. ps ! i = Return r)"
proof -
  obtain h where h: "h = None \<longleftrightarrow> \<not> wd_initMu s" "\<forall>j. h = Some j \<longrightarrow> j < length ps" "\<forall>i<length ps. mutex_use (ps ! i) (h = Some i)"
    using assms(1) by (auto simp: mutex_ok_def)
  have blocked: "\<not> g s" if "i < length ps" "ps ! i = Call g e c" for i g e c using assms(2) pool_step.intros [OF that] by blast
  have "h = None"
  proof (rule ccontr)
    assume "h \<noteq> None"
    then obtain j where j: "h = Some j" "j < length ps" "wd_initMu s" using h(1,2) by auto
    then have "mutex_use (ps ! j) True" using h(3) by force
    then show False using blocked [OF j(2)] j(3) by (cases "ps ! j") auto
  qed
  moreover have "\<exists>r. ps ! i = Return r" if "i < length ps" for i
    using h(1,3) that blocked [OF that] \<open>h = None\<close> by (cases "ps ! i") (auto split: if_split_asm)
  ultimately show ?thesis using h(1) by blast
qed

text \<open>Every goroutine ends without an error: what fails becomes an answer.\<close>

lemma succeeds_next: "(\<And>x. succeeds (k x)) \<Longrightarrow> succeeds (next_call (on_registry f) k)"
  unfolding next_call_def by (intro succeeds_bind) simp_all

lemma succeeds_locks [simp]: "succeeds (locked p) = succeeds p" "succeeds (unlocked p) = succeeds p"
  by (simp_all add: locked_def unlocked_def)

lemma succeeds_user_state: "succeeds (user_state_prog w u)"
  unfolding user_state_prog_def by (auto split: option.split sum.split intro!: succeeds_next succeeds_bind)

lemma succeeds_Authenticate: "succeeds (Authenticate_prog w sp u d n)"
  unfolding Authenticate_prog_def Let_def by (auto split: option.split intro!: succeeds_next succeeds_bind succeeds_user_state)

lemma succeeds_Invalidate: "succeeds (InvalidateUserSessions_prog u)"
proof -
  have "succeeds (revoke_prog as)" for as by (induction as) (auto intro!: succeeds_next)
  then show ?thesis unfolding InvalidateUserSessions_prog_def detach_prog_def Let_def
    by (auto split: option.split intro!: succeeds_next succeeds_bind)
qed

lemma succeeds_in_world [simp]: "succeeds (in_world p) = succeeds p" if "succeeds p"
  using that by (induction p) auto

lemma succeeds_total: "(\<And>s. \<not> isl (fst (f s))) \<Longrightarrow> (\<And>x. succeeds (k x)) \<Longrightarrow> succeeds (next_call f k)"
  unfolding next_call_def by (intro succeeds_bind) (simp_all add: call_def)

lemma succeeds_worker: "succeeds (worker_prog w)"
proof -
  have tagged: "\<not> isl (fst (case x of (r, b1) \<Rightarrow> (Inr r, b1)))" for x :: "'r \<times> 's" by (cases x) simp
  have item: "succeeds (process_item_prog w redis item)" for redis item
    unfolding process_item_prog_def remove_name_prog_def Let_def
    by (rule succeeds_total) (auto simp: tagged call_def split: sum.split prod.split)
  have items: "succeeds (process_items_prog w redis items)" for redis items by (induction items) (auto intro!: succeeds_bind item)
  show ?thesis unfolding worker_prog_def
    by (auto split: sum.split prod.split simp: tagged intro!: succeeds_total items)
qed

lemma succeeds_task: "succeeds (task_prog cd t)"
  by (cases t)
     (auto simp: answered_def HandleUserRegister_prog_def HandleUserLoginByCredentials_prog_def HandleUserLoginByToken_prog_def finish_auth_prog_def
       HandleAccountDelete_prog_def HandleAccountDeleteCancel_prog_def AuthMiddleware_prog_def Let_def succeeds_worker
       split: sum.split intro!: succeeds_next succeeds_bind succeeds_Authenticate succeeds_Invalidate)

interpretation success: step_invariant pool_step "\<lambda>t. \<forall>p\<in>set (fst t). succeeds p"
proof
  fix s t
  assume "pool_step s t" "\<forall>p\<in>set (fst s). succeeds p"
  then show "\<forall>p\<in>set (fst t). succeeds p"
  proof cases
    case (1 i ps g e c st)
    then have "succeeds (Call g e c)" using \<open>\<forall>p\<in>set (fst s). succeeds p\<close> nth_mem [of i ps] by fastforce
    then show ?thesis using 1 \<open>\<forall>p\<in>set (fst s). succeeds p\<close> by (auto dest!: subsetD [OF set_update_subset_insert])
  qed
qed

section \<open>The server under any interleaving\<close>

text \<open>
  C7. The server under concurrency. Any number of goroutines, the handlers of requests on
  existing sessions, accepted connections and rounds of the worker, start on a well-formed
  state and run in any interleaving of their accesses to the stores, to the map of user states
  and to the sessions, while every exchange with a store may fail. At every moment the tables
  satisfy their constraints and hold valid names only, and the registry is consistent: no
  channel is ever closed twice, revoked sessions are logged out, registered sessions exist. No
  run is infinite, and there is no deadlock: when no goroutine can go on, the mutex
  \<open>userStatesInitMu\<close> is free and every goroutine has ended, every request with an answer.
\<close>

theorem goroutines_safe:
  assumes "backend_ok (wd_backend s)" "registry_ok (wd_registry s)" "\<not> wd_initMu s"
    and "\<forall>t\<in>set ts. task_sessions t \<subseteq> dom (sessions (wd_registry s))"
    and "pool_step\<^sup>*\<^sup>* (map (task_prog cd) ts, s) (ps, s')"
  shows "backend_ok (wd_backend s') \<and> registry_ok (wd_registry s')
    \<and> (\<nexists>f. f 0 = (ps, s') \<and> (\<forall>n. pool_step (f n) (f (Suc n))))
    \<and> ((\<nexists>t. pool_step (ps, s') t) \<longrightarrow> \<not> wd_initMu s' \<and> (\<forall>i<length ts. \<exists>x. ps ! i = Return (Inr x)))"
proof -
  let ?A = "dom (sessions (wd_registry s))"
  have "pool_ok (world_ok ?A) (map (task_prog cd) ts, s)"
    using assms(1,2,4) by (auto simp: pool_ok_def world_ok_def task_keeps_ok)
  then have ok: "world_ok ?A s'" using pools.steps_keep [OF assms(5)] by (auto simp: pool_ok_def)
  have "mutex_ok (map (task_prog cd) ts, s)" using assms(3) mutex_task by (auto simp: mutex_ok_def intro!: exI [of _ None])
  then have m: "mutex_ok (ps, s')" by (rule mutex.steps_keep [OF assms(5)])
  have succ: "\<forall>p\<in>set ps. succeeds p" using success.steps_keep [OF assms(5)] succeeds_task by auto
  have len: "length ps = length ts" using pool_length [OF assms(5)] by simp
  have returned: "\<exists>x. ps ! i = Return (Inr x)" if "i < length ps" "\<exists>r. ps ! i = Return r" for i
    using succ that nth_mem [OF that(1)] by (metis isl_def succeeds.simps(1) sum.collapse(2))
  have "\<not> wd_initMu s' \<and> (\<forall>i<length ts. \<exists>x. ps ! i = Return (Inr x))" if "\<nexists>t. pool_step (ps, s') t"
    using stuck_returned [OF m that] returned len by simp
  then show ?thesis using ok pool_no_infinite unfolding world_ok_def by blast
qed

section \<open>Examples\<close>

text \<open>Two connections register the same name while the worker runs and a third one is accepted.\<close>

definition demo_tasks :: "task list" where
  "demo_tasks = [TRegister quiet_outside \<lparr>rc_Request = [], rc_Session = Some 0\<rparr>, TRegister quiet_outside \<lparr>rc_Request = [], rc_Session = Some 1\<rparr>,
     TWorker quiet_outside, TConnect None]"

definition demo_world :: world where
  "demo_world = \<lparr>wd_backend = new_backend, wd_registry = two_sessions, wd_initMu = False\<rparr>"

lemma new_backend_ok: "backend_ok new_backend"
  using new_backend_wf by (simp add: backend_ok_def names_valid_def new_backend_def empty_db_def)

theorem goroutines_safe_witness:
  "\<exists>ps s' r0 r1 r2 r3. pool_step\<^sup>*\<^sup>* (map (task_prog other_op) demo_tasks, demo_world) (ps, s')
     \<and> registry_ok (wd_registry s') \<and> \<not> wd_initMu s'
     \<and> ps ! 0 = Return (Inr r0) \<and> ps ! 1 = Return (Inr r1) \<and> ps ! 2 = Return (Inr r2) \<and> ps ! 3 = Return (Inr r3)"
proof -
  obtain ps s' where run: "pool_step\<^sup>*\<^sup>* (map (task_prog other_op) demo_tasks, demo_world) (ps, s')" "\<nexists>u. pool_step (ps, s') u"
    using pool_finishes [of "(map (task_prog other_op) demo_tasks, demo_world)"] by auto
  have "registry_ok (wd_registry s') \<and> \<not> wd_initMu s' \<and> (\<forall>i<length demo_tasks. \<exists>x. ps ! i = Return (Inr x))"
    using goroutines_safe [OF _ _ _ _ run(1)] run(2) new_backend_ok two_sessions_ok by (auto simp: demo_world_def demo_tasks_def)
  moreover have "length demo_tasks = 4" by (simp add: demo_tasks_def)
  ultimately have "registry_ok (wd_registry s')" "\<not> wd_initMu s'" "\<exists>x. ps ! 0 = Return (Inr x)" "\<exists>x. ps ! 1 = Return (Inr x)"
    "\<exists>x. ps ! 2 = Return (Inr x)" "\<exists>x. ps ! 3 = Return (Inr x)" by simp_all
  then show ?thesis using run(1) by blast
qed

end
