(* ===== verification/Races.thy ===== *)
theory Races
  imports Concurrency
begin

text \<open>
  A schedule the server cannot exclude: the check for a pending deletion in
  \<open>LoginByCredentials\<close> (\<open>src/server/auth/auth.go\<close>) and the statement that stores the new token are
  separate exchanges with the database, so a whole deletion request of another connection can
  run between them.
\<close>

section \<open>Goroutines in stages\<close>

lemma thread_attempts: "thread_step\<^sup>*\<^sup>* (p, s) (q, s') \<Longrightarrow> thread_step\<^sup>*\<^sup>* (attempt p, s) (attempt q, s')"
proof (induction rule: rtranclp_induct2)
  case (step q s q' s')
  then have "thread_step (attempt q, s) (attempt q', s')" by (auto elim!: thread_step.cases intro: thread_call)
  with step.IH show ?case by (rule rtranclp.rtrancl_into_rtrancl)
qed simp

lemma thread_in_world:
  "thread_step\<^sup>*\<^sup>* (p, wd_backend s) (q, b) \<Longrightarrow> thread_step\<^sup>*\<^sup>* (in_world p, s) (in_world q, s\<lparr>wd_backend := b\<rparr>)"
proof (induction rule: rtranclp_induct2)
  case (step q b q' b')
  from step(2) have "thread_step (in_world q, s\<lparr>wd_backend := b\<rparr>) (in_world q', s\<lparr>wd_backend := b'\<rparr>)"
  proof cases
    case (thread_call g e c)
    then show ?thesis using thread_step.intros [of "\<lambda>s. g (wd_backend s)" "s\<lparr>wd_backend := b\<rparr>"
        "\<lambda>s. s\<lparr>wd_backend := e (wd_backend s)\<rparr>" "\<lambda>s. in_world (c (wd_backend s))"] by simp
  qed
  with step.IH show ?case by (rule rtranclp.rtrancl_into_rtrancl)
qed simp

lemma mutex_never_waits: "mutex_use p (wd_initMu s) \<Longrightarrow> never_waits p s"
  by (induction p arbitrary: s) (auto split: if_split_asm)

lemma thread_task_runs: "mutex_use p False \<Longrightarrow> \<not> wd_initMu s \<Longrightarrow> thread_step\<^sup>*\<^sup>* (p, s) (Return (fst (run p s)), snd (run p s))"
  by (intro thread_runs mutex_never_waits) simp

section \<open>A login up to its last statement\<close>

definition token_stage :: "outside \<Rightarrow> AuthResult \<Rightarrow> (backend, AuthResult) prog" where
  "token_stage w res =
     next_call (on_db (UpsertActiveToken w (a_UserID res) (a_DeviceID res) (a_DeviceName res) (hashToken (a_SessionToken res))))
       (\<lambda>_. Return (Inr res))"

lemma login_stages:
  assumes login: "LoginByCredentials w creds b = (Inr res, b')"
  shows "thread_step\<^sup>*\<^sup>* (LoginByCredentials_prog w creds, b) (token_stage w res, b)"
  using login
proof (rule LoginByCredentials_InrD)
  let ?n = "NormalizeUsername (lower_table w) (c_Username creds)"
  fix user u db' h
  assume n: "ValidUsername ?n" and v: "verifyPassword (argon2_IDKey w) (c_Password creds) (u_PasswordHash user) = Inr True"
    and user: "lookup_by u_Username ?n (users (b_tables b)) = Some user"
    and g: "generateSessionTokenPair w = Inr (a_SessionToken res, h)"
    and res: "a_UserID res = u_ID user" "a_DeviceID res = TrimSpace (c_DeviceID creds)" "a_DeviceName res = TrimSpace (c_DeviceName creds)"
  let ?get = "\<lambda>b. replace_error ErrUserNotFound ErrInvalidCredentials (on_db (GetUserByUsername w ?n) b)"
  have pw: "TrimSpace (c_Password creds) \<noteq> ''''" "TrimSpace (c_DeviceID creds) \<noteq> ''''"
    using login by (auto simp: LoginByCredentials_def run_simps Let_def split: if_splits)
  obtain d where d: "defaultDeps b = Inr d" using login by (cases "defaultDeps b") (auto simp: LoginByCredentials_def)
  obtain user' b1 b2 where get: "on_db (GetUserByUsername w ?n) b = (Inr user', b1)" and rj: "rejectIfPendingDeletion w (u_ID user') b1 = (Inr (), b2)"
    using login by (auto simp: LoginByCredentials_def run_simps Let_def split: if_splits)
  have same: "user' = user" "b1 = b" using get user n by (auto simp: on_db_iff TrimSpace_ValidUsername dest!: GetUserByUsername_InrD)
  have ex: "on_db (ExistsActiveByUserID w (u_ID user)) b = (Inr False, b)"
    using rj same rejectIfPendingDeletion_InrD [OF rj] by (auto simp: rejectIfPendingDeletion_def and_then_Inr_iff split: if_splits)
  define after where "after user = (if verifyPassword (argon2_IDKey w) (c_Password creds) (u_PasswordHash user) \<noteq> Inr True
     then Return (Inl ErrInvalidCredentials)
     else bind_prog (reject_pending_prog w (u_ID user)) (\<lambda>_.
     bind_prog (Return (generateSessionTokenPair w)) (\<lambda>(sessionToken, sessionTokenHash).
     next_call (on_db (UpsertActiveToken w (u_ID user) (TrimSpace (c_DeviceID creds)) (TrimSpace (c_DeviceName creds)) sessionTokenHash)) (\<lambda>_.
     Return (Inr \<lparr>a_UserID = u_ID user, a_DeviceID = TrimSpace (c_DeviceID creds), a_DeviceName = TrimSpace (c_DeviceName creds),
       a_SessionToken = sessionToken\<rparr>)))))" for user :: User
  have "LoginByCredentials_prog w creds = next_call (\<lambda>b. (defaultDeps b, b)) (\<lambda>_. next_call ?get after)"
    using n pw by (simp add: LoginByCredentials_prog_def Let_def after_def [abs_def])
  then have 1: "thread_step (LoginByCredentials_prog w creds, b) (next_call ?get after, b)"
    using thread_next [of "\<lambda>b. (defaultDeps b, b)" b d b] d by simp
  have 2: "thread_step (next_call ?get after, b) (after user, b)"
    using get same by (intro thread_next [where f = ?get and k = after]) simp
  have eq: "\<lparr>a_UserID = u_ID user, a_DeviceID = TrimSpace (c_DeviceID creds), a_DeviceName = TrimSpace (c_DeviceName creds), a_SessionToken = a_SessionToken res\<rparr> = res"
    using res by (cases res) simp
  have "token_stage w res = next_call (on_db (UpsertActiveToken w (u_ID user) (TrimSpace (c_DeviceID creds)) (TrimSpace (c_DeviceName creds)) h))
      (\<lambda>_. Return (Inr \<lparr>a_UserID = u_ID user, a_DeviceID = TrimSpace (c_DeviceID creds), a_DeviceName = TrimSpace (c_DeviceName creds),
         a_SessionToken = a_SessionToken res\<rparr>))"
    unfolding eq using res token_pair(1) [OF g] by (simp add: token_stage_def)
  then have "after user = next_call (on_db (ExistsActiveByUserID w (u_ID user)))
      (\<lambda>pending. if pending then Return (Inl ErrAccountPendingDeletion) else token_stage w res)"
    using g v by (auto simp: after_def reject_pending_prog_def bind_next intro!: arg_cong2 [where f = next_call])
  then have 3: "thread_step (after user, b) (token_stage w res, b)"
    using thread_next [where f = "on_db (ExistsActiveByUserID w (u_ID user))", OF ex,
        of "\<lambda>pending. if pending then Return (Inl ErrAccountPendingDeletion) else token_stage w res"] by simp
  show ?thesis using 1 2 3 by (meson converse_rtranclp_into_rtranclp r_into_rtranclp)
qed

section \<open>The deletion request in between\<close>

lemma deletion_tables: "\<exists>D. snd (sql_upsert_deletion now u t db) = db\<lparr>deletions := D\<rparr>"
proof -
  have "db = db\<lparr>deletions := deletions db\<rparr>" by simp
  then have "\<exists>D. db = db\<lparr>deletions := D\<rparr>" by blast
  then show ?thesis by (auto simp: sql_upsert_deletion_def Let_def simp del: ex_simps split: option.split)
qed

lemma token_beside_deletion:
  assumes "UpsertActiveToken w i d n h db = (Inr x, db')"
  shows "UpsertActiveToken w i d n h (db\<lparr>deletions := D\<rparr>) = (Inr x, db'\<lparr>deletions := D\<rparr>)"
proof -
  have sql: "sql_upsert_token w u h d n (db\<lparr>deletions := D\<rparr>) =
      (fst (sql_upsert_token w u h d n db), (snd (sql_upsert_token w u h d n db))\<lparr>deletions := D\<rparr>)" for u d n
    by (auto simp: sql_upsert_token_def Let_def split: option.split)
  have delivered: "exchange f p s = (Inr (), t) \<longleftrightarrow> f = Delivered \<and> p = (Inr (), t)" for f p and s t :: tables
    by (cases f; cases p) auto
  have "sql_upsert_token w u h (TrimSpace d) (TrimSpace n) db = (Inr x, db') \<Longrightarrow>
      sql_upsert_token w u h (TrimSpace d) (TrimSpace n) (db\<lparr>deletions := D\<rparr>) = (Inr x, db'\<lparr>deletions := D\<rparr>)" for u
    unfolding sql by simp
  then show ?thesis using assms
    by (auto simp: UpsertActiveToken_def with_uuid_def delivered Let_def split: if_splits option.splits)
qed

lemma delete_succeeds:
  assumes "run (AuthMiddleware_prog w (rc_Session c) (HandleAccountDelete_prog w cd True c)) s = (Inr (ErrCodeOK, m, body), s1)"
    and "registry_ok (wd_registry s)"
  obtains req ts b where "unm_Delete cd (rc_Request c) = Inr req"
    "ScheduleAccountDeletion w (dr_Username req) (dr_Password req) (wd_backend s) = (Inr ts, b)" "wd_backend s1 = b" "wd_initMu s1 = wd_initMu s"
proof -
  obtain s0 where h: "run (HandleAccountDelete_prog w cd True c) s0 = (Inr (ErrCodeOK, m, body), s1)" "s0 = s"
    using assms(1) by (auto simp: AuthMiddleware_prog_def and_then_pair split: sum.splits if_splits)
  then show thesis using assms(2) that [OF _ prod_eqI]
    by (auto simp: HandleAccountDelete_prog_def run_Schedule and_then_pair run_Invalidate Let_def split: sum.splits if_splits)
qed

section \<open>The race\<close>

text \<open>The rest of a login, from its last statement on.\<close>

definition login_rest :: "outside \<Rightarrow> codec \<Rightarrow> ResponseContext \<Rightarrow> AuthResult \<Rightarrow> (world, outcome) prog" where
  "login_rest w cd c res = answered (bind_prog (attempt (in_world (token_stage w res))) (\<lambda>r.
     case r of
       Inl err \<Rightarrow> Return (Inr (
         if errors_is err ErrDeviceIDRequired then (ErrCodeInvalidParameters, ''device_id is required'', None)
         else if errors_is err ErrAccountPendingDeletion then (ErrCodeForbidden, ''account pending deletion'', None)
         else if errors_is err ErrInvalidCredentials then (ErrCodeInvalidCredentials, '''', None)
         else (ErrCodeInternal, '''', None)))
     | Inr res \<Rightarrow> finish_auth_prog w cd c res))"

lemma login_reaches_rest:
  assumes "unm_LoginCredentials cd (rc_Request c) = Inr req"
    and "LoginByCredentials w \<lparr>c_Username = lr_Username req, c_DisplayName = '''', c_Password = lr_Password req,
       c_DeviceID = lr_DeviceId req, c_DeviceName = lr_DeviceName req\<rparr> (wd_backend s) = (Inr res, b)"
  shows "thread_step\<^sup>*\<^sup>* (task_prog cd (TLogin w c), s) (login_rest w cd c res, s)"
  using thread_in_world [OF login_stages [OF assms(2)]] assms(1)
  by (auto simp: HandleUserLoginByCredentials_prog_def login_rest_def answered_def intro!: thread_binds thread_attempts)

lemma mutex_rest: "mutex_use (login_rest w cd c res) False"
proof -
  have "waitless (token_stage w res)" by (auto simp: token_stage_def intro!: waitless_intros)
  then show ?thesis
    by (auto simp: login_rest_def answered_def finish_auth_prog_def split: sum.split intro!: mutex_Authenticate mutex_intros)
qed

lemma run_rest:
  assumes "UpsertActiveToken w (a_UserID res) (a_DeviceID res) (a_DeviceName res) (hashToken (a_SessionToken res)) (b_tables (wd_backend s)) = (Inr (), db)"
    and "\<not> wd_initMu s" "rc_Session c = Some a" and b: "b = (wd_backend s)\<lparr>b_tables := db\<rparr>"
  shows "run (login_rest w cd c res) s = (Inr (Answered (ErrCodeOK, '''', Some (mar_Auth cd \<lparr>ar_SessionToken = a_SessionToken res\<rparr>))),
     s\<lparr>wd_backend := b, wd_registry := Authenticate w b (Some a) (a_UserID res) (a_DeviceID res) (a_DeviceName res) (wd_registry s)\<rparr>)"
  using assms by (simp add: login_rest_def answered_def token_stage_def finish_auth_prog_def run_Authenticate on_db_def)

lemma token_after_deletion:
  assumes reg: "registry_ok (wd_registry s)"
    and names: "NormalizeUsername (lower_table w') (dr_Username dreq) = NormalizeUsername (lower_table w) (c_Username creds)"
    and req: "unm_Delete cd (rc_Request c') = Inr dreq"
    and login: "LoginByCredentials w creds (wd_backend s) = (Inr res, b)"
    and delete: "run (AuthMiddleware_prog w' (rc_Session c') (HandleAccountDelete_prog w' cd True c')) s = (Inr (ErrCodeOK, m, body), s1)"
  obtains db r where "UpsertActiveToken w (a_UserID res) (a_DeviceID res) (a_DeviceName res) (hashToken (a_SessionToken res)) (b_tables (wd_backend s1)) = (Inr (), db)"
    "r \<in> set (deletions db)" "uuid_text w' (TrimSpace (a_UserID res)) = Some (p_UserID r)" "wd_initMu s1 = wd_initMu s"
proof -
  let ?bt = "b_tables (wd_backend s)" and ?h = "hashToken (a_SessionToken res)"
  obtain ts where sch: "ScheduleAccountDeletion w' (dr_Username dreq) (dr_Password dreq) (wd_backend s) = (Inr ts, wd_backend s1)" "wd_initMu s1 = wd_initMu s"
    using delete reg by (rule delete_succeeds) (use req in simp)
  obtain user u where u: "verifyDeleteCredentials w' (dr_Username dreq) (dr_Password dreq) (wd_backend s) = (Inr user, wd_backend s)"
      "uuid_text w' (TrimSpace (u_ID user)) = Some u" "u \<in> u_ID ` set (users ?bt)"
    and s1: "wd_backend s1 = (wd_backend s)\<lparr>b_tables := snd (sql_upsert_deletion (pg_now w' Q_UpsertDeletion) u
        ((go_now w' + AccountDeletionDelay) div 1000) ?bt)\<rparr>"
    using sch(1) by (rule ScheduleAccountDeletion_InrD)
  obtain D where D: "b_tables (wd_backend s1) = ?bt\<lparr>deletions := D\<rparr>" using deletion_tables s1 by force
  then have "D = deletions (b_tables (wd_backend s1))" by simp
  then obtain r where row: "r \<in> set D" "p_UserID r = u"
    using s1 sql_upsert_deletion_rows(2) [OF u(3), of "pg_now w' Q_UpsertDeletion" "(go_now w' + AccountDeletionDelay) div 1000"] by auto
  obtain db' where ups: "UpsertActiveToken w (a_UserID res) (a_DeviceID res) (a_DeviceName res) ?h ?bt = (Inr (), db')" and same: "a_UserID res = u_ID user"
    using login by (rule LoginByCredentials_InrD) (use verifyDeleteCredentials_InrD(4) [OF u(1)] names token_pair(1) in auto)
  have "UpsertActiveToken w (a_UserID res) (a_DeviceID res) (a_DeviceName res) ?h (b_tables (wd_backend s1)) = (Inr (), db'\<lparr>deletions := D\<rparr>)"
    unfolding D by (rule token_beside_deletion [OF ups])
  then show thesis using row u(2) same sch(2) by (intro that) auto
qed

text \<open>
  C32. A login that outlives the deletion it should have seen. Of two connections, one logs in with a
  password and the other deletes the same account. If each request would succeed alone, there
  is an interleaving in which both are answered with status 0 although the whole deletion
  request, with its invalidation of the user's sessions, runs before the login stores its
  token: at the end the account is pending deletion, yet the login's token is stored and its
  session is authenticated as the user and not revoked.
\<close>

theorem login_outlives_deletion:
  assumes ok: "backend_ok (wd_backend s)" "registry_ok (wd_registry s)" "\<not> wd_initMu s"
    and session: "rc_Session c = Some a" "sessions (wd_registry s) a \<noteq> None"
    and req: "unm_LoginCredentials cd (rc_Request c) = Inr lreq" "unm_Delete cd (rc_Request c') = Inr dreq"
      "NormalizeUsername (lower_table w') (dr_Username dreq) = NormalizeUsername (lower_table w) (lr_Username lreq)"
    and login: "LoginByCredentials w \<lparr>c_Username = lr_Username lreq, c_DisplayName = '''', c_Password = lr_Password lreq,
       c_DeviceID = lr_DeviceId lreq, c_DeviceName = lr_DeviceName lreq\<rparr> (wd_backend s) = (Inr res, b)"
    and ids: "good_id (a_UserID res)" "good_id (a_DeviceID res)"
    and delete: "run (AuthMiddleware_prog w' (rc_Session c') (HandleAccountDelete_prog w' cd True c')) s = (Inr (ErrCodeOK, m, body), s1)"
  shows "\<exists>s'. pool_step\<^sup>*\<^sup>* (map (task_prog cd) [TLogin w c, TDelete w' True c'], s)
      ([Return (Inr (Answered (ErrCodeOK, '''', Some (mar_Auth cd \<lparr>ar_SessionToken = a_SessionToken res\<rparr>)))),
        Return (Inr (Answered (ErrCodeOK, m, body)))], s')
    \<and> (\<exists>r\<in>set (deletions (b_tables (wd_backend s'))). uuid_text w' (TrimSpace (a_UserID res)) = Some (p_UserID r))
    \<and> lookup_by r_TokenHash (hashToken (a_SessionToken res)) (tokens (b_tables (wd_backend s'))) \<noteq> None
    \<and> IsAuthenticated (Some a) (wd_registry s') \<and> session_UserID (Some a) (wd_registry s') = a_UserID res
    \<and> \<not> IsRevoked (Some a) (wd_registry s')"
proof -
  let ?P = "task_prog cd (TLogin w c)" and ?Q = "task_prog cd (TDelete w' True c')" and ?R = "login_rest w cd c res"
  let ?h = "hashToken (a_SessionToken res)" and ?done = "Return (Inr (Answered (ErrCodeOK, m, body)))"
  obtain db r where tok: "UpsertActiveToken w (a_UserID res) (a_DeviceID res) (a_DeviceName res) ?h (b_tables (wd_backend s1)) = (Inr (), db)"
      "r \<in> set (deletions db)" "uuid_text w' (TrimSpace (a_UserID res)) = Some (p_UserID r)" and mu: "\<not> wd_initMu s1"
    using ok(2) _ req(2) login delete by (rule token_after_deletion) (use req(3) ok(3) in simp_all)
  define b' where "b' = (wd_backend s1)\<lparr>b_tables := db\<rparr>"
  define g' where "g' = Authenticate w b' (Some a) (a_UserID res) (a_DeviceID res) (a_DeviceName res) (wd_registry s1)"
  have i: "pool_step\<^sup>*\<^sup>* ([?P, ?Q], s) ([?R, ?Q], s)"
    using pool_lift [OF login_reaches_rest [OF req(1) login], of 0 "[?P, ?Q]"] by simp
  have "run ?Q s = (Inr (Answered (ErrCodeOK, m, body)), s1)" using delete by (simp add: answered_def)
  then have "thread_step\<^sup>*\<^sup>* (?Q, s) (?done, s1)" using thread_task_runs [OF mutex_task ok(3), of cd "TDelete w' True c'"] by (simp del: task_prog.simps)
  then have q: "pool_step\<^sup>*\<^sup>* ([p, ?Q], s) ([p, ?done], s1)" for p using pool_lift [of "(?Q, s)" "(?done, s1)" 1 "[p, ?Q]"] by simp
  have "pool_ok (world_ok {a}) ([?P, ?Q], s)"
    using ok session by (auto simp: pool_ok_def world_ok_def simp del: task_prog.simps intro!: task_keeps_ok)
  then have w1: "world_ok {a} s1" using pools.steps_keep [OF q] by (auto simp: pool_ok_def)
  have k: "pool_step\<^sup>*\<^sup>* ([?R, ?done], s1) ([Return (Inr (Answered (ErrCodeOK, '''', Some (mar_Auth cd \<lparr>ar_SessionToken = a_SessionToken res\<rparr>)))), ?done],
      s1\<lparr>wd_backend := b', wd_registry := g'\<rparr>)"
    using pool_lift [OF thread_task_runs [OF mutex_rest mu, of w cd c res], of 0 "[?R, ?done]"] run_rest [OF tok(1) mu session(1) b'_def] by (simp add: g'_def)
  have w1': "registry_ok (wd_registry s1)" "sessions (wd_registry s1) a \<noteq> None" "db_wf (b_tables (wd_backend s1))"
    using w1 by (auto simp: world_ok_def backend_ok_def)
  have "lookup_by r_TokenHash ?h (tokens (b_tables b')) \<noteq> None"
    by (rule UpsertActiveToken_effect [OF tok(1) w1'(3)]) (simp add: b'_def)
  moreover have "\<exists>x. sessions g' a = Some x \<and> s_userID x = a_UserID res \<and> s_deviceID x = a_DeviceID res \<and> \<not> s_revoked x"
    using logged_in [OF w1'(1,2) ids g'_def] by blast
  moreover have "pool_step\<^sup>*\<^sup>* ([?P, ?Q], s) ([Return (Inr (Answered (ErrCodeOK, '''', Some (mar_Auth cd \<lparr>ar_SessionToken = a_SessionToken res\<rparr>)))), ?done],
      s1\<lparr>wd_backend := b', wd_registry := g'\<rparr>)" using i q k by (meson rtranclp_trans)
  ultimately show ?thesis using tok(2,3) ids
    by (intro exI [of _ "s1\<lparr>wd_backend := b', wd_registry := g'\<rparr>"])
       (auto simp: b'_def IsAuthenticated_def session_UserID_def IsRevoked_def good_id_def simp del: task_prog.simps)
qed

section \<open>Example\<close>

text \<open>Alice deletes her account on one connection while she logs in on another.\<close>

lemma alice_busy:
  obtains b res b1 ts b2 where "backend_ok b" "LoginByCredentials quiet_outside (alice_creds\<lparr>c_DisplayName := ''''\<rparr>) b = (Inr res, b1)"
    "a_UserID res = ''u1''" "a_DeviceID res = ''phone''"
    "ScheduleAccountDeletion quiet_outside ''Alice'' ''secret'' b = (Inr ts, b2)"
    "defaultDB (b_db b) \<noteq> None" "fst (ExistsActiveByUserID quiet_outside ''u1'' (b_tables b)) = Inr False"
proof (rule schedule_registered_alice)
  fix b ts b2
  assume s: "ScheduleAccountDeletion quiet_outside (c_Username alice_creds) (c_Password alice_creds) b = (Inr ts, b2)"
    and up: "backend_up quiet_outside b" and b: "b = snd (Register quiet_outside alice_creds new_backend)"
  obtain res0 b0 where r: "Register quiet_outside alice_creds new_backend = (Inr res0, b0)" "a_UserID res0 = ''u1''"
    and draw: "draws_token quiet_outside (\<lambda>r. r_DeviceID r = ''phone'') b0" by (rule register_alice)
  let ?creds = "alice_creds\<lparr>c_DisplayName := ''''\<rparr>"
  obtain user where u: "lookup_by u_Username ''alice'' (users (b_tables b)) = Some user" "u_ID user = ''u1''"
    "verifyPassword (argon2_IDKey quiet_outside) (c_Password alice_creds) (u_PasswordHash user) = Inr True"
    "lookup_by p_UserID (u_ID user) (deletions (b_tables b)) = None"
    by (rule Register_account [OF r(1) new_backend_wf quiet_argon2]) (use alice_name r b in auto)
  obtain res b1 where l: "LoginByCredentials quiet_outside ?creds b = (Inr res, b1)" "a_UserID res = ''u1''"
    using LoginByCredentials_up(3) [OF up, of ?creds user] alice_name u draw r b by auto
  have d: "a_DeviceID res = ''phone''" using l(1) by (rule LoginByCredentials_InrD) (use alice_name(4) in simp)
  have "good_id ''u1''" "uuid_text quiet_outside ''u1'' = Some ''u1''" by code_simp (simp add: quiet_outside_def)
  then have "fst (ExistsActiveByUserID quiet_outside ''u1'' (b_tables b)) = Inr False"
    using up u(2,4) by (simp add: ExistsActiveByUserID_live backend_up_def)
  moreover have "backend_ok b" using ok_Register [OF new_backend_ok] b by simp
  ultimately show thesis using that l d s up by (simp add: backend_up_def alice_creds_def)
qed

theorem login_outlives_deletion_witness:
  "\<exists>b r1 r2 s'. pool_step\<^sup>*\<^sup>* (map (task_prog other_op) [TLogin quiet_outside \<lparr>rc_Request = [], rc_Session = Some 1\<rparr>,
        TDelete quiet_outside True \<lparr>rc_Request = [], rc_Session = Some 0\<rparr>],
        \<lparr>wd_backend = b, wd_registry = alice_session, wd_initMu = False\<rparr>)
      ([Return (Inr (Answered (ErrCodeOK, '''', r1))), Return (Inr (Answered (ErrCodeOK, '''', r2)))], s')
    \<and> deletions (b_tables (wd_backend s')) \<noteq> [] \<and> session_UserID (Some 1) (wd_registry s') = ''u1''"
proof (rule alice_busy)
  fix b res b1 ts b2
  assume b: "backend_ok b" "LoginByCredentials quiet_outside (alice_creds\<lparr>c_DisplayName := ''''\<rparr>) b = (Inr res, b1)"
    "a_UserID res = ''u1''" "a_DeviceID res = ''phone''"
    "ScheduleAccountDeletion quiet_outside ''Alice'' ''secret'' b = (Inr ts, b2)"
    "defaultDB (b_db b) \<noteq> None" "fst (ExistsActiveByUserID quiet_outside ''u1'' (b_tables b)) = Inr False"
  let ?s = "\<lparr>wd_backend = b, wd_registry = alice_session, wd_initMu = False\<rparr>"
  let ?c = "\<lparr>rc_Request = [], rc_Session = Some 1\<rparr>" and ?c' = "\<lparr>rc_Request = [], rc_Session = Some 0\<rparr>"
  have "\<exists>s1. run (AuthMiddleware_prog quiet_outside (rc_Session ?c') (HandleAccountDelete_prog quiet_outside other_op True ?c')) ?s
      = (Inr (ErrCodeOK, '''', Some (Inr [0])), s1)"
    using b alice_session_ok run_Invalidate [of "\<lparr>wd_backend = b2, wd_registry = alice_session, wd_initMu = False\<rparr>"]
    by (auto simp: AuthMiddleware_prog_def HandleAccountDelete_prog_def and_then_pair run_Schedule DefaultDB_def)
  then obtain s1 where del: "run (AuthMiddleware_prog quiet_outside (rc_Session ?c') (HandleAccountDelete_prog quiet_outside other_op True ?c')) ?s
      = (Inr (ErrCodeOK, '''', Some (Inr [0])), s1)" by blast
  have ids: "good_id (a_UserID res)" "good_id (a_DeviceID res)" using b(3,4) by (simp_all add: good_id_def alice_name)
  have ses: "sessions alice_session 1 \<noteq> None" by code_simp
  have "unm_LoginCredentials other_op [] = Inr \<lparr>lr_Username = ''Alice'', lr_Password = ''secret'', lr_DeviceId = ''phone'', lr_DeviceName = ''Pixel''\<rparr>"
    by (simp add: other_op_def demo_codec_def)
  then obtain s' where "pool_step\<^sup>*\<^sup>* (map (task_prog other_op) [TLogin quiet_outside ?c, TDelete quiet_outside True ?c'], ?s)
      ([Return (Inr (Answered (ErrCodeOK, '''', Some (mar_Auth other_op \<lparr>ar_SessionToken = a_SessionToken res\<rparr>)))),
        Return (Inr (Answered (ErrCodeOK, '''', Some (Inr [0]))))], s')"
      "deletions (b_tables (wd_backend s')) \<noteq> []" "session_UserID (Some 1) (wd_registry s') = ''u1''"
    using login_outlives_deletion [OF _ _ _ _ _ _ _ _ _ ids del, where c = ?c and a = 1
        and lreq = "\<lparr>lr_Username = ''Alice'', lr_Password = ''secret'', lr_DeviceId = ''phone'', lr_DeviceName = ''Pixel''\<rparr>" and w = quiet_outside
        and dreq = "\<lparr>dr_Username = ''Alice'', dr_Password = ''secret''\<rparr>" and b = b1]
      b(1,2,3) alice_session_ok(1) ses by (fastforce simp: alice_creds_def simp del: task_prog.simps)
  then show ?thesis by blast
qed

end
