(* ===== verification/Locking.thy ===== *)
theory Locking
  imports Concurrency
begin

text \<open>
  The double-checked creation of a user's state in \<open>Authenticate\<close>
  (\<open>src/server/core/session/session.go\<close>): a goroutine that finds no state takes
  \<open>userStatesInitMu\<close>, looks again, and only then creates one. This is what keeps two logins of
  one user from replacing each other's state, and with it the registrations filed there.
\<close>

section \<open>What an access may do to the map of user states\<close>

definition absent :: "world \<Rightarrow> string set" where
  "absent s = {u. userStates (wd_registry s) u = None}"

text \<open>
  An entry keeps its state; or, where removals are allowed (\<open>rm\<close>), it goes away. Without
  removals its devices stay registered.
\<close>

definition entries_kept :: "bool \<Rightarrow> registry \<Rightarrow> registry \<Rightarrow> bool" where
  "entries_kept rm g g' \<longleftrightarrow> (\<forall>u p. userStates g u = Some p \<longrightarrow>
     userStates g' u = Some p \<and> (rm \<or> fst ` set (devices_of g u) \<subseteq> fst ` set (devices_of g' u)) \<or> rm \<and> userStates g' u = None)"

definition harmless :: "bool \<Rightarrow> world \<Rightarrow> world \<Rightarrow> bool" where
  "harmless rm s s' \<longleftrightarrow> entries_kept rm (wd_registry s) (wd_registry s') \<and> absent s \<subseteq> absent s' \<and> wd_initMu s' = wd_initMu s"

definition untouched :: "world \<Rightarrow> world \<Rightarrow> bool" where
  "untouched s s' \<longleftrightarrow> wd_registry s' = wd_registry s \<and> wd_initMu s' = wd_initMu s"

text \<open>
  How a program creates entries, when it holds the mutex (\<open>h\<close>) and knows that the users of \<open>U\<close>
  have none: no access replaces an entry, only the holder of the mutex adds one, and the mutex is
  given back by its holder only.
\<close>

primrec creates :: "bool \<Rightarrow> (world, 'a) prog \<Rightarrow> bool \<Rightarrow> string set \<Rightarrow> bool" where
  "creates rm (Return r) = (\<lambda>h U. \<not> h)"
| "creates rm (Call g e c) = (\<lambda>h U. \<forall>s. g s \<longrightarrow> registry_ok (wd_registry s) \<longrightarrow> (h \<longrightarrow> wd_initMu s \<and> U \<subseteq> absent s) \<longrightarrow>
     entries_kept rm (wd_registry s) (wd_registry (e s)) \<and> (h \<or> absent s \<subseteq> absent (e s))
     \<and> (\<not> h \<and> wd_initMu s \<longrightarrow> wd_initMu (e s))
     \<and> creates rm (c s) ((h \<or> \<not> wd_initMu s) \<and> wd_initMu (e s)) (absent (e s)))"

lemma kept_refl [simp]: "entries_kept rm g g"
  by (simp add: entries_kept_def)

lemma creates_outside: "creates rm p False U = creates rm p False V"
  by (cases p) simp_all

lemma creates_harmless: "every_call (harmless rm) p \<Longrightarrow> creates rm p False U"
  by (induction p arbitrary: U) (auto simp: harmless_def)

lemma creates_bind:
  "creates rm p h U \<Longrightarrow> (\<And>x. creates rm (k x) False {}) \<Longrightarrow> creates rm (bind_prog p k) h U"
proof (induction p arbitrary: h U)
  case (Return r)
  then show ?case using creates_outside [of rm _ U "{}"] by (cases r) auto
qed simp

text \<open>Inside the section, while the absence of \<open>u\<close> is known.\<close>

lemma creates_inside:
  "every_call untouched p \<Longrightarrow> succeeds p \<Longrightarrow> u \<in> U \<Longrightarrow> (\<And>x U. u \<in> U \<Longrightarrow> creates rm (k x) True U) \<Longrightarrow> creates rm (bind_prog p k) True U"
proof (induction p arbitrary: U)
  case (Return r)
  then show ?case by (cases r) simp_all
next
  case (Call g e c)
  have "creates rm (bind_prog (c s) k) True (absent (e s))" if "g s" "U \<subseteq> absent s" for s
    using Call.prems that by (intro Call.IH) (auto simp: untouched_def absent_def)
  then show ?case using Call.prems(1) by (auto simp: untouched_def absent_def)
qed

lemma creates_locked: "(\<And>U. creates rm p True U) \<Longrightarrow> creates rm (locked p) False V"
  by (simp add: locked_def absent_def)

lemma creates_unlocked: "creates rm p False {} \<Longrightarrow> creates rm (unlocked p) True U"
  using creates_outside [of rm p "{}"] by (simp add: unlocked_def absent_def)

lemma creates_get_state:
  assumes "\<And>U. u \<in> U \<Longrightarrow> creates rm (k None) True U" "\<And>p U. creates rm (k (Some p)) True U"
  shows "creates rm (next_call (on_registry (get_state u)) k) True U"
proof -
  have "creates rm (k (userStates (wd_registry s) u)) True (absent s)" for s
    using assms by (cases "userStates (wd_registry s) u") (auto simp: absent_def)
  then show ?thesis by (simp add: next_call_def call_def get_state_def absent_def)
qed

lemma kept_set_new_state:
  assumes "registry_ok g" "userStates g u = None"
  shows "entries_kept rm g (snd (set_new_state u g))"
  unfolding entries_kept_def
proof (intro allI impI)
  fix v p
  assume v: "userStates g v = Some p"
  then obtain st where "ustates g p = Some st" using assms(1) unfolding registry_ok_def states_ok_def by blast
  then have "p \<noteq> next_ustate g" using assms(1) unfolding registry_ok_def states_ok_def by auto
  then have "userStates (snd (set_new_state u g)) v = Some p" "devices_of (snd (set_new_state u g)) v = devices_of g v"
    using v assms(2) by (auto simp: set_new_state_def put_ustate_def devices_of_def Let_def)
  then show "userStates (snd (set_new_state u g)) v = Some p
      \<and> (rm \<or> fst ` set (devices_of g v) \<subseteq> fst ` set (devices_of (snd (set_new_state u g)) v))
      \<or> rm \<and> userStates (snd (set_new_state u g)) v = None" by simp
qed

lemma creates_set_new_state:
  assumes "u \<in> U" "\<And>p U. creates rm (k p) True U"
  shows "creates rm (next_call (on_registry (set_new_state u)) k) True U"
  using assms kept_set_new_state by (auto simp: next_call_def call_def absent_def)

section \<open>Every program of the server\<close>

lemma every_same: "every_call untouched p \<Longrightarrow> every_call (harmless rm) p"
  by (induction p) (auto simp: untouched_def harmless_def absent_def)

lemma untouched_in_world: "every_call untouched (in_world p)"
  by (induction p) (simp_all add: untouched_def)

lemma untouched_backend [simp]: "untouched s (snd (on_backend f s))"
  by (simp add: untouched_def)

lemma creates_user_state: "creates rm (user_state_prog w u) False U"
proof -
  have db: "every_call untouched (attempt (next_call (on_backend (\<lambda>b. (DefaultDB (b_db b), b))) (\<lambda>_. call (on_backend (on_db (GetUserByID w u))))))"
    by (intro every_call_attempt every_call_next) (simp_all add: untouched_def)
  have out: "creates rm (unlocked (Return (Inr x))) True U" for x :: "'x" and U by (rule creates_unlocked) simp
  have inside: "creates rm (locked (next_call (on_registry (get_state u)) (\<lambda>state. case state of
        Some p \<Rightarrow> unlocked (Return (Inr (Some p)))
      | None \<Rightarrow> bind_prog (attempt (next_call (on_backend (\<lambda>b. (DefaultDB (b_db b), b))) (\<lambda>_. call (on_backend (on_db (GetUserByID w u)))))) (\<lambda>r.
          case r of Inl err \<Rightarrow> unlocked (Return (Inr None))
          | Inr _ \<Rightarrow> next_call (on_registry (set_new_state u)) (\<lambda>p. unlocked (Return (Inr (Some p)))))))) False V" for V
    by (auto split: sum.split intro!: creates_locked creates_get_state creates_inside [OF db] creates_set_new_state out)
  have "every_call (harmless rm) (call (on_registry (get_state u)))" by (simp add: get_state_def harmless_def absent_def)
  then show ?thesis unfolding user_state_prog_def
    by (subst next_call_def, intro creates_bind, rule creates_harmless) (auto split: option.split intro!: inside)
qed

lemma kept_if_same:
  "userStates g' = userStates g \<Longrightarrow> (\<And>u. fst ` set (devices_of g u) \<subseteq> fst ` set (devices_of g' u)) \<Longrightarrow> entries_kept rm g g'"
  by (auto simp: entries_kept_def)

lemma devices_same:
  "devices_of (snd (NewDeviceSession conn g)) = devices_of g" "devices_of (auth_fields b u d n g) = devices_of g" "devices_of (Revoke sp g) = devices_of g"
  "userStates (snd (NewDeviceSession conn g)) = userStates g" "userStates (auth_fields b u d n g) = userStates g"
  "userStates (auth_register p b d g) = userStates g" "userStates (snd (take_devices p g)) = userStates g"
  by (auto simp: devices_of_def NewDeviceSession_def make_chan_def put_session_def auth_fields_def Revoke_def close_chan_def
      auth_register_def put_ustate_def take_devices_def Let_def fun_eq_iff split: option.splits)

lemma devices_register: "fst ` set (devices_of g u) \<subseteq> fst ` set (devices_of (auth_register p b d g) u)"
proof -
  have "fst ` set devs \<subseteq> fst ` set (set_device d b devs)" for devs by (force simp: set_device_def)
  moreover have "devices_of (auth_register p b d g) u =
      (if userStates g u = Some p \<and> ustates g p \<noteq> None then set_device d b (devices_of g u) else devices_of g u)"
    by (auto simp: devices_of_def auth_register_def put_ustate_def split: option.split)
  ultimately show ?thesis by simp
qed

lemma harmless_accesses:
  "harmless rm s (snd (on_registry (\<lambda>g. ((), auth_fields a u d n g)) s))" "harmless rm s (snd (on_registry (\<lambda>g. ((), auth_register p a d g)) s))"
  "harmless rm s (snd (on_registry (\<lambda>g. ((), Revoke sp g)) s))" "harmless rm s (snd (on_registry (NewDeviceSession conn) s))"
  "harmless rm s (snd (on_registry (\<lambda>g. (f g, g)) s))" "harmless rm s (snd (on_registry (get_state u) s))" "harmless rm s (snd (on_backend h s))"
  "harmless True s (snd (on_registry (take_devices p) s))"
  "harmless True s (snd (on_registry (\<lambda>g. ((), g\<lparr>userStates := (userStates g)(u := None)\<rparr>)) s))"
proof -
  have same: "harmless rm s (s\<lparr>wd_registry := g\<rparr>)"
    if "userStates g = userStates (wd_registry s)" "\<And>u. fst ` set (devices_of (wd_registry s) u) \<subseteq> fst ` set (devices_of g u)" for g
    using that by (simp add: harmless_def absent_def kept_if_same)
  show "harmless rm s (snd (on_registry (\<lambda>g. ((), auth_fields a u d n g)) s))" "harmless rm s (snd (on_registry (\<lambda>g. ((), auth_register p a d g)) s))"
    "harmless rm s (snd (on_registry (\<lambda>g. ((), Revoke sp g)) s))" "harmless rm s (snd (on_registry (NewDeviceSession conn) s))"
    "harmless rm s (snd (on_registry (\<lambda>g. (f g, g)) s))" "harmless rm s (snd (on_registry (get_state u) s))"
    unfolding on_registry_simps by (rule same; simp add: devices_same devices_register get_state_def)+
  show "harmless rm s (snd (on_backend h s))" by (simp add: harmless_def absent_def)
  show "harmless True s (snd (on_registry (take_devices p) s))"
    "harmless True s (snd (on_registry (\<lambda>g. ((), g\<lparr>userStates := (userStates g)(u := None)\<rparr>)) s))"
    by (auto simp: harmless_def absent_def entries_kept_def devices_same)
qed

lemmas every_harmless = every_call_next every_call_bind every_call_attempt every_same [OF untouched_in_world] harmless_accesses

lemma creates_Authenticate: "creates rm (Authenticate_prog w sp u d n) False U"
  unfolding Authenticate_prog_def Let_def next_call_def
  by (auto split: option.split simp: harmless_accesses simp del: on_registry_simps intro!: creates_bind creates_user_state creates_harmless [of _ "call _"])

lemma harmless_Invalidate: "every_call (harmless True) (InvalidateUserSessions_prog u)"
proof -
  have "every_call (harmless True) (revoke_prog as)" for as
    by (induction as) (auto intro!: every_harmless simp del: on_registry_simps)
  then show ?thesis unfolding InvalidateUserSessions_prog_def detach_prog_def Let_def
    by (auto split: option.split intro!: every_harmless simp del: on_registry_simps)
qed

text \<open>Only a deletion request removes an entry.\<close>

definition deletes :: "task \<Rightarrow> bool" where
  "deletes t = (case t of TDelete w sent c \<Rightarrow> True | _ \<Rightarrow> False)"

lemma creates_task:
  assumes "deletes t \<longrightarrow> rm"
  shows "creates rm (task_prog cd t) False U"
proof -
  have service: "creates rm (attempt (in_world p)) False V" for p :: "(backend, 'x) prog" and V
    by (intro creates_harmless every_call_attempt every_same untouched_in_world)
  have fin: "creates rm (finish_auth_prog w cd c res) False V" for w c res V
    unfolding finish_auth_prog_def by (intro creates_bind creates_Authenticate) simp
  show ?thesis
  proof (cases "\<exists>w sent c. t = TDelete w sent c")
    case True
    then obtain w sent c where t: "t = TDelete w sent c" by blast
    then have rm: "rm = True" using assms by (simp add: deletes_def)
    show ?thesis unfolding t rm
      by (auto simp: answered_def HandleAccountDelete_prog_def AuthMiddleware_prog_def Let_def simp del: on_registry_simps on_backend_simps
          split: sum.split intro!: creates_harmless every_harmless harmless_Invalidate)
  next
    case False
    then show ?thesis
      by (cases t)
         (auto simp: answered_def HandleUserRegister_prog_def HandleUserLoginByCredentials_prog_def HandleUserLoginByToken_prog_def
           HandleAccountDeleteCancel_prog_def Let_def simp del: on_registry_simps
           split: sum.split intro!: creates_bind service fin creates_harmless [of _ "next_call _ _"] creates_harmless [of _ "in_world _"] every_harmless)
  qed
qed

section \<open>Any number of goroutines\<close>

text \<open>Nobody holds the mutex, or one goroutine does and knows users without an entry.\<close>

definition creation_ok :: "bool \<Rightarrow> (world, 'a) prog list \<times> world \<Rightarrow> bool" where
  "creation_ok rm t \<longleftrightarrow> (\<exists>h U. (h = None \<longleftrightarrow> \<not> wd_initMu (snd t)) \<and> (\<forall>j. h = Some j \<longrightarrow> j < length (fst t))
     \<and> (h \<noteq> None \<longrightarrow> U \<subseteq> absent (snd t)) \<and> (\<forall>i<length (fst t). creates rm (fst t ! i) (h = Some i) U))"

lemma creation_step:
  assumes step: "pool_step (ps, s) (ps', s')" and ok: "creation_ok rm (ps, s)" and reg: "registry_ok (wd_registry s)"
  shows "creation_ok rm (ps', s') \<and> entries_kept rm (wd_registry s) (wd_registry s')"
  using step
proof (rule pool_stepE)
  fix i g e c
  assume i: "i < length ps" "ps ! i = Call g e c" "(ps', s') = (ps[i := c s], e s)" "g s"
  obtain h U where h: "h = None \<longleftrightarrow> \<not> wd_initMu s" "\<forall>j. h = Some j \<longrightarrow> j < length ps" "h \<noteq> None \<longrightarrow> U \<subseteq> absent s"
    and c: "\<forall>i<length ps. creates rm (ps ! i) (h = Some i) U" using ok by (auto simp: creation_ok_def)
  have "creates rm (Call g e c) (h = Some i) U" using c i(1,2) by metis
  then have e: "entries_kept rm (wd_registry s) (wd_registry s')" "h = Some i \<or> absent s \<subseteq> absent s'"
      "h \<noteq> Some i \<and> wd_initMu s \<longrightarrow> wd_initMu s'" "creates rm (c s) ((h = Some i \<or> \<not> wd_initMu s) \<and> wd_initMu s') (absent s')"
    using i(3,4) reg h by auto
  define k where "k = (if wd_initMu s \<and> h \<noteq> Some i then h else if wd_initMu s' then Some i else None)"
  define V where "V = (if k = Some i then absent s' else U)"
  have at_i: "(k = Some i) = ((h = Some i \<or> \<not> wd_initMu s) \<and> wd_initMu s')" using h(1) by (cases "h = Some i") (auto simp: k_def)
  have others: "k = Some j \<Longrightarrow> j \<noteq> i \<Longrightarrow> h = Some j \<and> V = U" "h = Some j \<Longrightarrow> j \<noteq> i \<Longrightarrow> k = Some j" for j
    using h(1) by (auto simp: k_def V_def split: if_splits)
  have "creates rm (ps' ! j) (k = Some j) V" if j: "j < length ps'" for j
  proof (cases "j = i")
    case True
    then have "ps' ! j = c s" using i(1,3) by simp
    moreover have "creates rm (c s) (k = Some i) (absent s')" using e(4) unfolding at_i .
    ultimately show ?thesis using creates_outside [of rm "c s" "absent s'" V] True by (cases "k = Some i") (simp_all add: V_def)
  next
    case False
    then have "creates rm (ps' ! j) (h = Some j) U" using c i(3) j by simp
    moreover have "(k = Some j) = (h = Some j)" "h = Some j \<Longrightarrow> V = U" using False others [of j] by blast+
    ultimately show ?thesis using creates_outside [of rm "ps' ! j" U V] by (cases "h = Some j") simp_all
  qed
  moreover have "k = None \<longleftrightarrow> \<not> wd_initMu s'" using e(3) h(1) by (auto simp: k_def)
  moreover have "\<forall>j. k = Some j \<longrightarrow> j < length ps'" using h(2) i(1,3) by (auto simp: k_def)
  moreover have "k \<noteq> None \<longrightarrow> V \<subseteq> absent s'" using e(2) h(3) by (auto simp: k_def V_def)
  ultimately have "creation_ok rm (ps', s')" unfolding creation_ok_def fst_conv snd_conv by blast
  then show ?thesis using e(1) by simp
qed

interpretation creation: step_invariant pool_step "\<lambda>t. creation_ok rm t \<and> pool_ok (world_ok A) t" for rm A
proof
  fix t t'
  assume step: "pool_step t t'" and ok: "creation_ok rm t \<and> pool_ok (world_ok A) t"
  obtain ps s ps' s' where t: "t = (ps, s)" "t' = (ps', s')" by (meson surj_pair)
  have "registry_ok (wd_registry s)" using ok t by (simp add: pool_ok_def world_ok_def)
  then show "creation_ok rm t' \<and> pool_ok (world_ok A) t'"
    using creation_step [of ps s ps' s' rm] pools.step_keeps [OF step] step ok t by simp
qed

lemma kept_trans: "entries_kept False g g' \<Longrightarrow> entries_kept False g' g'' \<Longrightarrow> entries_kept False g g''"
  unfolding entries_kept_def by (metis subset_trans)

lemma creation_steps:
  assumes "pool_step\<^sup>*\<^sup>* t t'" "creation_ok False t \<and> pool_ok (world_ok A) t"
  shows "entries_kept False (wd_registry (snd t)) (wd_registry (snd t'))"
  using assms(1)
proof (induction rule: rtranclp_induct)
  case (step u v)
  have u: "creation_ok False u \<and> pool_ok (world_ok A) u" using creation.steps_keep [OF step(1) assms(2)] .
  obtain ps s ps' s' where "u = (ps, s)" "v = (ps', s')" by (meson surj_pair)
  then have "entries_kept False (wd_registry (snd u)) (wd_registry (snd v))"
    using creation_step [of ps s ps' s' False] step(2) u by (simp add: pool_ok_def world_ok_def)
  then show ?case using step.IH kept_trans by blast
qed simp

text \<open>
  C31. The double-checked creation of user states. Any number of goroutines run as in the
  deadlock theorem, on any well-formed state and in any interleaving. The state registered for a
  user is never replaced by another one: a step leaves the entry of a user alone, or removes it,
  which only a deletion request does. So as long as no deletion request is among the goroutines,
  every entry stays for the whole run, and every device that was registered stays registered
  (by a later session of the same device at most), however many logins of the same user race
  to create the state.
\<close>

theorem user_states_never_replaced:
  assumes start: "backend_ok (wd_backend s)" "registry_ok (wd_registry s)" "\<not> wd_initMu s"
    and tasks: "\<forall>t\<in>set ts. task_sessions t \<subseteq> dom (sessions (wd_registry s))"
    and before: "pool_step\<^sup>*\<^sup>* (map (task_prog cd) ts, s) (ps1, s1)"
    and state: "userStates (wd_registry s1) u = Some p"
  shows "(pool_step (ps1, s1) (ps2, s2) \<longrightarrow> userStates (wd_registry s2) u \<in> {Some p, None})
    \<and> (pool_step\<^sup>*\<^sup>* (ps1, s1) (ps2, s2) \<and> (\<nexists>w sent c. TDelete w sent c \<in> set ts) \<longrightarrow>
         userStates (wd_registry s2) u = Some p
         \<and> fst ` set (devices_of (wd_registry s1) u) \<subseteq> fst ` set (devices_of (wd_registry s2) u))"
proof -
  let ?A = "dom (sessions (wd_registry s))"
  have pool: "pool_ok (world_ok ?A) (map (task_prog cd) ts, s)"
    using start(1,2) tasks by (auto simp: pool_ok_def world_ok_def task_keeps_ok)
  have create: "creation_ok rm (map (task_prog cd) ts, s)" if "\<forall>t\<in>set ts. deletes t \<longrightarrow> rm" for rm
    unfolding creation_ok_def using start(3) that by (auto intro!: exI [of _ None] creates_task)
  have at1: "creation_ok rm (ps1, s1) \<and> pool_ok (world_ok ?A) (ps1, s1)" if "\<forall>t\<in>set ts. deletes t \<longrightarrow> rm" for rm
    using creation.steps_keep [OF before] create [OF that] pool by blast
  have "userStates (wd_registry s2) u \<in> {Some p, None}" if "pool_step (ps1, s1) (ps2, s2)"
    using creation_step [OF that, of True] at1 [of True] state by (auto simp: pool_ok_def world_ok_def entries_kept_def)
  moreover have "userStates (wd_registry s2) u = Some p \<and> fst ` set (devices_of (wd_registry s1) u) \<subseteq> fst ` set (devices_of (wd_registry s2) u)"
    if "pool_step\<^sup>*\<^sup>* (ps1, s1) (ps2, s2)" "\<nexists>w sent c. TDelete w sent c \<in> set ts"
  proof -
    have "\<forall>t\<in>set ts. deletes t \<longrightarrow> False" using that(2) by (auto simp: deletes_def split: task.splits)
    then show ?thesis using creation_steps [OF that(1) at1] state by (auto simp: entries_kept_def)
  qed
  ultimately show ?thesis by blast
qed

text \<open>Two connections log in as the same new user; Alice's state exists already.\<close>

definition racing_tasks :: "task list" where
  "racing_tasks = [TLogin quiet_outside \<lparr>rc_Request = [], rc_Session = Some 0\<rparr>, TLogin quiet_outside \<lparr>rc_Request = [], rc_Session = Some 1\<rparr>]"

definition alice_world :: world where
  "alice_world = \<lparr>wd_backend = new_backend, wd_registry = alice_session, wd_initMu = False\<rparr>"

theorem user_states_never_replaced_witness:
  "\<exists>ps s' p. pool_step\<^sup>*\<^sup>* (map (task_prog other_op) racing_tasks, alice_world) (ps, s') \<and> (\<nexists>t. pool_step (ps, s') t)
     \<and> userStates alice_session ''u1'' = Some p \<and> userStates (wd_registry s') ''u1'' = Some p
     \<and> ''phone'' \<in> fst ` set (devices_of (wd_registry s') ''u1'')"
proof -
  obtain p st d where p: "userStates alice_session ''u1'' = Some p" "ustates alice_session p = Some st" "(d, 0) \<in> set (us_devices st)"
    using alice_session_ok(4) mem_registered [of 0 alice_session "''u1''"] by auto
  obtain ps s' where run: "pool_step\<^sup>*\<^sup>* (map (task_prog other_op) racing_tasks, alice_world) (ps, s')" "\<nexists>t. pool_step (ps, s') t"
    using pool_finishes [of "(map (task_prog other_op) racing_tasks, alice_world)"] by auto
  have ses: "sessions alice_session 0 \<noteq> None" "sessions alice_session 1 \<noteq> None" by code_simp+
  have dev: "''phone'' \<in> fst ` set (devices_of alice_session ''u1'')" by code_simp
  have "userStates (wd_registry s') ''u1'' = Some p \<and> fst ` set (devices_of alice_session ''u1'') \<subseteq> fst ` set (devices_of (wd_registry s') ''u1'')"
    using user_states_never_replaced [OF _ _ _ _ rtranclp.rtrancl_refl, of alice_world racing_tasks "''u1''" p other_op ps s']
      run(1) p(1) new_backend_ok alice_session_ok(1) ses by (auto simp: alice_world_def racing_tasks_def)
  then show ?thesis using run p(1) dev by blast
qed

end
