(* ===== verification/Accounts.thy ===== *)
theory Accounts
  imports Deletion
begin

text \<open>
  One account over the requests of its owner: what holds of it between them, and how
  registering, logging in, scheduling and cancelling a deletion carry it on while the stores
  answer. The flows of \<open>Flows\<close> rest on these lemmas.
\<close>

section \<open>An account between requests\<close>

text \<open>Requests of one run of the program: the stores answer, and Unicode, UUID and Argon2 do not change.\<close>

definition same_world :: "outside \<Rightarrow> outside \<Rightarrow> bool" where
  "same_world w0 w \<longleftrightarrow> db_live w \<and> redis_live w \<and> lower_table w = lower_table w0 \<and> uuid_text w = uuid_text w0
     \<and> argon2_IDKey w = argon2_IDKey w0"

text \<open>The token a request draws.\<close>

definition drawn :: "outside \<Rightarrow> string option" where
  "drawn w = (case generateSessionTokenPair w of Inl _ \<Rightarrow> None | Inr (tok, _) \<Rightarrow> Some tok)"

lemma drawn_eq: "drawn w = Some tok \<Longrightarrow> generateSessionTokenPair w = Inr (tok, hashToken tok)"
  by (auto simp: drawn_def split: sum.splits dest: token_pair)

text \<open>
  The account of the user with the given name and password: the hashes of all stored tokens
  are in \<open>S\<close>, the sequence of token numbers is at most \<open>k\<close>.
\<close>

definition account :: "outside \<Rightarrow> string \<Rightarrow> string \<Rightarrow> User \<Rightarrow> byte list set \<Rightarrow> int \<Rightarrow> backend \<Rightarrow> bool" where
  "account w0 n pw user S k b \<longleftrightarrow> backend_up w0 b \<and> (\<forall>c. cache_of b = Some c \<longrightarrow> cache_client c \<noteq> None)
     \<and> ValidUsername n \<and> TrimSpace pw \<noteq> '''' \<and> lookup_by u_Username n (users (b_tables b)) = Some user
     \<and> verifyPassword (argon2_IDKey w0) pw (u_PasswordHash user) = Inr True
     \<and> r_TokenHash ` set (tokens (b_tables b)) \<subseteq> S \<and> token_seq (b_tables b) \<le> k"

definition pending :: "User \<Rightarrow> backend \<Rightarrow> PendingAccountDeletion option" where
  "pending user b = lookup_by p_UserID (u_ID user) (deletions (b_tables b))"

text \<open>The token with this text opens the account.\<close>

definition opens :: "User \<Rightarrow> string \<Rightarrow> backend \<Rightarrow> bool" where
  "opens user tok b \<longleftrightarrow> TrimSpace tok = tok \<and> tok \<noteq> ''''
     \<and> (\<exists>r. lookup_by r_TokenHash (hashToken tok) (tokens (b_tables b)) = Some r \<and> r_UserID r = u_ID user)"

lemma up_same: "backend_up w0 b \<Longrightarrow> same_world w0 w \<Longrightarrow> backend_up w b"
  by (simp add: backend_up_def same_world_def ids_canonical_def)

lemma draws_fresh:
  assumes "drawn w = Some tok" "r_TokenHash ` set (tokens (b_tables b)) \<subseteq> S" "hashToken tok \<notin> S"
  shows "draws_token w own b"
  using assms by (auto simp: draws_token_def drawn_eq [OF assms(1)])

text \<open>What changing the tokens keeps of an account.\<close>

lemma account_tokens:
  assumes "account w0 n pw user S k b" "db_wf db'" "users db' = users (b_tables b)"
    "r_TokenHash ` set (tokens db') \<subseteq> S'" "token_seq db' \<le> k'" "k' < max_bigint"
  shows "account w0 n pw user S' k' (b\<lparr>b_tables := db'\<rparr>)"
  using assms by (auto simp: account_def backend_up_def ids_canonical_def cache_of_def)

lemma Upsert_hashes:
  assumes "UpsertActiveToken w i d nm h db = (Inr x, db')"
  shows "r_TokenHash ` set (tokens db') \<subseteq> insert h (r_TokenHash ` set (tokens db))"
  using assms
proof (rule UpsertActiveToken_InrD)
  fix u assume "(Inr x, db') = sql_upsert_token w u h (TrimSpace d) (TrimSpace nm) db"
  note sql_upsert_token_InrD(4) [OF this [symmetric]]
  then show ?thesis by (auto simp: reissue_row_def issue_row_def)
qed

lemma Rotate_tables:
  assumes "RotateToken w i h db = (Inr x, db')"
  shows "r_TokenHash ` set (tokens db') \<subseteq> insert h (r_TokenHash ` set (tokens db))" "token_seq db' = token_seq db"
  using RotateToken_InrD [OF assms] by (auto simp: sql_rotate_token_def split: if_splits option.splits)

lemma fresh_token:
  assumes "generateSessionTokenPair w = Inr (tok, h)" "lookup_by r_TokenHash h (tokens (b_tables b)) = Some r" "r_UserID r = u_ID user"
  shows "opens user tok b"
  using assms token_pair [OF assms(1)] by (auto simp: opens_def)

section \<open>Registering\<close>

lemma account_registered:
  assumes can: "can_register w0 creds b" and name: "NormalizeUsername (lower_table w0) (c_Username creds) = n" "ValidUsername n"
    and pw: "TrimSpace (c_Password creds) \<noteq> ''''" and dev: "TrimSpace (c_DeviceID creds) \<noteq> ''''"
    and free: "n \<notin> u_Username ` set (users (b_tables b))" "cache_of b = None \<or> n \<notin> cached_names (b_redis b)"
    and len: "argon2_key_length (argon2_IDKey w0)" and seq: "token_seq (b_tables b) + 1 < max_bigint"
    and draw: "drawn w0 = Some tok"
  obtains res b' user where "Register w0 creds b = (Inr res, b')" "a_SessionToken res = tok"
    "account w0 n (c_Password creds) user (insert (hashToken tok) (r_TokenHash ` set (tokens (b_tables b)))) (token_seq (b_tables b) + 1) b'"
    "pending user b' = None" "a_UserID res = u_ID user" "a_DeviceID res = TrimSpace (c_DeviceID creds)"
proof -
  have up: "backend_up w0 b" using can by (simp add: can_register_def)
  obtain res b' where reg: "Register w0 creds b = (Inr res, b')"
    using Register_up(2) [OF can _ pw dev] name free by auto
  have wf: "db_wf (b_tables b)" using up by (simp add: backend_up_def)
  obtain user salt where user: "lookup_by u_Username n (users (b_tables b')) = Some user"
      "lookup_by p_UserID (u_ID user) (deletions (b_tables b')) = None" "a_UserID res = u_ID user"
    and v: "\<And>q. verifyPassword (argon2_IDKey w0) q (u_PasswordHash user) =
      Inr (argon2_IDKey w0 (bytes_of_string q) salt 3 65536 2 32
             = argon2_IDKey w0 (bytes_of_string (c_Password creds)) salt 3 65536 2 32)"
    by (rule Register_account [OF reg wf len]) (use name(1) in metis)
  have up': "backend_up w0 b'" by (rule Register_keeps_up [OF reg can seq])
  have "a_SessionToken res = tok \<and> a_DeviceID res = TrimSpace (c_DeviceID creds) \<and> cache_of b' = cache_of b
    \<and> r_TokenHash ` set (tokens (b_tables b')) \<subseteq> insert (hashToken tok) (r_TokenHash ` set (tokens (b_tables b)))
    \<and> token_seq (b_tables b') = token_seq (b_tables b) + 1"
    using reg
  proof (rule Register_InrD)
    fix user ph db1 db' h
    assume cu: "CreateUser w0 (NormalizeUsername (lower_table w0) (c_Username creds)) (TrimSpace (c_DisplayName creds)) ph (b_tables b) = (Inr user, db1)"
      and g: "generateSessionTokenPair w0 = Inr (a_SessionToken res, h)"
      and ups: "UpsertActiveToken w0 (u_ID user) (TrimSpace (c_DeviceID creds)) (TrimSpace (c_DeviceName creds)) h db1 = (Inr (), db')"
      and b': "b' = b\<lparr>b_tables := db', b_redis := cached_after_register w0 (NormalizeUsername (lower_table w0) (c_Username creds)) (u_ID user) b\<rparr>"
      and d: "a_DeviceID res = TrimSpace (c_DeviceID creds)"
    show ?thesis using drawn_eq [OF draw] g d b' Upsert_hashes [OF ups] UpsertActiveToken_seq [OF ups] CreateUser_InrD(6) [OF cu]
      by (simp add: cache_of_def)
  qed
  then show thesis using that [OF reg, of user] user v up' name(2) pw can
    by (simp add: account_def pending_def can_register_def)
qed

lemma account_taken:
  assumes acc: "account w0 n pw user S k b" and w: "same_world w0 w"
    and creds: "NormalizeUsername (lower_table w) (c_Username creds) = n" "TrimSpace (c_Password creds) \<noteq> ''''" "TrimSpace (c_DeviceID creds) \<noteq> ''''"
  shows "Register w creds b = (Inl ErrUsernameTaken, b)"
proof (rule Register_taken)
  show "backend_up w b" using acc w by (auto simp: account_def intro: up_same)
  have "lookup_by u_Username n (users (b_tables b)) = Some user" using acc by (simp add: account_def)
  from lookup_by_SomeD [OF this] show "NormalizeUsername (lower_table w) (c_Username creds) \<in> u_Username ` set (users (b_tables b))
      \<or> cache_of b \<noteq> None \<and> NormalizeUsername (lower_table w) (c_Username creds) \<in> cached_names (b_redis b)"
    unfolding creds(1) by blast
qed (use acc creds in \<open>auto simp: account_def\<close>)

section \<open>Logging in\<close>

lemma account_login:
  assumes acc: "account w0 n pw user S k b" and w: "same_world w0 w" and np: "pending user b = None"
    and creds: "NormalizeUsername (lower_table w) (c_Username creds) = n" "c_Password creds = pw" "TrimSpace (c_DeviceID creds) \<noteq> ''''"
    and draw: "drawn w = Some tok" "hashToken tok \<notin> S" and k: "k + 1 < max_bigint"
  obtains res b' where "LoginByCredentials w creds b = (Inr res, b')" "a_SessionToken res = tok" "a_UserID res = u_ID user"
    "a_DeviceID res = TrimSpace (c_DeviceID creds)"
    "account w0 n pw user (insert (hashToken tok) S) (k + 1) b'" "pending user b' = None" "opens user tok b'"
proof -
  have a: "backend_up w b" "ValidUsername n" "TrimSpace pw \<noteq> ''''" "lookup_by u_Username n (users (b_tables b)) = Some user"
    "verifyPassword (argon2_IDKey w) pw (u_PasswordHash user) = Inr True" "r_TokenHash ` set (tokens (b_tables b)) \<subseteq> S"
    "token_seq (b_tables b) \<le> k" "db_wf (b_tables b)"
    using acc w up_same [of w0 b w] by (auto simp: account_def same_world_def backend_up_def)
  obtain res b' where l: "LoginByCredentials w creds b = (Inr res, b')" "a_UserID res = u_ID user"
    using LoginByCredentials_up(3) [of w b creds user] a creds np draws_fresh [OF draw(1) a(6) draw(2)] by (auto simp: pending_def)
  from l(1) show thesis
  proof (rule LoginByCredentials_InrD)
    fix user' u db' h
    assume u': "lookup_by u_Username (NormalizeUsername (lower_table w) (c_Username creds)) (users (b_tables b)) = Some user'"
      and u: "uuid_text w (TrimSpace (u_ID user')) = Some u" and g: "generateSessionTokenPair w = Inr (a_SessionToken res, h)"
      and ups: "UpsertActiveToken w (u_ID user') (TrimSpace (c_DeviceID creds)) (TrimSpace (c_DeviceName creds)) h (b_tables b) = (Inr (), db')"
      and b': "b' = b\<lparr>b_tables := db'\<rparr>" and d: "a_DeviceID res = TrimSpace (c_DeviceID creds)"
    have same: "user' = user" using u' creds(1) a(4) by simp
    have tok: "a_SessionToken res = tok" "h = hashToken tok" using drawn_eq [OF draw(1)] g by simp_all
    obtain r where r: "lookup_by r_TokenHash h (tokens db') = Some r" "uuid_text w (TrimSpace (u_ID user')) = Some (r_UserID r)"
      and db': "users db' = users (b_tables b)" "deletions db' = deletions (b_tables b)" "db_wf db'"
      by (rule UpsertActiveToken_effect [OF ups a(8)]) blast
    have "user \<in> set (users (b_tables b))" using lookup_by_SomeD [OF a(4)] by simp
    then have id: "r_UserID r = u_ID user" using r(2) a(1) by (simp add: same backend_up_def ids_canonical_def good_id_def)
    have acc': "account w0 n pw user (insert (hashToken tok) S) (k + 1) b'"
      unfolding b' using Upsert_hashes [OF ups] UpsertActiveToken_seq [OF ups] a(6,7) tok(2)
      by (intro account_tokens [OF acc db'(3,1)] k) auto
    show thesis using that [OF l(1) tok(1) l(2) d acc'] np r(1) id b' db'(2) fresh_token [OF g, of b' r user]
      by (simp add: pending_def tok(1))
  qed
qed

lemma account_login_pending:
  assumes acc: "account w0 n pw user S k b" and w: "same_world w0 w" and p: "pending user b \<noteq> None"
    and creds: "NormalizeUsername (lower_table w) (c_Username creds) = n" "c_Password creds = pw" "TrimSpace (c_DeviceID creds) \<noteq> ''''"
  shows "LoginByCredentials w creds b = (Inl ErrAccountPendingDeletion, b)"
proof (rule LoginByCredentials_up(2))
  show "backend_up w b" using acc w by (auto simp: account_def intro: up_same)
qed (use acc w p creds in \<open>auto simp: account_def same_world_def pending_def\<close>)

lemma account_token:
  assumes acc: "account w0 n pw user S k b" and w: "same_world w0 w" and np: "pending user b = None" and o: "opens user tok b"
    and draw: "drawn w = Some new" "hashToken new \<notin> S" and k: "k < max_bigint"
  obtains res b' where "LoginByToken w tok b = (Inr res, b')" "a_SessionToken res = new" "a_UserID res = u_ID user"
    "account w0 n pw user (insert (hashToken new) S) k b'" "pending user b' = None" "opens user new b'"
    "lookup_by r_TokenHash (hashToken tok) (tokens (b_tables b')) = None"
proof -
  have a: "backend_up w b" "r_TokenHash ` set (tokens (b_tables b)) \<subseteq> S" "token_seq (b_tables b) \<le> k" "db_wf (b_tables b)"
    using acc w up_same [of w0 b w] by (auto simp: account_def backend_up_def)
  obtain r where r: "lookup_by r_TokenHash (hashToken tok) (tokens (b_tables b)) = Some r" "r_UserID r = u_ID user"
    and tok: "TrimSpace tok = tok" "tok \<noteq> ''''" using o by (auto simp: opens_def)
  have rm: "r \<in> set (tokens (b_tables b))" "r_TokenHash r = hashToken tok" using lookup_by_SomeD [OF r(1)] by auto
  obtain res b' where l: "LoginByToken w tok b = (Inr res, b')" "a_UserID res = u_ID user"
    using LoginByToken_succeeds [OF a(1) draws_fresh [OF draw(1) a(2) draw(2)], of tok r] tok r np by (auto simp: pending_def)
  from l(1) show thesis
  proof (rule LoginByToken_InrD)
    fix r' u db' h
    assume r': "lookup_by r_TokenHash (hashToken (TrimSpace tok)) (tokens (b_tables b)) = Some r'"
      and g: "generateSessionTokenPair w = Inr (a_SessionToken res, h)"
      and rot: "RotateToken w (r_TokenID r') h (b_tables b) = (Inr (), db')" and b': "b' = b\<lparr>b_tables := db'\<rparr>"
    have same: "r' = r" using r' tok r(1) by simp
    have new: "a_SessionToken res = new" "h = hashToken new" using drawn_eq [OF draw(1)] g by simp_all
    obtain y where y: "y \<in> set (tokens (b_tables b))" "r_TokenID y = r_TokenID r'"
      and hit: "lookup_by r_TokenHash h (tokens db') = Some (y\<lparr>r_TokenHash := h, r_LastUsedAt := pg_now w Q_RotateToken\<rparr>)"
      and old: "r_TokenHash y \<noteq> h \<Longrightarrow> lookup_by r_TokenHash (r_TokenHash y) (tokens db') = None"
      and db': "users db' = users (b_tables b)" "deletions db' = deletions (b_tables b)" "db_wf db'"
      by (rule RotateToken_effect [OF rot a(4)]) blast
    have yr: "y = r" using y rm(1) a(4) same by (auto simp: db_wf_def unique_by_def distinct_map dest: inj_onD)
    have "h \<noteq> r_TokenHash r" using draw(2) new(2) rm(1) a(2) by auto
    then have gone: "lookup_by r_TokenHash (hashToken tok) (tokens db') = None" using old yr rm(2) by auto
    have acc': "account w0 n pw user (insert (hashToken new) S) k b'"
      unfolding b' using Rotate_tables [OF rot] a(2,3) new(2) by (intro account_tokens [OF acc db'(3,1)] k) auto
    show thesis using that [OF l(1) new(1) l(2) acc'] np gone hit yr r(2) b' db'(2) fresh_token [OF g, of b' _ user]
      by (simp add: pending_def new(1))
  qed
qed

lemma account_token_dead:
  assumes acc: "account w0 n pw user S k b" and w: "same_world w0 w" and tok: "TrimSpace tok = tok" "tok \<noteq> ''''"
    and dead: "lookup_by r_TokenHash (hashToken tok) (tokens (b_tables b)) = None"
  shows "LoginByToken w tok b = (Inl ErrInvalidToken, b)"
  using LoginByToken_up [of w b tok] acc w tok dead up_same [of w0 b w] by (simp add: account_def)

section \<open>Scheduling and cancelling a deletion\<close>

lemma account_schedule:
  assumes acc: "account w0 n pw user S k b" and w: "same_world w0 w" and name: "NormalizeUsername (lower_table w) nm = n"
    and t: "go_now w + AccountDeletionDelay \<noteq> zero_time" and k: "k < max_bigint"
  obtains ts b' p where "ScheduleAccountDeletion w nm pw b = (Inr ts, b')" "account w0 n pw user S k b'"
    "pending user b' = Some p" "p_StartedAt p = None"
proof -
  have a: "backend_up w b" "ValidUsername n" "TrimSpace pw \<noteq> ''''" "lookup_by u_Username n (users (b_tables b)) = Some user"
    "verifyPassword (argon2_IDKey w) pw (u_PasswordHash user) = Inr True" "r_TokenHash ` set (tokens (b_tables b)) \<subseteq> S"
    "token_seq (b_tables b) \<le> k" "db_wf (b_tables b)"
    using acc w up_same [of w0 b w] by (auto simp: account_def same_world_def backend_up_def)
  let ?t = "(go_now w + AccountDeletionDelay) div 1000"
  let ?db = "snd (sql_upsert_deletion (pg_now w Q_UpsertDeletion) (u_ID user) ?t (b_tables b))"
  have s: "ScheduleAccountDeletion w nm pw b = (Inr (word_of_int (?t div 10 ^ 6)), b\<lparr>b_tables := ?db\<rparr>)"
    by (rule ScheduleAccountDeletion_up [OF a(1) _ a(3) _ a(5) t]) (use a name in simp_all)
  have mem: "user \<in> set (users (b_tables b))" using lookup_by_SomeD [OF a(4)] by simp
  then have known: "u_ID user \<in> u_ID ` set (users (b_tables b))" by simp
  note rows = sql_upsert_deletion_rows [OF known, of "pg_now w Q_UpsertDeletion" ?t]
  have wf: "db_wf ?db" using a(8) by (rule wf_upsert_deletion)
  then have "pending user (b\<lparr>b_tables := ?db\<rparr>) = Some \<lparr>p_UserID = u_ID user, p_ScheduledAt = pg_now w Q_UpsertDeletion, p_DeleteAt = ?t, p_StartedAt = None\<rparr>"
    using lookup_by_unique [OF _ rows(2), of p_UserID] by (simp add: pending_def db_wf_def)
  moreover have "account w0 n pw user S k (b\<lparr>b_tables := ?db\<rparr>)" using rows(3-5) a(6,7) by (intro account_tokens [OF acc wf] k) simp_all
  ultimately show thesis using that s by simp
qed

lemma account_cancel:
  assumes acc: "account w0 n pw user S k b" and w: "same_world w0 w" and name: "NormalizeUsername (lower_table w) nm = n"
    and p: "pending user b = Some p" "p_StartedAt p = None" and k: "k < max_bigint"
  obtains b' where "CancelAccountDeletion w nm pw b = (Inr (), b')" "account w0 n pw user S k b'" "pending user b' = None"
proof -
  have a: "backend_up w b" "ValidUsername n" "TrimSpace pw \<noteq> ''''" "lookup_by u_Username n (users (b_tables b)) = Some user"
    "verifyPassword (argon2_IDKey w) pw (u_PasswordHash user) = Inr True" "r_TokenHash ` set (tokens (b_tables b)) \<subseteq> S"
    "token_seq (b_tables b) \<le> k" "db_wf (b_tables b)"
    using acc w up_same [of w0 b w] by (auto simp: account_def same_world_def backend_up_def)
  let ?db = "sql_delete_deletion (u_ID user) (b_tables b)"
  have "CancelAccountDeletion w nm pw b = (Inr (), b\<lparr>b_tables := ?db\<rparr>)"
    using CancelAccountDeletion_up [OF a(1), of nm pw user] a name p by (simp add: pending_def)
  moreover have "db_wf ?db" using a(8) by (rule wf_delete_deletion)
  then have "account w0 n pw user S k (b\<lparr>b_tables := ?db\<rparr>)"
    using a(6,7) by (intro account_tokens [OF acc] k) (simp_all add: sql_delete_deletion_def)
  moreover have "pending user (b\<lparr>b_tables := ?db\<rparr>) = None"
    by (auto simp: pending_def sql_delete_deletion_def lookup_by_None_iff)
  ultimately show thesis using that by simp
qed

end
