(* ===== verification/Worker.thy ===== *)
theory Worker
  imports Accounts
begin

text \<open>
  The deletion worker over many rounds: the loop of \<open>StartDeletionWorker\<close> in
  \<open>src/server/auth/delete.go\<close>, which claims at most 50 accounts at every tick, catches up
  with any backlog.
\<close>

section \<open>The backlog\<close>

definition due_by :: "int \<Rightarrow> PendingAccountDeletion \<Rightarrow> bool" where
  "due_by t r \<longleftrightarrow> p_DeleteAt r \<le> t \<and> p_StartedAt r = None"

definition backlog :: "int \<Rightarrow> tables \<Rightarrow> nat" where
  "backlog t db = length (filter (due_by t) (deletions db))"

text \<open>A round that finds the stores up, the clock at \<open>t\<close> or later, and no row locked by another worker.\<close>

definition round_ok :: "outside \<Rightarrow> int \<Rightarrow> outside \<Rightarrow> bool" where
  "round_ok w0 t w \<longleftrightarrow> same_world w0 w \<and> t \<le> pg_now w Q_ClaimDue \<and> (\<forall>i. \<not> row_locked w i)"

lemma sorted_filter_drop:
  assumes "sorted (map f ys)"
  shows "length (filter (\<lambda>y. f y \<le> (t :: int)) (drop n ys)) = length (filter (\<lambda>y. f y \<le> t) ys) - n"
proof (cases "filter (\<lambda>y. f y \<le> t) (drop n ys) = []")
  case True
  have "length (filter (\<lambda>y. f y \<le> t) ys) = length (filter (\<lambda>y. f y \<le> t) (take n ys)) + length (filter (\<lambda>y. f y \<le> t) (drop n ys))"
    by (metis append_take_drop_id filter_append length_append)
  also have "\<dots> \<le> n" using True length_filter_le [of "\<lambda>y. f y \<le> t" "take n ys"] by simp
  finally show ?thesis using True by simp
next
  case False
  then obtain y where y: "y \<in> set (drop n ys)" "f y \<le> t" by (auto simp: filter_empty_conv)
  have "sorted (map f (take n ys) @ map f (drop n ys))" using assms by (simp flip: map_append)
  then have "\<forall>x\<in>set (take n ys). f x \<le> t" using y by (fastforce simp: sorted_append)
  then have "filter (\<lambda>y. f y \<le> t) (take n ys) = take n ys" by simp
  moreover have "n < length ys" using y(1) by (cases "n < length ys") simp_all
  ultimately have "length (filter (\<lambda>y. f y \<le> t) ys) = n + length (filter (\<lambda>y. f y \<le> t) (drop n ys))"
    by (metis append_take_drop_id filter_append length_append length_take min.absorb4)
  then show ?thesis by simp
qed

lemma length_filter_mset: "mset xs = mset ys \<Longrightarrow> length (filter P xs) = length (filter P ys)"
  by (metis mset_filter size_mset)

text \<open>Taking the first entries in the order of a key leaves that many fewer below any bound.\<close>

lemma claim_earliest:
  assumes d: "distinct (map k xs)" and S: "S = sort_key f xs" and K: "K = k ` set (take n S)"
  shows "length (filter (\<lambda>r. f r \<le> (t :: int) \<and> k r \<notin> K) xs) = length (filter (\<lambda>r. f r \<le> t) xs) - n"
proof -
  have m: "mset S = mset xs" by (simp add: S)
  have "mset (map k S) = mset (map k xs)" using m by simp
  then have "distinct (map k S)" using d by (metis mset_eq_imp_distinct_iff)
  then have "distinct (map k (take n S) @ map k (drop n S))" by (simp flip: map_append)
  then have out: "\<forall>r\<in>set (drop n S). k r \<notin> K" by (auto simp: K)
  have "length (filter (\<lambda>r. f r \<le> t \<and> k r \<notin> K) xs) = length (filter (\<lambda>r. f r \<le> t \<and> k r \<notin> K) (take n S @ drop n S))"
    unfolding append_take_drop_id using m by (metis length_filter_mset)
  also have "\<dots> = length (filter (\<lambda>r. f r \<le> t) (drop n S))"
  proof -
    have "filter (\<lambda>r. f r \<le> t \<and> k r \<notin> K) (take n S) = []" by (auto simp: filter_empty_conv K)
    moreover have "filter (\<lambda>r. f r \<le> t \<and> k r \<notin> K) (drop n S) = filter (\<lambda>r. f r \<le> t) (drop n S)"
      using out by (intro filter_cong) auto
    ultimately show ?thesis unfolding filter_append by simp
  qed
  also have "\<dots> = length (filter (\<lambda>r. f r \<le> t) S) - n" by (rule sorted_filter_drop) (simp add: S)
  also have "length (filter (\<lambda>r. f r \<le> t) S) = length (filter (\<lambda>r. f r \<le> t) xs)" using m by (rule length_filter_mset)
  finally show ?thesis .
qed

text \<open>A round takes the earliest deadlines first, so every round shortens the backlog by its limit.\<close>

lemma round_backlog:
  assumes wf: "db_wf db" and now: "t \<le> pg_now w Q_ClaimDue" and free: "\<forall>i. \<not> row_locked w i"
  shows "backlog t (erase_users (set (due_ids w n db)) db) = backlog t db - n"
proof -
  define due :: "PendingAccountDeletion \<Rightarrow> bool" where "due = (\<lambda>r. p_DeleteAt r \<le> pg_now w Q_ClaimDue \<and> p_StartedAt r = None \<and> \<not> row_locked w (p_UserID r))"
  define K where "K = p_UserID ` set (take n (sort_key p_DeleteAt (filter due (deletions db))))"
  have K: "set (due_ids w n db) = K" by (simp add: due_ids_def take_map K_def due_def)
  have "distinct (map p_UserID (filter due (deletions db)))"
    using wf by (simp add: db_wf_def unique_by_def distinct_map_filter)
  note c = claim_earliest [OF this refl, of K n p_DeleteAt t, OF K_def]
  have "filter P (filter (due_by t) (deletions db)) = filter (\<lambda>r. p_DeleteAt r \<le> t \<and> P r) (filter due (deletions db))" for P
    using now free unfolding filter_filter by (intro filter_cong) (auto simp: due_by_def due_def)
  from this [of "\<lambda>r. p_UserID r \<notin> K"] this [of "\<lambda>_. True"] show ?thesis
    using c by (simp add: backlog_def erase_users_def K conj_commute)
qed


section \<open>A round\<close>

lemma b_removeUsername [simp]: "b_db (removeUsernameFromCache w redis n b) = b_db b" "b_cache (removeUsernameFromCache w redis n b) = b_cache b"
  by (simp_all add: removeUsernameFromCache_def Let_def on_redis_def split: prod.split)

lemma b_process_item [simp]: "b_db (process_item w redis it b) = b_db b" "b_cache (process_item w redis it b) = b_cache b"
  by (auto simp: process_item_def on_db_def split: prod.split sum.split)

lemma b_process_items [simp]: "b_db (process_items w redis its b) = b_db b" "b_cache (process_items w redis its b) = b_cache b"
  by (induction its arbitrary: b) simp_all

lemma b_round [simp]: "b_db (processDueAccountDeletions w b) = b_db b" "b_cache (processDueAccountDeletions w b) = b_cache b"
  by (auto simp: processDueAccountDeletions_def on_db_def split: prod.split sum.split)

lemma db_wf_erase: "db_wf db \<Longrightarrow> db_wf (erase_users X db)"
  by (auto simp: db_wf_def erase_users_def unique_by_def distinct_map_filter)

lemma round_up:
  assumes "backend_up w b" "names_valid (b_tables b)" "\<forall>c. cache_of b = Some c \<longrightarrow> cache_client c \<noteq> None"
  shows "backend_up w (processDueAccountDeletions w b)" "names_valid (b_tables (processDueAccountDeletions w b))"
    "cache_of (processDueAccountDeletions w b) = cache_of b"
  using worker_round [OF assms] assms
  by (auto simp: backend_up_def db_wf_erase ids_canonical_def names_valid_def cache_of_def) (simp_all add: erase_users_def)

text \<open>The accounts a run of the worker may erase: their deletion was due in one of its rounds and not claimed before.\<close>

definition erasable :: "outside list \<Rightarrow> tables \<Rightarrow> string set" where
  "erasable ws db = p_UserID ` {r \<in> set (deletions db). \<exists>w\<in>set ws. due_by (pg_now w Q_ClaimDue) r}"

lemma due_erasable: "set (due_ids w n db) \<subseteq> erasable [w] db"
  by (auto simp: due_ids_def erasable_def due_by_def take_map dest!: in_set_takeD)

lemma erasable_erase: "erasable ws (erase_users X db) \<subseteq> erasable ws db" "erasable [w] db \<union> erasable ws db = erasable (w # ws) db"
  by (auto simp: erasable_def erase_users_def)

lemma rounds:
  assumes "backend_up w0 b" "names_valid (b_tables b)" "\<forall>c. cache_of b = Some c \<longrightarrow> cache_client c \<noteq> None" "\<forall>w\<in>set ws. round_ok w0 t w"
  shows "\<exists>X. b_tables (worker_loop (map Tick ws @ CtxDone # evs) b) = erase_users X (b_tables b) \<and> X \<subseteq> erasable ws (b_tables b)
    \<and> backlog t (erase_users X (b_tables b)) = backlog t (b_tables b) - 50 * length ws
    \<and> cached_names (b_redis (worker_loop (map Tick ws @ CtxDone # evs) b)) =
       (if cache_of b = None then cached_names (b_redis b) else cached_names (b_redis b) - names_of X (b_tables b))"
  using assms
proof (induction ws arbitrary: b)
  case Nil
  show ?case by (rule exI [of _ "{}"]) (simp add: names_of_def)
next
  case (Cons w ws)
  let ?b = "processDueAccountDeletions w b" and ?D = "due_users w b"
  have w: "same_world w0 w" "t \<le> pg_now w Q_ClaimDue" "\<forall>i. \<not> row_locked w i" using Cons.prems(4) by (simp_all add: round_ok_def)
  have up: "backend_up w b" by (rule up_same [OF Cons.prems(1) w(1)])
  note r = worker_round [OF up Cons.prems(2,3)] and k = round_up [OF up Cons.prems(2,3)]
  have up0: "backend_up w0 ?b" using k(1) Cons.prems(1) w(1) by (simp add: backend_up_def same_world_def ids_canonical_def)
  obtain X where X: "b_tables (worker_loop (map Tick ws @ CtxDone # evs) ?b) = erase_users X (b_tables ?b)" "X \<subseteq> erasable ws (b_tables ?b)"
    "backlog t (erase_users X (b_tables ?b)) = backlog t (b_tables ?b) - 50 * length ws"
    "cached_names (b_redis (worker_loop (map Tick ws @ CtxDone # evs) ?b)) =
       (if cache_of ?b = None then cached_names (b_redis ?b) else cached_names (b_redis ?b) - names_of X (b_tables ?b))"
    using Cons.IH [OF up0 k(2)] k(3) Cons.prems(3,4) by auto
  have wf: "db_wf (b_tables b)" using up by (simp add: backend_up_def)
  have t: "b_tables ?b = erase_users ?D (b_tables b)" using r by blast
  have names: "names_of ?D (b_tables b) \<union> names_of X (erase_users ?D (b_tables b)) = names_of (?D \<union> X) (b_tables b)"
    by (auto simp: names_of_def erase_users_def)
  show ?case
  proof (rule exI [of _ "?D \<union> X"], intro conjI)
    show "b_tables (worker_loop (map Tick (w # ws) @ CtxDone # evs) b) = erase_users (?D \<union> X) (b_tables b)"
      using X(1) by (simp add: t erase_erase)
    show "?D \<union> X \<subseteq> erasable (w # ws) (b_tables b)"
      using X(2) due_erasable [of w 50 "b_tables b"] erasable_erase(1) [of ws ?D "b_tables b"] erasable_erase(2) [of w "b_tables b" ws] unfolding t by blast
    show "backlog t (erase_users (?D \<union> X) (b_tables b)) = backlog t (b_tables b) - 50 * length (w # ws)"
      using X(3) round_backlog [OF wf w(2,3), of 50] by (simp add: t erase_erase)
    show "cached_names (b_redis (worker_loop (map Tick (w # ws) @ CtxDone # evs) b)) =
       (if cache_of b = None then cached_names (b_redis b) else cached_names (b_redis b) - names_of (?D \<union> X) (b_tables b))"
      using X(4) r k(3) names unfolding t by auto
  qed
qed


text \<open>
  C11. The worker catches up. When it is started and ticks until its context is done, with the
  stores up, no row locked by another worker and the clock of every round at \<open>t\<close> or later, and at
  most 50 deletions per round are due at \<open>t\<close> and unclaimed, then the run erases a set of
  accounts, their users, tokens, pending deletions and cached names, and nothing else: all
  accounts whose deletion is due at \<open>t\<close> and unclaimed are in the set, and only accounts whose
  unclaimed deletion is due in one of the rounds are. After the context is done no event has an
  effect.
\<close>

theorem worker_catches_up:
  assumes "backend_up w b" "names_valid (b_tables b)" "\<forall>c. cache_of b = Some c \<longrightarrow> cache_client c \<noteq> None"
    and "\<forall>v\<in>set (w # ws). round_ok w t v" and "backlog t (b_tables b) \<le> 50 * (length ws + 1)"
    and b': "b' = StartDeletionWorker w (map Tick ws @ CtxDone # evs) b"
  shows "\<exists>X. b_tables b' = erase_users X (b_tables b)
    \<and> cached_names (b_redis b') = (if cache_of b = None then cached_names (b_redis b) else cached_names (b_redis b) - names_of X (b_tables b))
    \<and> p_UserID ` {r \<in> set (deletions (b_tables b)). due_by t r} \<subseteq> X \<and> X \<subseteq> erasable (w # ws) (b_tables b)"
proof -
  have b'_eq: "b' = worker_loop (map Tick (w # ws) @ CtxDone # evs) b" by (simp add: b' StartDeletionWorker_def)
  obtain X where X: "b_tables b' = erase_users X (b_tables b)" "X \<subseteq> erasable (w # ws) (b_tables b)"
    "backlog t (erase_users X (b_tables b)) = backlog t (b_tables b) - 50 * length (w # ws)"
    "cached_names (b_redis b') = (if cache_of b = None then cached_names (b_redis b) else cached_names (b_redis b) - names_of X (b_tables b))"
    using rounds [OF assms(1-4)] unfolding b'_eq by blast
  have "backlog t (erase_users X (b_tables b)) = 0" using X(3) assms(5) by simp
  then have "p_UserID ` {r \<in> set (deletions (b_tables b)). due_by t r} \<subseteq> X"
    by (auto simp: backlog_def erase_users_def filter_empty_conv)
  then show ?thesis using X by blast
qed

theorem worker_catches_up_witness:
  "b_tables (StartDeletionWorker quiet_outside (map Tick [quiet_outside] @ CtxDone # []) (new_backend\<lparr>b_tables := alice_leaving\<rparr>)) = empty_db"
proof -
  let ?b = "new_backend\<lparr>b_tables := alice_leaving\<rparr>"
  have ok: "\<forall>v\<in>set (quiet_outside # [quiet_outside]). round_ok quiet_outside (pg_now quiet_outside Q_ClaimDue) v"
    using leaving_up(1) by (simp add: round_ok_def same_world_def backend_up_def) (simp add: quiet_outside_def)
  have len: "backlog (pg_now quiet_outside Q_ClaimDue) (b_tables ?b) \<le> 50 * (length [quiet_outside] + 1)"
    by (simp add: backlog_def alice_leaving_def)
  obtain X where X: "b_tables (StartDeletionWorker quiet_outside (map Tick [quiet_outside] @ CtxDone # []) ?b) = erase_users X (b_tables ?b)"
    "p_UserID ` {r \<in> set (deletions (b_tables ?b)). due_by (pg_now quiet_outside Q_ClaimDue) r} \<subseteq> X"
    using worker_catches_up [OF leaving_up ok len refl] by blast
  have "''u1'' \<in> X" using X(2) by (auto simp: alice_leaving_def due_by_def quiet_outside_def image_subset_iff)
  then show ?thesis using X(1) by (simp add: erase_users_def alice_leaving_def alice_db_def empty_db_def)
qed

end
