(* ===== verification/Router_Tree.thy ===== *)
theory Router_Tree
  imports Routes
begin

text \<open>
  The routers of \<open>src/server/router/router.go\<close> as the objects they are. A group is a new
  \<open>Router\<close> that points to the root of its tree; the map of routes exists in the root only,
  and registering through any router of the tree writes to it. \<open>Routes\<close> and everything above
  it use one table and routers without pointers; here that view is shown to be exact.
\<close>

section \<open>Router objects\<close>

text \<open>A nil map of routes is \<open>None\<close>: looking up in it finds nothing, writing to it panics.\<close>

record ('m, 'h) router_object =
  ro_root :: "nat option"
  ro_prefix :: string
  ro_middleware :: "'m list"
  ro_routes :: "('m, 'h) route_table option"

text \<open>The heap of routers: a pointer is an index, a new object is appended.\<close>

type_synonym ('m, 'h) router_heap = "('m, 'h) router_object list"

definition heap_New :: "('m, 'h) router_heap \<Rightarrow> nat \<times> ('m, 'h) router_heap" where
  "heap_New H = (length H, H @ [\<lparr>ro_root = Some (length H), ro_prefix = '''', ro_middleware = [],
     ro_routes = Some (\<lambda>_. None)\<rparr>])"

definition getRoot :: "('m, 'h) router_heap \<Rightarrow> nat \<Rightarrow> nat" where
  "getRoot H r = (case ro_root (H ! r) of None \<Rightarrow> r | Some root \<Rightarrow> root)"

definition heap_Group :: "nat \<Rightarrow> string \<Rightarrow> 'm list \<Rightarrow> ('m, 'h) router_heap \<Rightarrow> string + nat \<times> ('m, 'h) router_heap" where
  "heap_Group r pre middleware H =
     (if \<not> isDotRoute pre then Inl ''invalid route syntax''
      else Inr (length H, H @ [\<lparr>ro_root = Some (getRoot H r), ro_prefix = joinRoute (ro_prefix (H ! r)) pre,
                               ro_middleware = ro_middleware (H ! r) @ middleware, ro_routes = None\<rparr>]))"

definition heap_Use :: "nat \<Rightarrow> 'm list \<Rightarrow> ('m, 'h) router_heap \<Rightarrow> ('m, 'h) router_heap" where
  "heap_Use r middleware H = H[r := (H ! r)\<lparr>ro_middleware := ro_middleware (H ! r) @ middleware\<rparr>]"

definition heap_register ::
    "nat \<Rightarrow> StreamType \<Rightarrow> string \<Rightarrow> 'm list \<Rightarrow> 'h \<Rightarrow> ('m, 'h) router_heap \<Rightarrow> string + ('m, 'h) router_heap" where
  "heap_register r sType p routeMiddleware h H =
     (if \<not> isDotRoute p then Inl ''invalid route syntax''
      else
      let fullPath = joinRoute (ro_prefix (H ! r)) p; root = getRoot H r in
      case Option.bind (ro_routes (H ! root)) (\<lambda>tbl. tbl fullPath) of
        Some existing \<Rightarrow> Inl (''duplicate route registration: '' @ fullPath @ '' (existing stream type: ''
                              @ stream_type_name (streamType existing) @ '')'')
      | None \<Rightarrow>
          (case ro_routes (H ! root) of
             None \<Rightarrow> Inl ''assignment to entry in nil map''
           | Some tbl \<Rightarrow> Inr (H[root := (H ! root)\<lparr>ro_routes := Some (tbl(fullPath :=
               Some \<lparr>streamType = sType, path = fullPath,
                     route_middleware = ro_middleware (H ! r) @ routeMiddleware, handler = h\<rparr>))\<rparr>])))"

text \<open>What \<open>Handle\<close> looks up and \<open>RouteCount\<close> counts: the map of the root.\<close>

definition root_routes :: "('m, 'h) router_heap \<Rightarrow> nat \<Rightarrow> ('m, 'h) route_table" where
  "root_routes H r = (case ro_routes (H ! getRoot H r) of None \<Rightarrow> \<lambda>_. None | Some tbl \<Rightarrow> tbl)"

section \<open>Programs that build a tree\<close>

text \<open>A router is named by the order of creation, the root by 0.\<close>

datatype ('m, 'h) router_op =
    OpGroup nat string "'m list"
  | OpUse nat "'m list"
  | OpRegister nat StreamType string "'m list" 'h

fun in_scope :: "nat \<Rightarrow> ('m, 'h) router_op list \<Rightarrow> bool" where
  "in_scope n [] \<longleftrightarrow> True"
| "in_scope n (OpGroup r pre mw # ops) \<longleftrightarrow> r < n \<and> in_scope (Suc n) ops"
| "in_scope n (OpUse r mw # ops) \<longleftrightarrow> r < n \<and> in_scope n ops"
| "in_scope n (OpRegister r st p mw h # ops) \<longleftrightarrow> r < n \<and> in_scope n ops"

fun build_heap :: "('m, 'h) router_op list \<Rightarrow> ('m, 'h) router_heap \<Rightarrow> string + ('m, 'h) router_heap" where
  "build_heap [] H = Inr H"
| "build_heap (OpGroup r pre mw # ops) H =
     (case heap_Group r pre mw H of Inl panic \<Rightarrow> Inl panic | Inr (_, H') \<Rightarrow> build_heap ops H')"
| "build_heap (OpUse r mw # ops) H = build_heap ops (heap_Use r mw H)"
| "build_heap (OpRegister r st p mw h # ops) H =
     (case heap_register r st p mw h H of Inl panic \<Rightarrow> Inl panic | Inr H' \<Rightarrow> build_heap ops H')"

text \<open>The same program on routers without pointers and one table.\<close>

type_synonym ('m, 'h) router_view = "'m Router list \<times> ('m, 'h) route_table"

fun build_table :: "('m, 'h) router_op list \<Rightarrow> ('m, 'h) router_view \<Rightarrow> string + ('m, 'h) router_view" where
  "build_table [] v = Inr v"
| "build_table (OpGroup r pre mw # ops) (rs, tbl) =
     (case Group pre mw (rs ! r) of Inl panic \<Rightarrow> Inl panic | Inr g \<Rightarrow> build_table ops (rs @ [g], tbl))"
| "build_table (OpUse r mw # ops) (rs, tbl) = build_table ops (rs[r := Use mw (rs ! r)], tbl)"
| "build_table (OpRegister r st p mw h # ops) (rs, tbl) =
     (case register (rs ! r) st p mw h tbl of Inl panic \<Rightarrow> Inl panic | Inr tbl' \<Rightarrow> build_table ops (rs, tbl'))"

definition new_view :: "('m, 'h) router_view" where
  "new_view = (case router_New of (r, tbl) \<Rightarrow> ([r], tbl))"

section \<open>The view of a heap\<close>

definition router_view_of :: "('m, 'h) router_heap \<Rightarrow> ('m, 'h) router_view" where
  "router_view_of H = (map (\<lambda>o'. \<lparr>prefix_of = ro_prefix o', router_middleware = ro_middleware o'\<rparr>) H, root_routes H 0)"

text \<open>A tree: every router points to the first, and exactly that one has a map.\<close>

definition tree_ok :: "('m, 'h) router_heap \<Rightarrow> bool" where
  "tree_ok H \<longleftrightarrow> H \<noteq> [] \<and> ro_routes (H ! 0) \<noteq> None \<and> (\<forall>r<length H. ro_root (H ! r) = Some 0)"

lemma tree_New: "tree_ok (snd (heap_New []))" "router_view_of (snd (heap_New [])) = new_view"
  by (simp_all add: tree_ok_def heap_New_def router_view_of_def root_routes_def getRoot_def router_New_def new_view_def)

lemma tree_root: "tree_ok H \<Longrightarrow> r < length H \<Longrightarrow> getRoot H r = 0 \<and> root_routes H r = root_routes H 0"
  by (cases "H = []") (auto simp: tree_ok_def root_routes_def getRoot_def)

lemma Group_refines:
  assumes "tree_ok H" "r < length H"
  shows "(case heap_Group r pre mw H of
       Inl panic \<Rightarrow> Group pre mw (fst (router_view_of H) ! r) = Inl panic
     | Inr (a, H') \<Rightarrow> a = length H \<and> tree_ok H' \<and> length H' = Suc (length H)
         \<and> (\<exists>g. Group pre mw (fst (router_view_of H) ! r) = Inr g
              \<and> router_view_of H' = (fst (router_view_of H) @ [g], snd (router_view_of H))))"
  using assms tree_root [OF assms]
  by (auto simp: heap_Group_def Group_def router_view_of_def tree_ok_def root_routes_def getRoot_def nth_append less_Suc_eq)

lemma Use_refines:
  assumes "tree_ok H" "r < length H"
  shows "tree_ok (heap_Use r mw H) \<and> length (heap_Use r mw H) = length H
    \<and> router_view_of (heap_Use r mw H) = ((fst (router_view_of H))[r := Use mw (fst (router_view_of H) ! r)], snd (router_view_of H))"
proof -
  have "ro_routes (heap_Use r mw H ! k) = ro_routes (H ! k)" "ro_root (heap_Use r mw H ! k) = ro_root (H ! k)" if "k < length H" for k
    using that by (cases "k = r"; simp add: heap_Use_def)+
  moreover have "length (heap_Use r mw H) = length H" by (simp add: heap_Use_def)
  moreover have "0 < length H" using assms(1) by (auto simp: tree_ok_def)
  ultimately show ?thesis using assms
    by (auto simp: router_view_of_def tree_ok_def root_routes_def getRoot_def)
       (simp add: heap_Use_def Use_def map_update)
qed

lemma register_refines:
  assumes "tree_ok H" "r < length H"
  shows "(case heap_register r st p mw h H of
       Inl panic \<Rightarrow> register (fst (router_view_of H) ! r) st p mw h (snd (router_view_of H)) = Inl panic
     | Inr H' \<Rightarrow> tree_ok H' \<and> length H' = length H
         \<and> (\<exists>tbl. register (fst (router_view_of H) ! r) st p mw h (snd (router_view_of H)) = Inr tbl
              \<and> router_view_of H' = (fst (router_view_of H), tbl)))"
proof -
  obtain o0 H0 where H: "H = o0 # H0" using assms(1) by (cases H) (auto simp: tree_ok_def)
  obtain tbl where tbl: "ro_routes o0 = Some tbl" "ro_root o0 = Some 0" using assms(1) by (auto simp: tree_ok_def H)
  have root: "getRoot H r = 0" "getRoot (o0' # H0) 0 = 0" if "ro_root o0' = Some 0" for o0'
    using tree_root [OF assms] that by (auto simp: getRoot_def)
  have ok: "tree_ok (o0\<lparr>ro_routes := Some t\<rparr> # H0)" for t
    using assms(1) by (auto simp: tree_ok_def H nth_Cons split: nat.splits)
  have view: "router_view_of (o0\<lparr>ro_routes := Some t\<rparr> # H0) = (fst (router_view_of H), t)" for t
    by (simp add: router_view_of_def H root_routes_def root(2) tbl(2))
  have snd: "snd (router_view_of H) = tbl" using view [of tbl] tbl(1) by (simp add: H router_view_of_def root_routes_def root(2) tbl(2))
  have fst: "fst (router_view_of H) ! r = \<lparr>prefix_of = ro_prefix (H ! r), router_middleware = ro_middleware (H ! r)\<rparr>"
    using assms(2) by (simp add: router_view_of_def)
  show ?thesis using ok view root(1) [OF tbl(2)]
    by (auto simp: heap_register_def register_def fst [unfolded H] snd [unfolded H] Let_def H tbl(1) split: option.split)
qed

lemma build_refines:
  assumes "tree_ok H" "in_scope (length H) ops"
  shows "(case build_heap ops H of
       Inl panic \<Rightarrow> build_table ops (router_view_of H) = Inl panic
     | Inr H' \<Rightarrow> tree_ok H' \<and> build_table ops (router_view_of H) = Inr (router_view_of H'))"
  using assms
proof (induction ops H rule: build_heap.induct)
  case (2 r pre mw ops H)
  then show ?case using Group_refines [of H r pre mw]
    by (cases "router_view_of H") (auto split: sum.splits)
next
  case (3 r mw ops H)
  then show ?case using Use_refines [of H r mw] by (cases "router_view_of H") (auto split: sum.splits)
next
  case (4 r st p mw h ops H)
  then show ?case using register_refines [of H r st p mw h]
    by (cases "router_view_of H") (auto split: sum.splits)
qed simp

text \<open>
  C38. Routers with pointers implement the shared table. Whatever a program builds from
  \<open>router.New()\<close> with \<open>Group\<close>, \<open>Use\<close> and registrations, in any order and through any
  router of the tree: it panics exactly when the same program over one table does, with the
  same message (a write to a nil map never happens); otherwise every router has the same
  prefix and middleware, \<open>getRoot\<close> of every router is the first, and every router sees the
  same routes, those of the table.
\<close>

theorem router_tree_refines:
  assumes "in_scope 1 ops"
  shows "(case build_heap ops (snd (heap_New [])) of
       Inl panic \<Rightarrow> build_table ops new_view = Inl panic
     | Inr H \<Rightarrow> \<exists>rs tbl. build_table ops new_view = Inr (rs, tbl) \<and> length rs = length H
         \<and> (\<forall>r<length H. getRoot H r = 0 \<and> root_routes H r = tbl
              \<and> prefix_of (rs ! r) = ro_prefix (H ! r) \<and> router_middleware (rs ! r) = ro_middleware (H ! r)))"
proof -
  have scope: "in_scope (length (snd (heap_New []))) ops" using assms by (simp add: heap_New_def)
  show ?thesis
  proof (cases "build_heap ops (snd (heap_New []))")
    case (Inr H)
    then have H: "tree_ok H" "build_table ops new_view = Inr (router_view_of H)"
      using build_refines [OF tree_New(1) scope] unfolding tree_New(2) by simp_all
    have "getRoot H r = 0 \<and> root_routes H r = root_routes H 0" if "r < length H" for r by (rule tree_root [OF H(1) that])
    then show ?thesis using Inr H(2) by (auto simp: router_view_of_def)
  next
    case (Inl panic)
    then show ?thesis using build_refines [OF tree_New(1) scope] unfolding tree_New(2) by simp
  qed
qed

text \<open>A group of a group with middleware added in between, and a route through each.\<close>

theorem router_tree_refines_witness:
  "\<exists>H tbl. build_heap [OpGroup 0 ''auth'' [], OpUse 1 [1], OpGroup 1 ''login'' [2], OpUse 1 [3],
        OpRegister 2 StreamResponse ''token'' [] ''h'', OpRegister 0 StreamResponse ''ping'' [] ''p''] (snd (heap_New [])) = Inr (H :: (nat, string) router_heap)
     \<and> root_routes H 2 = tbl \<and> root_routes H 0 = tbl
     \<and> map_option route_middleware (tbl ''auth.login.token'') = Some [1, 2] \<and> tbl ''ping'' \<noteq> None"
proof -
  let ?ops = "[OpGroup 0 ''auth'' [], OpUse 1 [1], OpGroup 1 ''login'' [2], OpUse 1 [3],
        OpRegister 2 StreamResponse ''token'' [] ''h'', OpRegister 0 StreamResponse ''ping'' [] ''p''] :: (nat, string) router_op list"
  have names: "isDotRoute ''auth''" "isDotRoute ''login''" "isDotRoute ''token''" "isDotRoute ''ping''"
    "joinRoute '''' ''auth'' = ''auth''" "joinRoute ''auth'' ''login'' = ''auth.login''"
    "joinRoute ''auth.login'' ''token'' = ''auth.login.token''" "joinRoute '''' ''ping'' = ''ping''" by code_simp+
  have t: "\<exists>rs tbl. build_table ?ops new_view = Inr (rs, tbl) \<and> length rs = 3
      \<and> map_option route_middleware (tbl ''auth.login.token'') = Some [1, 2] \<and> tbl ''ping'' \<noteq> None"
    by (simp add: Group_def Use_def register_def router_New_def new_view_def names Let_def)
  have "in_scope 1 ?ops" by simp
  from router_tree_refines [OF this] t show ?thesis
    by (cases "build_heap ?ops (snd (heap_New []))") (auto simp del: build_heap.simps build_table.simps)
qed

end
