(* ===== verification/Answers.thy ===== *)
theory Answers
  imports Requests
begin

text \<open>
  Every request is answered exactly once: whatever a client sends as one frame on an open
  stream, and whatever happens in the stores, \<open>Router.Handle\<close> writes one response frame
  with a status code of \<open>src/server/core/errors.go\<close> and nothing else.
\<close>

section \<open>Responses the server can send\<close>

text \<open>The bodies of responses: none, a session token of 64 characters, a timestamp.\<close>

inductive response_body :: "codec \<Rightarrow> byte list result option \<Rightarrow> bool" for cd where
  no_body: "response_body cd None"
| token_body: "length (ar_SessionToken r) = 64 \<Longrightarrow> response_body cd (Some (mar_Auth cd r))"
| time_body: "response_body cd (Some (mar_Delete cd t))"

text \<open>A message that fits a protobuf string field.\<close>

definition short_text :: "string \<Rightarrow> bool" where
  "short_text s \<longleftrightarrow> length s < 100 \<and> list_all (\<lambda>c. byte_val c < 128) s"

text \<open>The messages of the responses of the server.\<close>

lemma server_texts [simp]:
  "short_text ''''" "short_text ''pong''" "short_text ''internal error''" "short_text ''invalid request envelope''"
  "short_text ''route op is required''" "short_text ''invalid route''" "short_text ''route not found''"
  "short_text ''invalid username''" "short_text ''password is required''" "short_text ''device_id is required''"
  "short_text ''session token must be provided''" "short_text ''account pending deletion''"
  "short_text ''account deletion already started''"
  by code_simp+

text \<open>
  What is asked of the protobuf library: it marshals a response envelope with a short ASCII message
  and one of these bodies into less than four gigabytes, and its errors are its own.
\<close>

definition can_answer :: "codec \<Rightarrow> bool" where
  "can_answer cd \<longleftrightarrow>
     (\<forall>code msg body. response_body cd (map_option Inr body) \<longrightarrow> short_text msg \<longrightarrow> (\<exists>bytes. encodes cd code msg body bytes))
   \<and> (\<forall>err. response_body cd (Some (Inl err)) \<longrightarrow> \<not> errors_is err ErrSessionRevoked)"

lemma can_answerD:
  assumes "can_answer cd" "short_text msg"
  shows "response_body cd (map_option Inr body) \<Longrightarrow> \<exists>bytes. encodes cd code msg body bytes"
    and "response_body cd (Some (Inl err)) \<Longrightarrow> \<not> errors_is err ErrSessionRevoked"
    and "\<exists>bytes. encodes cd code msg None bytes"
proof -
  show body: "response_body cd (map_option Inr body) \<Longrightarrow> \<exists>bytes. encodes cd code msg body bytes" for body
    using assms unfolding can_answer_def by blast
  show "response_body cd (Some (Inl err)) \<Longrightarrow> \<not> errors_is err ErrSessionRevoked"
    using assms unfolding can_answer_def by blast
  show "\<exists>bytes. encodes cd code msg None bytes" using body [of None] no_body [of cd] by simp
qed

definition one_answer :: "codec \<Rightarrow> qstream \<Rightarrow> server \<Rightarrow> bool" where
  "one_answer cd q sv \<longleftrightarrow> (\<exists>q' code msg body bytes. stream_of sv = Some q' \<and> encodes cd code msg body bytes
     \<and> tx q' = tx q @ data_frame bytes \<and> rx q' = rx q)"

lemma one_answerI:
  "stream_of sv = Some q' \<Longrightarrow> encodes cd code msg body bytes \<Longrightarrow> tx q' = tx q @ data_frame bytes \<Longrightarrow> rx q' = rx q
    \<Longrightarrow> one_answer cd q sv"
  unfolding one_answer_def by blast

lemma stream_of_update [simp]:
  "stream_of (sv\<lparr>sv_backend := b\<rparr>) = stream_of sv" "stream_of (sv\<lparr>sv_registry := g\<rparr>) = stream_of sv"
  by (simp_all add: stream_of_def)

lemma one_answer_registry [simp]: "one_answer cd q (sv\<lparr>sv_registry := g\<rparr>) = one_answer cd q sv"
  by (simp add: one_answer_def)

lemma answer_reject:
  assumes "can_answer cd" "short_text msg" "stream_of sv = Some q" "open_stream q"
  shows "one_answer cd q (reject_stream cd code msg sv)"
proof -
  obtain bytes where b: "encodes cd code msg None bytes" using can_answerD(3) [OF assms(1,2)] by blast
  then show ?thesis using reject_open [OF assms(3,4) b] assms(3) by (auto intro: one_answerI)
qed

lemma answer_Send:
  assumes "can_answer cd" "short_text msg" "stream_of sv = Some q" "open_stream q" "response_body cd response"
  shows "one_answer cd q (conclude cd (SendResponse cd code msg response sv))"
    and "SendResponse cd code msg response sv = (None, sv1) \<Longrightarrow> one_answer cd q sv1"
proof -
  have "(\<exists>err. response = Some (Inl err) \<and> \<not> errors_is err ErrSessionRevoked) \<or> (\<exists>body. response = map_option Inr body)"
  proof (cases response)
    case (Some r)
    then show ?thesis using assms(5) can_answerD(2) [OF assms(1,2)] by (cases r) (auto intro: exI [of _ "Some _"])
  qed (auto intro: exI [of _ None])
  then consider err where "response = Some (Inl err)" "\<not> errors_is err ErrSessionRevoked" | body where "response = map_option Inr body"
    by blast
  then have "one_answer cd q (conclude cd (SendResponse cd code msg response sv)) \<and>
    (SendResponse cd code msg response sv = (None, sv1) \<longrightarrow> one_answer cd q sv1)"
  proof cases
    case 1
    then show ?thesis using answer_reject [OF assms(1) _ assms(3,4)] by (simp add: SendResponse_def conclude_def)
  next
    case 2
    obtain bytes where b: "encodes cd code msg body bytes" using can_answerD(1) [OF assms(1,2)] assms(5) 2 by blast
    have "SendResponse cd code msg response sv = (None, put_stream (q\<lparr>tx := tx q @ data_frame bytes\<rparr>) sv)"
      by (rule SendResponse_open [OF assms(3,4) b 2])
    then show ?thesis using b assms(3) by (auto simp: conclude_def intro: one_answerI)
  qed
  then show "one_answer cd q (conclude cd (SendResponse cd code msg response sv))"
    "SendResponse cd code msg response sv = (None, sv1) \<Longrightarrow> one_answer cd q sv1" by blast+
qed

lemma answer_codes:
  assumes "can_answer cd" "stream_of sv = Some q" "open_stream q"
  shows "one_answer cd q (conclude cd (SendCode cd code sv))"
    and "short_text msg \<Longrightarrow> one_answer cd q (conclude cd (SendStatus cd code msg sv))"
  using answer_Send(1) [OF assms(1) _ assms(2,3) no_body] by (simp_all add: SendCode_def SendStatus_def)

section \<open>Every handler answers once\<close>

lemma token_length: "generateSessionTokenPair w = Inr (t, h) \<Longrightarrow> length t = 64"
  by (auto simp: generateSessionTokenPair_def Let_def split: option.splits)

lemma result_token_length:
  "Register w creds b = (Inr res, b') \<Longrightarrow> length (a_SessionToken res) = 64"
  "LoginByCredentials w creds b = (Inr res, b') \<Longrightarrow> length (a_SessionToken res) = 64"
  "LoginByToken w tok b = (Inr res, b') \<Longrightarrow> length (a_SessionToken res) = 64"
  by (erule Register_InrD LoginByCredentials_InrD LoginByToken_InrD, erule token_length)+

lemma answer_finish_auth:
  assumes "can_answer cd" "stream_of sv = Some q" "open_stream q" "length (a_SessionToken res) = 64"
  shows "one_answer cd q (conclude cd (finish_auth w cd c res sv))"
  unfolding finish_auth_def Let_def rc_Send_def
  by (rule answer_Send(1)) (use assms in \<open>auto intro: token_body\<close>)

lemma answer_handlers:
  assumes a: "can_answer cd" "stream_of sv = Some q" "open_stream q"
  shows "one_answer cd q (conclude cd (PingHandler cd c sv))"
    "one_answer cd q (conclude cd (HandleUserRegister w cd c sv))"
    "one_answer cd q (conclude cd (HandleUserLoginByCredentials w cd c sv))"
    "one_answer cd q (conclude cd (HandleUserLoginByToken w cd c sv))"
    "one_answer cd q (conclude cd (HandleAccountDeleteCancel w cd c sv))"
proof -
  note codes = answer_codes [OF a(1) _ a(3)] and fin = answer_finish_auth [OF a(1) _ a(3)]
  show "one_answer cd q (conclude cd (PingHandler cd c sv))" using a(2) by (simp add: PingHandler_def codes)
  show "one_answer cd q (conclude cd (HandleUserRegister w cd c sv))"
    using a(2) by (auto simp: HandleUserRegister_def Let_def codes fin dest!: result_token_length(1) split: sum.split prod.split)
  show "one_answer cd q (conclude cd (HandleUserLoginByCredentials w cd c sv))"
    using a(2) by (auto simp: HandleUserLoginByCredentials_def Let_def codes fin dest!: result_token_length(2) split: sum.split prod.split)
  show "one_answer cd q (conclude cd (HandleUserLoginByToken w cd c sv))"
    using a(2) by (auto simp: HandleUserLoginByToken_def Let_def codes fin dest!: result_token_length(3) split: sum.split prod.split)
  show "one_answer cd q (conclude cd (HandleAccountDeleteCancel w cd c sv))"
    using a(2) by (auto simp: HandleAccountDeleteCancel_def Let_def codes split: sum.split prod.split)
qed

lemma answer_Delete:
  assumes a: "can_answer cd" "stream_of sv = Some q" "open_stream q"
  shows "one_answer cd q (conclude cd (HandleAccountDelete w cd c sv))"
proof -
  note codes = answer_codes [OF a(1) _ a(3)]
  have "one_answer cd q (conclude cd (case rc_Send cd ErrCodeOK '''' (mar_Delete cd t) (sv\<lparr>sv_backend := b\<rparr>) of
      (Some err, sv1) \<Rightarrow> (Some err, sv1)
    | (None, sv1) \<Rightarrow> (None, if rc_Session c \<noteq> None
        then sv1\<lparr>sv_registry := InvalidateUserSessions (session_UserID (rc_Session c) (sv_registry sv1)) (sv_registry sv1)\<rparr>
        else sv1)))" for t b
  proof -
    have s: "stream_of (sv\<lparr>sv_backend := b\<rparr>) = Some q" using a(2) by simp
    obtain e sv1 where r: "rc_Send cd ErrCodeOK '''' (mar_Delete cd t) (sv\<lparr>sv_backend := b\<rparr>) = (e, sv1)" by (meson surj_pair)
    then show ?thesis
      using answer_Send [OF a(1) _ s a(3) time_body, of "''''" ErrCodeOK t] by (cases e) (auto simp: rc_Send_def conclude_def)
  qed
  then show ?thesis using a(2)
    by (auto simp: HandleAccountDelete_def Let_def codes split: sum.split prod.split)
qed

lemma answer_route:
  assumes a: "can_answer cd" "stream_of sv = Some q" "open_stream q" and r: "map_of (main_routes w cd) p = Some (mw, h)"
  shows "one_answer cd q (conclude cd ((if mw = [] then h else guarded w cd h) c sv))"
proof -
  have "h \<in> {PingHandler cd, HandleUserRegister w cd, HandleUserLoginByCredentials w cd, HandleUserLoginByToken w cd,
      HandleAccountDelete w cd, HandleAccountDeleteCancel w cd}"
    using r by (auto simp: main_routes_def split: if_splits)
  then have h: "one_answer cd q (conclude cd (h c sv))" using answer_handlers [OF a] answer_Delete [OF a] by auto
  show ?thesis
  proof (cases rule: guarded_cases [of w cd h c sv])
    case (refused code)
    then show ?thesis using h answer_Send(1) [OF a(1) _ a(2,3) no_body, of "''''" code] by simp
  qed (use h in simp)
qed

text \<open>
  C17. Every request is answered, exactly once. When one whole frame arrives on a stream that
  takes writes, then, whatever its payload, the session and the state of the server, and
  whatever exchanges with the stores fail, \<open>Handle\<close> with the routes of \<open>main\<close> returns
  having written exactly one frame: a data frame with a response envelope that carries one of
  the defined status codes. Assumed of protobuf is that it marshals such envelopes.
\<close>

theorem Handle_answers_once:
  assumes tbl: "setup_routes w cd = Inr tbl" and req: "request_arrives sv q payload rest" and cd: "can_answer cd"
  shows "\<exists>sv' q' code msg body bytes. Handle cd tbl sess sv = Some sv' \<and> stream_of sv' = Some q'
    \<and> mar_Response cd \<lparr>rs_StatusCode = status_value code, rs_Message = msg, rs_Response = body\<rparr> = Inr bytes
    \<and> tx q' = tx q @ encode_frame \<lparr>FrameType = FrameTypeData, Length = 0, Payload = bytes\<rparr> \<and> rx q' = rest"
proof (rule Handle_arrived [OF req])
  fix q1
  assume q1: "send_side q1 = send_side q" "rx q1 = rest" "stream_of (put_stream q1 sv) = Some q1" "open_stream q1"
    and H: "\<And>cd tbl sess. Handle cd tbl sess sv = (case unm_Request cd payload of
        Inl err \<Rightarrow> Some (reject_stream cd ErrCodeBadRequest ''invalid request envelope'' (put_stream q1 sv))
      | Inr envelope \<Rightarrow> dispatch cd tbl sess envelope (put_stream q1 sv))"
  have t: "tbl = main_table w cd" using tbl setup_routes_eq [of w cd] by simp
  note rej = answer_reject [OF cd _ q1(3,4)]
  have "\<exists>sv'. Handle cd tbl sess sv = Some sv' \<and> one_answer cd q1 sv'"
  proof (cases "unm_Request cd payload")
    case (Inr e)
    let ?op = "TrimSpace (re_Op e)"
    show ?thesis
    proof (cases "?op \<noteq> '''' \<and> isDotRoute ?op \<and> map_of (main_routes w cd) ?op \<noteq> None")
      case True
      then obtain mw h where r: "map_of (main_routes w cd) ?op = Some (mw, h)" by auto
      show ?thesis using dispatch_route [OF refl _ _ r] True answer_route [OF cd q1(3,4) r] by (simp add: H Inr t)
    next
      case False
      have n: "normalizeRoute ?op = ?op" if "?op \<noteq> ''''" "isDotRoute ?op"
        using that normalize_dotRoute [of ?op] by (simp add: isDotRoute_def)
      from False consider "?op = ''''" | "?op \<noteq> ''''" "\<not> isDotRoute ?op"
        | "?op \<noteq> ''''" "isDotRoute ?op" "map_of (main_routes w cd) ?op = None" by blast
      then show ?thesis by cases (simp_all add: H Inr t dispatch_def Let_def rej n main_table_def)
    qed
  qed (simp add: H rej)
  then show ?thesis using q1(2) send_sideD [OF q1(1)]
    unfolding one_answer_def encodes_def data_frame_def by (metis (no_types, lifting))
qed

lemma other_op_can_answer: "can_answer other_op"
proof -
  have "\<not> response_body other_op (Some (Inl err))" for err
  proof
    assume "response_body other_op (Some (Inl err))"
    then show False by cases (simp_all add: other_op_def demo_codec_def)
  qed
  then show ?thesis unfolding can_answer_def using other_encodes by blast
qed

theorem Handle_answers_once_witness:
  "\<exists>sv' q' code msg body bytes. Handle other_op (main_table quiet_outside other_op) None
       (demo_server new_backend empty_registry (demo_stream (data_frame register_bytes) [(1, None)])) = Some sv'
     \<and> stream_of sv' = Some q'
     \<and> mar_Response other_op \<lparr>rs_StatusCode = status_value code, rs_Message = msg, rs_Response = body\<rparr> = Inr bytes
     \<and> tx q' = encode_frame \<lparr>FrameType = FrameTypeData, Length = 0, Payload = bytes\<rparr>"
proof -
  have "length register_bytes < 2 ^ 32" by (simp add: register_bytes_def bytes_of_string_def)
  from Handle_answers_once [OF setup_routes_eq demo_request [OF this] other_op_can_answer,
      of quiet_outside None new_backend empty_registry]
  show ?thesis by (auto simp: demo_stream_def)
qed

end
