(* ===== verification/Client.thy ===== *)
theory Client
  imports Server Answers
begin

text \<open>
  The client of the repository, \<open>src/tests/common.go\<close>: its own framing, one request on one
  stream, and the reading of a session token. A request is composed with \<open>Router.Handle\<close> of
  the server through the bytes both sides put on the stream, in whatever pieces they arrive.
\<close>

section \<open>The client\<close>

text \<open>The part of the protobuf library only the client uses.\<close>

record client_codec =
  mar_Request :: "RequestEnvelope \<Rightarrow> byte list result"
  unm_Response :: "byte list \<Rightarrow> ResponseEnvelope result"
  unm_Auth :: "byte list \<Rightarrow> AuthResponse result"
  mar_Register :: "AuthRegisterRequest \<Rightarrow> byte list result"
  mar_LoginCredentials :: "AuthLoginByCredentialsRequest \<Rightarrow> byte list result"
  mar_LoginToken :: "AuthLoginByTokenRequest \<Rightarrow> byte list result"
  mar_DeleteRequest :: "AccountDeleteRequest \<Rightarrow> byte list result"
  mar_DeleteCancel :: "AccountDeleteCancelRequest \<Rightarrow> byte list result"

record client_frame =
  cf_typeID :: byte
  cf_payload :: "byte list"

definition frameTypeData :: byte where
  "frameTypeData = 5"

text \<open>
  \<open>uint32(len(payload))\<close> wraps around, and unlike the server the client does not refuse a
  payload that is too long. The loop is the one of the server.
\<close>

definition client_writeFrame :: "'s writer \<Rightarrow> byte \<Rightarrow> byte list \<Rightarrow> 's \<Rightarrow> goerror option \<times> 's" where
  "client_writeFrame wr t payload st =
     (case wr st (t # PutUint32 (word_of_nat (length payload))) of
        ((_, Some err), st') \<Rightarrow> (Some err, st')
      | ((_, None), st') \<Rightarrow> if payload = [] then (None, st') else write_loop wr payload st')"

definition client_readFrame :: "'s reader \<Rightarrow> 's \<Rightarrow> (client_frame result \<times> 's) option" where
  "client_readFrame rd st =
     (case read_full rd 5 [] st of
        None \<Rightarrow> None
      | Some (Inl err, st1) \<Rightarrow> Some (Inl err, st1)
      | Some (Inr header, st1) \<Rightarrow>
          let l = Uint32 (header ! 1) (header ! 2) (header ! 3) (header ! 4) in
          if 0 < l then
            (case read_full rd (unat l) [] st1 of
               None \<Rightarrow> None
             | Some (Inl err, st2) \<Rightarrow> Some (Inl err, st2)
             | Some (Inr payload, st2) \<Rightarrow> Some (Inr \<lparr>cf_typeID = header ! 0, cf_payload = payload\<rparr>, st2))
          else Some (Inr \<lparr>cf_typeID = header ! 0, cf_payload = []\<rparr>, st1))"

text \<open>
  The exchange that \<open>request\<close> and \<open>requestOnce\<close> share, on an opened stream. \<open>peer\<close> is
  what the other side does between the end of the write and the start of the read: it turns
  the stream the client has written to into one that holds its answer.
\<close>

definition client_exchange ::
    "client_codec \<Rightarrow> (qstream \<Rightarrow> server \<Rightarrow> (qstream \<times> server) option) \<Rightarrow> string \<Rightarrow> byte list option \<Rightarrow> qstream \<Rightarrow> server
     \<Rightarrow> (ResponseEnvelope result \<times> server) option" where
  "client_exchange cc peer op requestBytes stream sv =
     (case mar_Request cc \<lparr>re_Op = op, re_Request = requestBytes\<rparr> of
        Inl err \<Rightarrow> Some (Inl err, sv)
      | Inr envelopeBytes \<Rightarrow>
     (case client_writeFrame qwrite frameTypeData envelopeBytes stream of
        (Some err, _) \<Rightarrow> Some (Inl err, sv)
      | (None, stream1) \<Rightarrow>
     (case peer stream1 sv of
        None \<Rightarrow> None
      | Some (stream2, sv') \<Rightarrow>
     (case client_readFrame qread stream2 of
        None \<Rightarrow> None
      | Some (Inl err, _) \<Rightarrow> Some (Inl err, sv')
      | Some (Inr fr, _) \<Rightarrow> Some (unm_Response cc (cf_payload fr), sv')))))"

text \<open>\<open>body\<close> is \<open>None\<close> for a nil message and otherwise the outcome of marshalling it.\<close>

definition client_request ::
    "client_codec \<Rightarrow> (qstream \<Rightarrow> server \<Rightarrow> (qstream \<times> server) option) \<Rightarrow> qstream result \<Rightarrow> string \<Rightarrow> byte list result option \<Rightarrow> server
     \<Rightarrow> (ResponseEnvelope result \<times> server) option" where
  "client_request cc peer opened op body sv =
     (case opened of
        Inl err \<Rightarrow> Some (Inl err, sv)
      | Inr stream \<Rightarrow>
          (case body of
             Some (Inl err) \<Rightarrow> Some (Inl err, sv)
           | Some (Inr requestBytes) \<Rightarrow> client_exchange cc peer op (Some requestBytes) stream sv
           | None \<Rightarrow> client_exchange cc peer op None stream sv))"

definition requestOnce ::
    "client_codec \<Rightarrow> (qstream \<Rightarrow> server \<Rightarrow> (qstream \<times> server) option) \<Rightarrow> unit result \<Rightarrow> qstream result \<Rightarrow> string \<Rightarrow> byte list option \<Rightarrow> server
     \<Rightarrow> (ResponseEnvelope result \<times> server) option" where
  "requestOnce cc peer dialled opened op body sv =
     (case dialled of
        Inl err \<Rightarrow> Some (Inl err, sv)
      | Inr _ \<Rightarrow> (case opened of Inl err \<Rightarrow> Some (Inl err, sv) | Inr stream \<Rightarrow> client_exchange cc peer op body stream sv))"

text \<open>\<open>None\<close> is \<open>t.Fatalf\<close>.\<close>

definition parseAuthResponse :: "client_codec \<Rightarrow> ResponseEnvelope \<Rightarrow> string option" where
  "parseAuthResponse cc resp =
     (if rs_StatusCode resp \<noteq> status_value ErrCodeOK then Some ''''
      else case unm_Auth cc (case rs_Response resp of None \<Rightarrow> [] | Some bytes \<Rightarrow> bytes) of
        Inl err \<Rightarrow> None
      | Inr out \<Rightarrow> Some (ar_SessionToken out))"

section \<open>The server as the peer\<close>

text \<open>
  One request finds an outside and arrives in pieces, and its answer arrives in pieces (the
  sizes of the reads of either side, less one).
\<close>

record turn =
  tn_outside :: outside
  tn_pieces :: "nat list"
  tn_answer :: "nat list"

definition pieces :: "nat list \<Rightarrow> (nat \<times> goerror option) list" where
  "pieces ns = map (\<lambda>n. (Suc n, None)) ns"

definition fresh_stream :: qstream where
  "fresh_stream = \<lparr>rx = [], rx_end = io_EOF, rscript = [], tx = [], wscript = [], tx_closed = False\<rparr>"

definition served_by :: "codec \<Rightarrow> nat \<Rightarrow> turn \<Rightarrow> qstream \<Rightarrow> server \<Rightarrow> (qstream \<times> server) option" where
  "served_by cd a t stream sv =
     (case setup_routes (tn_outside t) cd of
        Inl panic \<Rightarrow> None
      | Inr tbl \<Rightarrow>
          (case Handle cd tbl (Some a) (sv\<lparr>sv_stream := Some \<lparr>qs_stream =
                  Some (fresh_stream\<lparr>rx := tx stream, rscript := pieces (tn_pieces t)\<rparr>), qs_connID = ''c'', qs_id = ''s''\<rparr>\<rparr>) of
             None \<Rightarrow> None
           | Some sv' \<Rightarrow> Some (stream\<lparr>rx := (case stream_of sv' of None \<Rightarrow> [] | Some q \<Rightarrow> tx q), rscript := pieces (tn_answer t)\<rparr>, sv')))"

text \<open>A request of a test client on a connection with the session \<open>a\<close>.\<close>

definition ask :: "client_codec \<Rightarrow> codec \<Rightarrow> nat \<Rightarrow> turn \<Rightarrow> string \<Rightarrow> byte list result \<Rightarrow> server \<Rightarrow> (ResponseEnvelope result \<times> server) option" where
  "ask cc cd a t op body sv = client_request cc (served_by cd a t) (Inr fresh_stream) op (Some body) sv"

text \<open>A connection is accepted and gets its session.\<close>

definition connectTestClient :: "string \<Rightarrow> nat \<Rightarrow> server \<Rightarrow> nat \<times> server" where
  "connectTestClient uid conn sv =
     (case begin_connection uid \<lparr>qc_conn = conn, qc_id = uid\<rparr> sv of (a, _, sv') \<Rightarrow> (a, sv'))"

section \<open>Client and server use the same frames\<close>

lemma client_readFrame_eq:
  "client_readFrame rd st = map_option (\<lambda>(r, st'). (map_sum id (\<lambda>f. \<lparr>cf_typeID = FrameType f, cf_payload = Payload f\<rparr>) r, st')) (read_frame rd st)"
  by (auto simp: client_readFrame_def read_frame_def frameHeaderSize_def parse_length_def Let_def split: option.split sum.split)

lemma pieces_ok: "reader_ok (q\<lparr>rscript := pieces ns\<rparr>)"
  by (auto simp: reader_ok_def pieces_def list_all_iff)

text \<open>The envelope of a request survives the way to the server.\<close>

definition travels :: "client_codec \<Rightarrow> codec \<Rightarrow> RequestEnvelope \<Rightarrow> bool" where
  "travels cc cd e \<longleftrightarrow> (\<exists>bytes. mar_Request cc e = Inr bytes \<and> unm_Request cd bytes = Inr e \<and> length bytes < 2 ^ 32)"

text \<open>The envelope of a response survives the way back.\<close>

definition returns :: "client_codec \<Rightarrow> codec \<Rightarrow> PPStatusCode \<Rightarrow> string \<Rightarrow> byte list option \<Rightarrow> bool" where
  "returns cc cd code msg body \<longleftrightarrow> (\<exists>bytes. encodes cd code msg body bytes
     \<and> unm_Response cc bytes = Inr \<lparr>rs_StatusCode = status_value code, rs_Message = msg, rs_Response = body\<rparr>)"

lemma fresh_open: "open_stream fresh_stream" "open_stream (q\<lparr>rx := bs\<rparr>) = open_stream q" "open_stream (q\<lparr>rscript := sc\<rparr>) = open_stream q"
  "tx fresh_stream = []"
  by (simp_all add: open_stream_def fresh_stream_def)

lemma client_sends:
  assumes "length bytes < 2 ^ 32"
  shows "client_writeFrame qwrite frameTypeData bytes fresh_stream = (None, fresh_stream\<lparr>tx := data_frame bytes\<rparr>)"
proof -
  let ?q = "fresh_stream\<lparr>tx := frame_header \<lparr>FrameType = FrameTypeData, Length = 0, Payload = bytes\<rparr>\<rparr>"
  have "write_loop qwrite bytes ?q = (None, ?q\<lparr>tx := tx ?q @ bytes\<rparr>)" by (rule write_loop_open) (simp add: fresh_open)
  then show ?thesis
    by (auto simp: client_writeFrame_def frameTypeData_def FrameTypeData_def frame_header_def data_frame_def encode_frame_def
        qwrite_def fresh_stream_def)
qed

lemma client_receives:
  assumes "rx q = data_frame bytes" "length bytes < 2 ^ 32" "reader_ok q"
  obtains fr q' where "client_readFrame qread q = Some (Inr fr, q')" "cf_payload fr = bytes"
proof -
  obtain f q' where "read_frame qread q = Some (Inr f, q')" "Payload f = bytes"
    using qchan.read_frame_ok [OF assms(3), of "\<lparr>FrameType = FrameTypeData, Length = 0, Payload = bytes\<rparr>" "[]"] assms(1,2)
    by (auto simp: data_frame_def)
  then show thesis using that by (simp add: client_readFrame_eq)
qed

section \<open>A request and its answer\<close>

text \<open>
  If the handler of the route, on a stream that takes writes, sends one response and leaves
  the given accounts and sessions, the client gets that response.
\<close>

definition handler_sends ::
    "codec \<Rightarrow> (ResponseContext \<Rightarrow> server \<Rightarrow> goerror option \<times> server) \<Rightarrow> ResponseContext \<Rightarrow> backend \<Rightarrow> registry
     \<Rightarrow> PPStatusCode \<Rightarrow> string \<Rightarrow> byte list option \<Rightarrow> backend \<Rightarrow> registry \<Rightarrow> bool" where
  "handler_sends cd h c b g code msg body b' g' \<longleftrightarrow>
     (\<forall>sv q bytes. stream_of sv = Some q \<longrightarrow> open_stream q \<longrightarrow> sv_backend sv = b \<longrightarrow> sv_registry sv = g \<longrightarrow> encodes cd code msg body bytes \<longrightarrow>
        h c sv = (None, put_stream (q\<lparr>tx := tx q @ data_frame bytes\<rparr>) (sv\<lparr>sv_backend := b', sv_registry := g'\<rparr>)))"

lemma stream_of_put: "stream_of sv = Some q \<Longrightarrow> stream_of (put_stream q' sv) = Some q'"
  by (cases "sv_stream sv") (auto simp: stream_of_def put_stream_def)

lemma exchange_reply:
  assumes e: "travels cc cd \<lparr>re_Op = op, re_Request = rb\<rparr>" and ret: "returns cc cd code msg out"
    and disp: "\<And>q1 sv1 ob. stream_of sv1 = Some q1 \<Longrightarrow> open_stream q1 \<Longrightarrow> tx q1 = [] \<Longrightarrow> sv_backend sv1 = sv_backend sv
      \<Longrightarrow> sv_registry sv1 = sv_registry sv \<Longrightarrow> encodes cd code msg out ob
      \<Longrightarrow> \<exists>sv2 q2. dispatch cd (main_table (tn_outside t) cd) (Some a) \<lparr>re_Op = op, re_Request = rb\<rparr> sv1 = Some sv2
        \<and> stream_of sv2 = Some q2 \<and> tx q2 = data_frame ob \<and> sv_backend sv2 = b' \<and> sv_registry sv2 = g'"
  shows "\<exists>sv'. client_exchange cc (served_by cd a t) op rb fresh_stream sv =
      Some (Inr \<lparr>rs_StatusCode = status_value code, rs_Message = msg, rs_Response = out\<rparr>, sv') \<and> sv_backend sv' = b' \<and> sv_registry sv' = g'"
proof -
  let ?e = "\<lparr>re_Op = op, re_Request = rb\<rparr>" and ?w = "tn_outside t"
  obtain eb where eb: "mar_Request cc ?e = Inr eb" "unm_Request cd eb = Inr ?e" "length eb < 2 ^ 32" using e by (auto simp: travels_def)
  obtain ob where ob: "encodes cd code msg out ob" "length ob < 2 ^ 32"
    "unm_Response cc ob = Inr \<lparr>rs_StatusCode = status_value code, rs_Message = msg, rs_Response = out\<rparr>"
    using ret by (auto simp: returns_def encodes_def)
  let ?q = "fresh_stream\<lparr>rx := data_frame eb, rscript := pieces (tn_pieces t)\<rparr>"
  let ?sv = "sv\<lparr>sv_stream := Some \<lparr>qs_stream = Some ?q, qs_connID = ''c'', qs_id = ''s''\<rparr>\<rparr>"
  have "request_arrives ?sv ?q eb []"
    using eb(3) pieces_ok [where q = "fresh_stream\<lparr>rx := data_frame eb\<rparr>" and ns = "tn_pieces t"]
    by (simp add: request_arrives_def stream_of_def fresh_open)
  then obtain q1 where q1: "send_side q1 = send_side ?q" "stream_of (put_stream q1 ?sv) = Some q1" "open_stream q1"
    and H: "\<And>cd tbl sess. Handle cd tbl sess ?sv = (case unm_Request cd eb of
        Inl err \<Rightarrow> Some (reject_stream cd ErrCodeBadRequest ''invalid request envelope'' (put_stream q1 ?sv))
      | Inr envelope \<Rightarrow> dispatch cd tbl sess envelope (put_stream q1 ?sv))"
    by (rule Handle_arrived) blast
  have tx: "tx q1 = []" using send_sideD [OF q1(1)] by (simp add: fresh_open)
  obtain sv2 q2 where sv2: "Handle cd (main_table ?w cd) (Some a) ?sv = Some sv2" "stream_of sv2 = Some q2" "tx q2 = data_frame ob"
    "sv_backend sv2 = b'" "sv_registry sv2 = g'"
    using disp [OF q1(2,3) tx _ _ ob(1)] by (auto simp: H eb(2))
  then have peer: "served_by cd a t (fresh_stream\<lparr>tx := data_frame eb\<rparr>) sv =
      Some (fresh_stream\<lparr>tx := data_frame eb, rx := data_frame ob, rscript := pieces (tn_answer t)\<rparr>, sv2)"
    by (simp add: served_by_def setup_routes_eq)
  obtain fr q' where "client_readFrame qread (fresh_stream\<lparr>tx := data_frame eb, rx := data_frame ob, rscript := pieces (tn_answer t)\<rparr>)
      = Some (Inr fr, q')" "cf_payload fr = ob"
    by (rule client_receives [OF _ ob(2) pieces_ok [where q = "fresh_stream\<lparr>tx := data_frame eb, rx := data_frame ob\<rparr>"]]) simp_all
  then show ?thesis using ob(3) peer eb client_sends [OF eb(3)] sv2(4,5) by (simp add: client_exchange_def)
qed

lemma route_reply:
  assumes e: "travels cc cd \<lparr>re_Op = op, re_Request = rb\<rparr>" and op: "TrimSpace op = op" "op \<noteq> ''''" "isDotRoute op"
    and route: "map_of (main_routes (tn_outside t) cd) op = Some (mw, h)"
    and sends: "handler_sends cd (if mw = [] then h else guarded (tn_outside t) cd h) \<lparr>rc_Request = (case rb of None \<Rightarrow> [] | Some bs \<Rightarrow> bs), rc_Session = Some a\<rparr>
      (sv_backend sv) (sv_registry sv) code msg out b' g'"
    and ret: "returns cc cd code msg out"
  shows "\<exists>sv'. client_exchange cc (served_by cd a t) op rb fresh_stream sv =
      Some (Inr \<lparr>rs_StatusCode = status_value code, rs_Message = msg, rs_Response = out\<rparr>, sv') \<and> sv_backend sv' = b' \<and> sv_registry sv' = g'"
proof (rule exchange_reply [OF e ret])
  fix q1 sv1 ob
  assume sv1: "stream_of sv1 = Some q1" "open_stream q1" "tx q1 = []" "sv_backend sv1 = sv_backend sv" "sv_registry sv1 = sv_registry sv"
    and ob: "encodes cd code msg out ob"
  let ?e = "\<lparr>re_Op = op, re_Request = rb\<rparr>"
  let ?sv2 = "put_stream (q1\<lparr>tx := data_frame ob\<rparr>) (sv1\<lparr>sv_backend := b', sv_registry := g'\<rparr>)"
  have "(if mw = [] then h else guarded (tn_outside t) cd h) (response_context (Some a) ?e) sv1 = (None, ?sv2)"
    using sends sv1 ob unfolding handler_sends_def response_context_def by simp
  then have "dispatch cd (main_table (tn_outside t) cd) (Some a) ?e sv1 = Some ?sv2"
    using dispatch_route [of ?e op "tn_outside t" cd mw h, OF _ op(2,3) route] op(1) by (simp add: conclude_def)
  moreover have "stream_of ?sv2 = Some (q1\<lparr>tx := data_frame ob\<rparr>)" using sv1(1) by (simp add: stream_of_put)
  ultimately show "\<exists>sv2 q2. dispatch cd (main_table (tn_outside t) cd) (Some a) ?e sv1 = Some sv2 \<and> stream_of sv2 = Some q2 \<and> tx q2 = data_frame ob
      \<and> sv_backend sv2 = b' \<and> sv_registry sv2 = g'" by simp
qed

text \<open>A request that the router itself refuses.\<close>

lemma refused_reply:
  assumes e: "travels cc cd \<lparr>re_Op = op, re_Request = rb\<rparr>" and ret: "returns cc cd ErrCodeBadRequest msg None"
    and op: "TrimSpace op = '''' \<and> msg = ''route op is required'' \<or> TrimSpace op \<noteq> '''' \<and> \<not> isDotRoute (TrimSpace op) \<and> msg = ''invalid route''"
  shows "\<exists>sv'. client_exchange cc (served_by cd a t) op rb fresh_stream sv =
      Some (Inr \<lparr>rs_StatusCode = status_value ErrCodeBadRequest, rs_Message = msg, rs_Response = None\<rparr>, sv') \<and> sv_backend sv' = sv_backend sv
      \<and> sv_registry sv' = sv_registry sv"
proof (rule exchange_reply [OF e ret])
  fix q1 sv1 ob
  assume sv1: "stream_of sv1 = Some q1" "open_stream q1" "tx q1 = []" "sv_backend sv1 = sv_backend sv" "sv_registry sv1 = sv_registry sv"
    and ob: "encodes cd ErrCodeBadRequest msg None ob"
  let ?sv2 = "put_stream (q1\<lparr>tx := data_frame ob, tx_closed := True\<rparr>) sv1"
  have "stream_of ?sv2 = Some (q1\<lparr>tx := data_frame ob, tx_closed := True\<rparr>)" using sv1(1) by (simp add: stream_of_put)
  moreover have "dispatch cd (main_table (tn_outside t) cd) (Some a) \<lparr>re_Op = op, re_Request = rb\<rparr> sv1 = Some ?sv2"
    using op reject_open [OF sv1(1,2) ob] sv1(3) by (auto simp: dispatch_def Let_def)
  ultimately show "\<exists>sv2 q2. dispatch cd (main_table (tn_outside t) cd) (Some a) \<lparr>re_Op = op, re_Request = rb\<rparr> sv1 = Some sv2 \<and> stream_of sv2 = Some q2
      \<and> tx q2 = data_frame ob \<and> sv_backend sv2 = sv_backend sv \<and> sv_registry sv2 = sv_registry sv" using sv1(4,5) by simp
qed

lemma ask_reply:
  assumes body: "body = Inr bytes" and e: "travels cc cd \<lparr>re_Op = op, re_Request = Some bytes\<rparr>" and op: "TrimSpace op = op" "op \<noteq> ''''" "isDotRoute op"
    and route: "map_of (main_routes (tn_outside t) cd) op = Some (mw, h)"
    and sends: "handler_sends cd (if mw = [] then h else guarded (tn_outside t) cd h) \<lparr>rc_Request = bytes, rc_Session = Some a\<rparr>
      (sv_backend sv) (sv_registry sv) code msg out b' g'"
    and ret: "returns cc cd code msg out"
  shows "\<exists>sv'. ask cc cd a t op body sv = Some (Inr \<lparr>rs_StatusCode = status_value code, rs_Message = msg, rs_Response = out\<rparr>, sv')
    \<and> sv_backend sv' = b' \<and> sv_registry sv' = g'"
  using route_reply [OF e op route _ ret] sends by (simp add: ask_def client_request_def body)

section \<open>Protobuf between client and server\<close>

text \<open>
  What both sides rely on: messages with short ASCII fields and tokens arrive as they were
  sent. This is what the library documents for messages far below its size limit.
\<close>

definition message_travels ::
    "client_codec \<Rightarrow> codec \<Rightarrow> string \<Rightarrow> ('m \<Rightarrow> byte list result) \<Rightarrow> (byte list \<Rightarrow> 'm result) \<Rightarrow> 'm \<Rightarrow> bool" where
  "message_travels cc cd op mar unm m \<longleftrightarrow>
     (\<exists>bytes. mar m = Inr bytes \<and> unm bytes = Inr m \<and> travels cc cd \<lparr>re_Op = op, re_Request = Some bytes\<rparr>)"

definition proto_ok :: "client_codec \<Rightarrow> codec \<Rightarrow> bool" where
  "proto_ok cc cd \<longleftrightarrow>
     (\<forall>code msg. short_text msg \<longrightarrow> returns cc cd code msg None)
   \<and> (\<forall>tok. short_text tok \<longrightarrow> message_travels cc cd ''auth.login.token'' (mar_LoginToken cc) (unm_LoginToken cd) \<lparr>tr_SessionToken = tok\<rparr>
        \<and> (\<exists>body. mar_Auth cd \<lparr>ar_SessionToken = tok\<rparr> = Inr body \<and> unm_Auth cc body = Inr \<lparr>ar_SessionToken = tok\<rparr> \<and> returns cc cd ErrCodeOK '''' (Some body)))
   \<and> (\<forall>ts. \<exists>body. mar_Delete cd \<lparr>dr_Timestamp = ts\<rparr> = Inr body \<and> returns cc cd ErrCodeOK '''' (Some body))
   \<and> (\<forall>d u p i n. list_all short_text [d, u, p, i, n] \<longrightarrow> message_travels cc cd ''auth.register'' (mar_Register cc) (unm_Register cd)
        \<lparr>rr_DisplayName = d, rr_Username = u, rr_Password = p, rr_DeviceId = i, rr_DeviceName = n\<rparr>)
   \<and> (\<forall>u p i n. list_all short_text [u, p, i, n] \<longrightarrow> message_travels cc cd ''auth.login.credentials'' (mar_LoginCredentials cc) (unm_LoginCredentials cd)
        \<lparr>lr_Username = u, lr_Password = p, lr_DeviceId = i, lr_DeviceName = n\<rparr>)
   \<and> (\<forall>u p. list_all short_text [u, p] \<longrightarrow>
        message_travels cc cd ''account.delete'' (mar_DeleteRequest cc) (unm_Delete cd) \<lparr>dr_Username = u, dr_Password = p\<rparr>
        \<and> message_travels cc cd ''account.delete.cancel'' (mar_DeleteCancel cc) (unm_DeleteCancel cd) \<lparr>cr_Username = u, cr_Password = p\<rparr>)"

end
