(* ===== verification/Wire.thy ===== *)
theory Wire
  imports Client
begin

text \<open>
  The proto3 wire format of the messages of \<open>src/server/protomsg\<close>, with the field numbers
  and kinds of their struct tags. The development leaves the protobuf library a parameter; here
  the parameter is instantiated with the documented format, which shows that what the theorems
  ask of the library can be had.
\<close>

section \<open>Varints\<close>

fun varint :: "nat \<Rightarrow> byte list" where
  "varint n = (if n < 128 then [word_of_nat n] else word_of_nat (n mod 128 + 128) # varint (n div 128))"

declare varint.simps [simp del]

text \<open>At most ten bytes, at most 64 bits.\<close>

fun read_base128 :: "nat \<Rightarrow> byte list \<Rightarrow> (nat \<times> byte list) option" where
  "read_base128 0 bs = None"
| "read_base128 (Suc k) [] = None"
| "read_base128 (Suc k) (b # bs) =
     (if unat b < 128 then Some (unat b, bs)
      else case read_base128 k bs of None \<Rightarrow> None | Some (m, rest) \<Rightarrow> Some (unat b - 128 + 128 * m, rest))"

definition read_varint :: "byte list \<Rightarrow> (nat \<times> byte list) option" where
  "read_varint bs = (case read_base128 10 bs of None \<Rightarrow> None | Some (n, rest) \<Rightarrow> if n < 2 ^ 64 then Some (n, rest) else None)"

lemma unat_lt_size: "unat (w :: 'a :: len word) < 2 ^ LENGTH('a)"
  by (rule unsigned_less)

lemma byte_nat: "n < 256 \<Longrightarrow> unat (word_of_nat n :: byte) = n"
  by (simp add: unat_of_nat)

lemma read_base128_varint: "n < 128 ^ k \<Longrightarrow> 0 < k \<Longrightarrow> read_base128 k (varint n @ rest) = Some (n, rest)"
proof (induction k arbitrary: n)
  case (Suc k)
  show ?case
  proof (cases "n < 128")
    case False
    then have k: "0 < k" using Suc.prems(1) by (cases k) simp_all
    have "n div 128 < 128 ^ k" using Suc.prems(1) by (simp add: less_mult_imp_div_less mult.commute)
    then have "read_base128 k (varint (n div 128) @ rest) = Some (n div 128, rest)" using Suc.IH k by blast
    then show ?thesis using False byte_nat [of "n mod 128 + 128"] by (simp add: varint.simps [of n])
  qed (simp add: varint.simps byte_nat)
qed simp

lemma read_varint_varint: "n < 2 ^ 64 \<Longrightarrow> read_varint (varint n @ rest) = Some (n, rest)"
  using read_base128_varint [of n 10 rest] by (simp add: read_varint_def)

lemma read_base128_shorter: "read_base128 k bs = Some (n, rest) \<Longrightarrow> length rest < length bs"
proof (induction k bs arbitrary: n rest rule: read_base128.induct)
  case (3 k b bs)
  then show ?case by (fastforce split: if_splits option.splits)
qed simp_all

lemma read_varint_shorter: "read_varint bs = Some (n, rest) \<Longrightarrow> length rest < length bs"
  by (auto simp: read_varint_def dest: read_base128_shorter split: option.splits if_splits)

lemma length_varint: "n < 128 ^ k \<Longrightarrow> 0 < k \<Longrightarrow> length (varint n) \<le> k"
proof (induction k arbitrary: n)
  case (Suc k)
  show ?case
  proof (cases "n < 128")
    case False
    then have k: "0 < k" using Suc.prems(1) by (cases k) simp_all
    have "n div 128 < 128 ^ k" using Suc.prems(1) by (simp add: less_mult_imp_div_less mult.commute)
    then show ?thesis using Suc.IH k False by (simp add: varint.simps [of n])
  qed (simp add: varint.simps)
qed simp

section \<open>Fields\<close>

datatype wire_value = VInt nat | VBytes "byte list" | VFixed

type_synonym wire_field = "nat \<times> wire_value"

fun put_field :: "wire_field \<Rightarrow> byte list" where
  "put_field (i, VInt n) = varint (8 * i) @ varint n"
| "put_field (i, VBytes bs) = varint (8 * i + 2) @ varint (length bs) @ bs"
| "put_field (i, VFixed) = []"

text \<open>
  The fields of a message; fixed-size fields, which no message has, are skipped, groups and
  the field number 0 are refused.
\<close>

function get_fields :: "byte list \<Rightarrow> wire_field list option" where
  "get_fields bs =
     (if bs = [] then Some []
      else case read_varint bs of
        None \<Rightarrow> None
      | Some (key, r1) \<Rightarrow>
          let i = key div 8; kind = key mod 8 in
          if i = 0 then None
          else if kind = 0 then
            (case read_varint r1 of None \<Rightarrow> None | Some (n, r2) \<Rightarrow> map_option (Cons (i, VInt n)) (get_fields r2))
          else if kind = 2 then
            (case read_varint r1 of
               None \<Rightarrow> None
             | Some (l, r2) \<Rightarrow> if length r2 < l then None else map_option (Cons (i, VBytes (take l r2))) (get_fields (drop l r2)))
          else if kind = 1 \<or> kind = 5 then
            (let l = (if kind = 1 then 8 else 4) in
             if length r1 < l then None else map_option (Cons (i, VFixed)) (get_fields (drop l r1)))
          else None)"
  by pat_completeness auto
termination
  by (relation "measure length") (auto dest!: read_varint_shorter)

declare get_fields.simps [simp del]

definition field_ok :: "wire_field \<Rightarrow> bool" where
  "field_ok f \<longleftrightarrow> 0 < fst f \<and> fst f < 100
     \<and> (case snd f of VInt n \<Rightarrow> n < 2 ^ 64 | VBytes bs \<Rightarrow> length bs < 2 ^ 64 | VFixed \<Rightarrow> False)"

lemma varint_not_Nil [simp]: "varint n \<noteq> []"
  by (simp add: varint.simps [of n])

lemma get_put_field:
  assumes "field_ok (i, v)"
  shows "get_fields (put_field (i, v) @ rest) = map_option (Cons (i, v)) (get_fields rest)"
proof (cases v)
  case (VInt n)
  have "read_varint (varint (8 * i) @ varint n @ rest) = Some (8 * i, varint n @ rest)" "read_varint (varint n @ rest) = Some (n, rest)"
    using assms VInt by (simp_all add: read_varint_varint field_ok_def)
  then show ?thesis using assms VInt by (subst get_fields.simps) (simp add: field_ok_def Let_def)
next
  case (VBytes bs)
  have "read_varint (varint (8 * i + 2) @ varint (length bs) @ bs @ rest) = Some (8 * i + 2, varint (length bs) @ bs @ rest)"
    "read_varint (varint (length bs) @ bs @ rest) = Some (length bs, bs @ rest)"
    using assms VBytes by (simp_all add: read_varint_varint field_ok_def)
  moreover have "(8 * i + 2) div 8 = i" "(8 * i + 2) mod 8 = 2" by presburger+
  ultimately show ?thesis using assms VBytes by (subst get_fields.simps) (simp add: field_ok_def Let_def)
qed (use assms in \<open>simp add: field_ok_def\<close>)

definition put_fields :: "wire_field list \<Rightarrow> byte list" where
  "put_fields fs = concat (map put_field fs)"

lemma get_put_fields: "list_all field_ok fs \<Longrightarrow> get_fields (put_fields fs) = Some fs"
proof (induction fs)
  case Nil
  show ?case by (subst get_fields.simps) (simp add: put_fields_def)
next
  case (Cons f fs)
  then show ?case using get_put_field [of "fst f" "snd f" "put_fields fs"] by (simp add: put_fields_def)
qed

text \<open>Strings must be UTF-8; an empty string, a zero or a false is not sent, an absent field reads as one.\<close>

function valid_utf8 :: "string \<Rightarrow> bool" where
  "valid_utf8 [] \<longleftrightarrow> True"
| "valid_utf8 (c # cs) \<longleftrightarrow> (case decode_rune c cs of (r, n) \<Rightarrow> \<not> (r = rune_error \<and> n = 1) \<and> valid_utf8 (drop (n - 1) cs))"
  by pat_completeness auto
termination
  by (relation "measure length") auto

lemma short_utf8: "list_all (\<lambda>c. byte_val c < 128) s \<Longrightarrow> valid_utf8 s"
  by (induction s) (auto simp: decode_rune_def rune_error_def)

definition string_field :: "nat \<Rightarrow> string \<Rightarrow> wire_field list" where
  "string_field i s = (if s = '''' then [] else [(i, VBytes (bytes_of_string s))])"

definition bytes_field :: "nat \<Rightarrow> byte list \<Rightarrow> wire_field list" where
  "bytes_field i bs = (if bs = [] then [] else [(i, VBytes bs)])"

definition int_field :: "nat \<Rightarrow> nat \<Rightarrow> wire_field list" where
  "int_field i n = (if n = 0 then [] else [(i, VInt n)])"

definition optional_field :: "nat \<Rightarrow> byte list option \<Rightarrow> wire_field list" where
  "optional_field i v = (case v of None \<Rightarrow> [] | Some bs \<Rightarrow> [(i, VBytes bs)])"

text \<open>The last occurrence of a field counts.\<close>

fun field_value :: "nat \<Rightarrow> (wire_value \<Rightarrow> 'a option) \<Rightarrow> wire_field list \<Rightarrow> 'a option" where
  "field_value i get [] = None"
| "field_value i get ((j, v) # fs) =
     (case field_value i get fs of Some x \<Rightarrow> Some x | None \<Rightarrow> if i = j then get v else None)"

definition as_bytes :: "wire_value \<Rightarrow> byte list option" where
  "as_bytes v = (case v of VBytes bs \<Rightarrow> Some bs | _ \<Rightarrow> None)"

definition as_int :: "wire_value \<Rightarrow> nat option" where
  "as_int v = (case v of VInt n \<Rightarrow> Some n | _ \<Rightarrow> None)"

definition get_bytes :: "nat \<Rightarrow> wire_field list \<Rightarrow> byte list" where
  "get_bytes i fs = (case field_value i as_bytes fs of None \<Rightarrow> [] | Some bs \<Rightarrow> bs)"

definition get_string :: "nat \<Rightarrow> wire_field list \<Rightarrow> string" where
  "get_string i fs = string_of_bytes (get_bytes i fs)"

definition get_int :: "nat \<Rightarrow> wire_field list \<Rightarrow> nat" where
  "get_int i fs = (case field_value i as_int fs of None \<Rightarrow> 0 | Some n \<Rightarrow> n)"

lemma field_value_append:
  "field_value i get (fs @ gs) = (case field_value i get gs of Some x \<Rightarrow> Some x | None \<Rightarrow> field_value i get fs)"
  by (induction i get fs rule: field_value.induct) (auto split: option.split)

lemma field_value_simps [simp]:
  "field_value i as_bytes (string_field j s) = (if i = j \<and> s \<noteq> '''' then Some (bytes_of_string s) else None)"
  "field_value i as_bytes (bytes_field j bs) = (if i = j \<and> bs \<noteq> [] then Some bs else None)"
  "field_value i as_bytes (int_field j n) = None" "field_value i as_bytes (optional_field j v) = (if i = j then v else None)"
  "field_value i as_int (string_field j s) = None" "field_value i as_int (bytes_field j bs) = None"
  "field_value i as_int (int_field j n) = (if i = j \<and> n \<noteq> 0 then Some n else None)" "field_value i as_int (optional_field j v) = None"
  by (auto simp: string_field_def bytes_field_def int_field_def optional_field_def as_bytes_def as_int_def split: option.split)

lemma field_ok_simps [simp]:
  "list_all field_ok (string_field i s) \<longleftrightarrow> s = '''' \<or> 0 < i \<and> i < 100 \<and> length s < 2 ^ 64"
  "list_all field_ok (bytes_field i bs) \<longleftrightarrow> bs = [] \<or> 0 < i \<and> i < 100 \<and> length bs < 2 ^ 64"
  "list_all field_ok (int_field i n) \<longleftrightarrow> n = 0 \<or> 0 < i \<and> i < 100 \<and> n < 2 ^ 64"
  "list_all field_ok (optional_field i v) \<longleftrightarrow> (\<forall>bs. v = Some bs \<longrightarrow> 0 < i \<and> i < 100 \<and> length bs < 2 ^ 64)"
  by (auto simp: string_field_def bytes_field_def int_field_def optional_field_def field_ok_def split: option.split)

section \<open>Messages\<close>

definition marshal :: "string list \<Rightarrow> wire_field list \<Rightarrow> byte list result" where
  "marshal strings fs = (if list_all valid_utf8 strings then Inr (put_fields fs) else Inl (ExtError ''string field contains invalid UTF-8''))"

definition unmarshal :: "nat list \<Rightarrow> (wire_field list \<Rightarrow> 'm) \<Rightarrow> byte list \<Rightarrow> 'm result" where
  "unmarshal strings build bs =
     (case get_fields bs of
        None \<Rightarrow> Inl (ExtError ''cannot parse invalid wire-format data'')
      | Some fs \<Rightarrow> if list_all (\<lambda>i. valid_utf8 (get_string i fs)) strings then Inr (build fs)
                   else Inl (ExtError ''string field contains invalid UTF-8''))"

lemma unmarshal_marshal:
  assumes "list_all field_ok fs" "list_all (\<lambda>i. valid_utf8 (get_string i fs)) strings"
  shows "unmarshal strings build (put_fields fs) = Inr (build fs)"
  using assms by (simp add: unmarshal_def get_put_fields)

definition request_fields :: "RequestEnvelope \<Rightarrow> wire_field list" where
  "request_fields e = string_field 1 (re_Op e) @ optional_field 2 (re_Request e)"

definition response_fields :: "ResponseEnvelope \<Rightarrow> wire_field list" where
  "response_fields e = int_field 1 (unat (rs_StatusCode e)) @ string_field 2 (rs_Message e) @ optional_field 3 (rs_Response e)"

definition update_fields :: "UpdateEnvelope \<Rightarrow> wire_field list" where
  "update_fields e = int_field 1 (unat (ue_Seq e)) @ int_field 2 (if ue_End e then 1 else 0) @ bytes_field 3 (ue_Update e)"

definition register_fields :: "AuthRegisterRequest \<Rightarrow> wire_field list" where
  "register_fields m = string_field 1 (rr_DisplayName m) @ string_field 2 (rr_Username m) @ string_field 3 (rr_Password m)
     @ string_field 4 (rr_DeviceId m) @ string_field 5 (rr_DeviceName m)"

definition login_fields :: "AuthLoginByCredentialsRequest \<Rightarrow> wire_field list" where
  "login_fields m = string_field 1 (lr_Username m) @ string_field 2 (lr_Password m) @ string_field 3 (lr_DeviceId m) @ string_field 4 (lr_DeviceName m)"

text \<open>The messages without fields.\<close>

definition no_fields :: "'m \<Rightarrow> byte list \<Rightarrow> 'm result" where
  "no_fields m = unmarshal [] (\<lambda>_. m)"

definition wire_codec :: codec where
  "wire_codec = \<lparr>
     unm_Request = unmarshal [1] (\<lambda>fs. \<lparr>re_Op = get_string 1 fs, re_Request = field_value 2 as_bytes fs\<rparr>),
     unm_Update = unmarshal [] (\<lambda>fs. \<lparr>ue_Seq = word_of_nat (get_int 1 fs), ue_End = (get_int 2 fs \<noteq> 0), ue_Update = get_bytes 3 fs\<rparr>),
     unm_Register = unmarshal [1, 2, 3, 4, 5] (\<lambda>fs. \<lparr>rr_DisplayName = get_string 1 fs, rr_Username = get_string 2 fs,
       rr_Password = get_string 3 fs, rr_DeviceId = get_string 4 fs, rr_DeviceName = get_string 5 fs\<rparr>),
     unm_LoginCredentials = unmarshal [1, 2, 3, 4] (\<lambda>fs. \<lparr>lr_Username = get_string 1 fs, lr_Password = get_string 2 fs,
       lr_DeviceId = get_string 3 fs, lr_DeviceName = get_string 4 fs\<rparr>),
     unm_LoginToken = unmarshal [1] (\<lambda>fs. \<lparr>tr_SessionToken = get_string 1 fs\<rparr>),
     unm_Delete = unmarshal [1, 2] (\<lambda>fs. \<lparr>dr_Username = get_string 1 fs, dr_Password = get_string 2 fs\<rparr>),
     unm_DeleteCancel = unmarshal [1, 2] (\<lambda>fs. \<lparr>cr_Username = get_string 1 fs, cr_Password = get_string 2 fs\<rparr>),
     unm_ClientUpdate = no_fields ClientUpdateRequest, unm_ServerUpdate = no_fields ServerUpdateRequest,
     unm_ClientTransfer = no_fields ClientTransferRequest, unm_ServerTransfer = no_fields ServerTransferRequest,
     mar_Response = (\<lambda>e. marshal [rs_Message e] (response_fields e)),
     mar_Update = (\<lambda>e. marshal [] (update_fields e)),
     mar_Auth = (\<lambda>m. marshal [ar_SessionToken m] (string_field 1 (ar_SessionToken m))),
     mar_Delete = (\<lambda>m. marshal [] (int_field 1 (unat (dr_Timestamp m)))),
     mar_ServerUpdateResp = (\<lambda>m. marshal [] []), mar_ClientUpdateResp = (\<lambda>m. marshal [] []),
     mar_ClientTransferResp = (\<lambda>m. marshal [] []), mar_ServerTransferResp = (\<lambda>m. marshal [] [])\<rparr>"

definition wire_client :: client_codec where
  "wire_client = \<lparr>
     mar_Request = (\<lambda>e. marshal [re_Op e] (request_fields e)),
     unm_Response = unmarshal [2] (\<lambda>fs. \<lparr>rs_StatusCode = word_of_nat (get_int 1 fs), rs_Message = get_string 2 fs,
       rs_Response = field_value 3 as_bytes fs\<rparr>),
     unm_Auth = unmarshal [1] (\<lambda>fs. \<lparr>ar_SessionToken = get_string 1 fs\<rparr>),
     mar_Register = (\<lambda>m. marshal [rr_DisplayName m, rr_Username m, rr_Password m, rr_DeviceId m, rr_DeviceName m] (register_fields m)),
     mar_LoginCredentials = (\<lambda>m. marshal [lr_Username m, lr_Password m, lr_DeviceId m, lr_DeviceName m] (login_fields m)),
     mar_LoginToken = (\<lambda>m. marshal [tr_SessionToken m] (string_field 1 (tr_SessionToken m))),
     mar_DeleteRequest = (\<lambda>m. marshal [dr_Username m, dr_Password m] (string_field 1 (dr_Username m) @ string_field 2 (dr_Password m))),
     mar_DeleteCancel = (\<lambda>m. marshal [cr_Username m, cr_Password m] (string_field 1 (cr_Username m) @ string_field 2 (cr_Password m)))\<rparr>"

section \<open>Sizes\<close>

lemma short_textD: "short_text s \<Longrightarrow> length s < 100" "short_text s \<Longrightarrow> valid_utf8 s"
  by (simp_all add: short_text_def short_utf8)

lemma put_field_length:
  assumes "field_ok (i, v)"
  shows "length (put_field (i, v)) \<le> 20 + (case v of VBytes bs \<Rightarrow> length bs | _ \<Rightarrow> 0)"
proof -
  have "length (varint n) \<le> 10" if "n < 2 ^ 64" for n using length_varint [of n 10] that by simp
  from this [of "8 * i"] this [of "8 * i + 2"] this show ?thesis using assms by (cases v) (fastforce simp: field_ok_def)+
qed

lemma put_fields_append [simp]: "put_fields (fs @ gs) = put_fields fs @ put_fields gs"
  by (simp add: put_fields_def)

lemma put_fields_length:
  "0 < i \<Longrightarrow> i < 100 \<Longrightarrow> length s < 2 ^ 64 \<Longrightarrow> length (put_fields (string_field i s)) \<le> 20 + length s"
  "0 < i \<Longrightarrow> i < 100 \<Longrightarrow> n < 2 ^ 64 \<Longrightarrow> length (put_fields (int_field i n)) \<le> 20"
  "0 < i \<Longrightarrow> i < 100 \<Longrightarrow> (\<And>bs. v = Some bs \<Longrightarrow> length bs < 2 ^ 64) \<Longrightarrow>
     length (put_fields (optional_field i v)) \<le> 20 + (case v of None \<Rightarrow> 0 | Some bs \<Rightarrow> length bs)"
  using put_field_length [of i "VBytes (bytes_of_string s)"] put_field_length [of i "VInt n"] put_field_length [of i "VBytes (the v)"]
  by (auto simp: put_fields_def string_field_def int_field_def optional_field_def field_ok_def split: option.split)

lemma get_simps [simp]:
  "get_bytes i fs = (case field_value i as_bytes fs of None \<Rightarrow> [] | Some bs \<Rightarrow> bs)"
  "get_int i fs = (case field_value i as_int fs of None \<Rightarrow> 0 | Some n \<Rightarrow> n)"
  "get_string i fs = (case field_value i as_bytes fs of None \<Rightarrow> '''' | Some bs \<Rightarrow> string_of_bytes bs)"
  by (simp_all add: get_bytes_def get_int_def get_string_def string_of_bytes_def split: option.split)


section \<open>The format does what is asked of the library\<close>

lemmas wire_defs = wire_codec_def wire_client_def marshal_def request_fields_def response_fields_def register_fields_def login_fields_def
  field_value_append string_of_bytes_of_string

lemma wire_travels:
  assumes "short_text op" "\<And>bs. body = Some bs \<Longrightarrow> length bs < 10000"
  shows "travels wire_client wire_codec \<lparr>re_Op = op, re_Request = body\<rparr>"
proof -
  let ?fs = "string_field 1 op @ optional_field 2 body"
  have "unmarshal [1] (\<lambda>fs. \<lparr>re_Op = get_string 1 fs, re_Request = field_value 2 as_bytes fs\<rparr>) (put_fields ?fs)
      = Inr \<lparr>re_Op = op, re_Request = body\<rparr>"
    using assms by (subst unmarshal_marshal; cases body) (auto simp: wire_defs dest: short_textD)
  moreover have "length (put_fields ?fs) < 2 ^ 32"
    using put_fields_length(1) [of 1 op] put_fields_length(3) [of 2 body] short_textD(1) [OF assms(1)] assms(2)
    by (cases body) force+
  ultimately show ?thesis using short_textD(2) [OF assms(1)] by (simp add: travels_def wire_defs)
qed

lemma wire_returns:
  assumes "short_text msg" "\<And>bs. body = Some bs \<Longrightarrow> length bs < 10000"
  shows "returns wire_client wire_codec code msg body"
proof -
  let ?c = "status_value code"
  let ?fs = "int_field 1 (unat ?c) @ string_field 2 msg @ optional_field 3 body"
  have c: "unat ?c < 2 ^ 64" using unat_lt_size [of ?c] by simp
  have "unmarshal [2] (\<lambda>fs. \<lparr>rs_StatusCode = word_of_nat (get_int 1 fs), rs_Message = get_string 2 fs, rs_Response = field_value 3 as_bytes fs\<rparr>)
      (put_fields ?fs) = Inr \<lparr>rs_StatusCode = ?c, rs_Message = msg, rs_Response = body\<rparr>"
    using assms c by (subst unmarshal_marshal; cases body) (auto simp: wire_defs unsigned_eq_0_iff dest: short_textD)
  moreover have "length (put_fields ?fs) < 2 ^ 32"
    using put_fields_length(1) [of 2 msg] put_fields_length(2) [of 1 "unat ?c"] put_fields_length(3) [of 3 body] short_textD(1) [OF assms(1)] assms(2) c
    by (cases body) force+
  ultimately show ?thesis using short_textD(2) [OF assms(1)] by (simp add: returns_def encodes_def wire_defs)
qed

lemma wire_message:
  assumes "mar m = Inr (put_fields fs)" "unm (put_fields fs) = Inr m" "length (put_fields fs) < 10000" "short_text op"
  shows "message_travels wire_client wire_codec op mar unm m"
  using assms wire_travels by (auto simp: message_travels_def)

text \<open>A string field as it is sent and read.\<close>

lemma short_field:
  assumes "short_text s" "0 < i" "i < 100"
  shows "length (put_fields (string_field i s)) \<le> 120" "list_all field_ok (string_field i s)" "valid_utf8 s"
  using put_fields_length(1) [of i s] short_textD [OF assms(1)] assms by simp_all

lemma wire_register:
  assumes "list_all short_text [d, u, p, i, n]"
  shows "message_travels wire_client wire_codec ''auth.register'' (mar_Register wire_client) (unm_Register wire_codec)
    \<lparr>rr_DisplayName = d, rr_Username = u, rr_Password = p, rr_DeviceId = i, rr_DeviceName = n\<rparr>"
proof (rule wire_message)
  let ?m = "\<lparr>rr_DisplayName = d, rr_Username = u, rr_Password = p, rr_DeviceId = i, rr_DeviceName = n\<rparr>"
  have s: "short_text d" "short_text u" "short_text p" "short_text i" "short_text n" using assms by simp_all
  note f = short_field [OF s(1), of 1] short_field [OF s(2), of 2] short_field [OF s(3), of 3] short_field [OF s(4), of 4] short_field [OF s(5), of 5]
  show "mar_Register wire_client ?m = Inr (put_fields (register_fields ?m))" using f by (simp add: wire_client_def marshal_def)
  show "unm_Register wire_codec (put_fields (register_fields ?m)) = Inr ?m"
    unfolding wire_codec_def codec.simps by (subst unmarshal_marshal) (use f in \<open>auto simp: register_fields_def field_value_append string_of_bytes_of_string\<close>)
  show "length (put_fields (register_fields ?m)) < 10000" using f by (simp add: register_fields_def)
  show "short_text ''auth.register''" by code_simp
qed

lemma wire_login:
  assumes "list_all short_text [u, p, i, n]"
  shows "message_travels wire_client wire_codec ''auth.login.credentials'' (mar_LoginCredentials wire_client) (unm_LoginCredentials wire_codec)
    \<lparr>lr_Username = u, lr_Password = p, lr_DeviceId = i, lr_DeviceName = n\<rparr>"
proof (rule wire_message)
  let ?m = "\<lparr>lr_Username = u, lr_Password = p, lr_DeviceId = i, lr_DeviceName = n\<rparr>"
  have s: "short_text u" "short_text p" "short_text i" "short_text n" using assms by simp_all
  note f = short_field [OF s(1), of 1] short_field [OF s(2), of 2] short_field [OF s(3), of 3] short_field [OF s(4), of 4]
  show "mar_LoginCredentials wire_client ?m = Inr (put_fields (login_fields ?m))" using f by (simp add: wire_client_def marshal_def)
  show "unm_LoginCredentials wire_codec (put_fields (login_fields ?m)) = Inr ?m"
    unfolding wire_codec_def codec.simps by (subst unmarshal_marshal) (use f in \<open>auto simp: login_fields_def field_value_append string_of_bytes_of_string\<close>)
  show "length (put_fields (login_fields ?m)) < 10000" using f by (simp add: login_fields_def)
  show "short_text ''auth.login.credentials''" by code_simp
qed

lemma wire_token:
  assumes "short_text s"
  shows "message_travels wire_client wire_codec ''auth.login.token'' (mar_LoginToken wire_client) (unm_LoginToken wire_codec) \<lparr>tr_SessionToken = s\<rparr>"
    "\<exists>body. mar_Auth wire_codec \<lparr>ar_SessionToken = s\<rparr> = Inr body \<and> unm_Auth wire_client body = Inr \<lparr>ar_SessionToken = s\<rparr>
       \<and> returns wire_client wire_codec ErrCodeOK '''' (Some body)"
proof -
  let ?fs = "string_field 1 s"
  note f = short_field [OF assms, of 1]
  have "mar_LoginToken wire_client \<lparr>tr_SessionToken = s\<rparr> = Inr (put_fields ?fs)" "mar_Auth wire_codec \<lparr>ar_SessionToken = s\<rparr> = Inr (put_fields ?fs)"
    using f by (simp_all add: wire_codec_def wire_client_def marshal_def)
  moreover have "unm_LoginToken wire_codec (put_fields ?fs) = Inr \<lparr>tr_SessionToken = s\<rparr>"
    unfolding wire_codec_def codec.simps by (subst unmarshal_marshal) (use f in \<open>auto simp: string_of_bytes_of_string\<close>)
  moreover have "unm_Auth wire_client (put_fields ?fs) = Inr \<lparr>ar_SessionToken = s\<rparr>"
    unfolding wire_client_def client_codec.simps by (subst unmarshal_marshal) (use f in \<open>auto simp: string_of_bytes_of_string\<close>)
  moreover have "short_text ''auth.login.token''" by code_simp
  moreover have "length (put_fields ?fs) < 10000" using f(1) by simp
  ultimately show "message_travels wire_client wire_codec ''auth.login.token'' (mar_LoginToken wire_client) (unm_LoginToken wire_codec) \<lparr>tr_SessionToken = s\<rparr>"
    "\<exists>body. mar_Auth wire_codec \<lparr>ar_SessionToken = s\<rparr> = Inr body \<and> unm_Auth wire_client body = Inr \<lparr>ar_SessionToken = s\<rparr>
       \<and> returns wire_client wire_codec ErrCodeOK '''' (Some body)"
    by (auto intro: wire_message [where fs = ?fs] wire_returns)
qed

lemma wire_delete:
  assumes "list_all short_text [u, p]"
  shows "message_travels wire_client wire_codec ''account.delete'' (mar_DeleteRequest wire_client) (unm_Delete wire_codec) \<lparr>dr_Username = u, dr_Password = p\<rparr>"
    "message_travels wire_client wire_codec ''account.delete.cancel'' (mar_DeleteCancel wire_client) (unm_DeleteCancel wire_codec) \<lparr>cr_Username = u, cr_Password = p\<rparr>"
proof -
  let ?fs = "string_field 1 u @ string_field 2 p"
  have s: "short_text u" "short_text p" using assms by simp_all
  note f = short_field [OF s(1), of 1] short_field [OF s(2), of 2]
  have op: "short_text ''account.delete''" "short_text ''account.delete.cancel''" by code_simp+
  have len: "length (put_fields ?fs) < 10000" using f by simp
  have mar: "mar_DeleteRequest wire_client \<lparr>dr_Username = u, dr_Password = p\<rparr> = Inr (put_fields ?fs)"
    "mar_DeleteCancel wire_client \<lparr>cr_Username = u, cr_Password = p\<rparr> = Inr (put_fields ?fs)"
    using f by (simp_all add: wire_client_def marshal_def)
  have "unm_Delete wire_codec (put_fields ?fs) = Inr \<lparr>dr_Username = u, dr_Password = p\<rparr>"
    unfolding wire_codec_def codec.simps by (subst unmarshal_marshal) (use f in \<open>auto simp: field_value_append string_of_bytes_of_string\<close>)
  then show "message_travels wire_client wire_codec ''account.delete'' (mar_DeleteRequest wire_client) (unm_Delete wire_codec) \<lparr>dr_Username = u, dr_Password = p\<rparr>"
    by (intro wire_message [where fs = ?fs] mar len op)
  have "unm_DeleteCancel wire_codec (put_fields ?fs) = Inr \<lparr>cr_Username = u, cr_Password = p\<rparr>"
    unfolding wire_codec_def codec.simps by (subst unmarshal_marshal) (use f in \<open>auto simp: field_value_append string_of_bytes_of_string\<close>)
  then show "message_travels wire_client wire_codec ''account.delete.cancel'' (mar_DeleteCancel wire_client) (unm_DeleteCancel wire_codec) \<lparr>cr_Username = u, cr_Password = p\<rparr>"
    by (intro wire_message [where fs = ?fs] mar len op)
qed

lemma wire_proto_ok: "proto_ok wire_client wire_codec"
proof -
  have "\<exists>body. mar_Delete wire_codec \<lparr>dr_Timestamp = ts\<rparr> = Inr body \<and> returns wire_client wire_codec ErrCodeOK '''' (Some body)" for ts
  proof -
    have "unat ts < 2 ^ 64" using unat_lt_size [of ts] by simp
    then have "length (put_fields (int_field 1 (unat ts))) \<le> 20" by (intro put_fields_length(2)) simp_all
    then show ?thesis using wire_returns [of "''''" "Some (put_fields (int_field 1 (unat ts)))" ErrCodeOK]
      by (simp add: wire_codec_def marshal_def)
  qed
  then show ?thesis unfolding proto_ok_def using wire_returns [of _ None] wire_token wire_register wire_login wire_delete by blast
qed

end
