(* ===== verification/Digests.thy ===== *)
theory Digests
  imports Auth
begin

text \<open>
  The SHA-256 digests of four session tokens, evaluated block by block: the tokens of the
  examples of \<open>Flows\<close>, which draw 32 random bytes that are all 1, all 2, all 3 and all 4.
\<close>

definition example_token :: "nat \<Rightarrow> string" where
  "example_token k = hex_EncodeToString (replicate 32 (word_of_nat k))"

definition second_block :: "uint32 list" where
  "second_block = 0x80000000 # replicate 14 0 @ [0x200]"

lemma token1_first: "sha_block (replicate 16 0x30313031) sha_H0 =
    (0xdd8a2961, 0x60284278, 0xb937059d, 0xffa81dec, 0x0ce9fc3e, 0x3eb1b524, 0x5097a638, 0x90f09e27)"
  by code_simp

lemma token1_second: "sha_block second_block
    (0xdd8a2961, 0x60284278, 0xb937059d, 0xffa81dec, 0x0ce9fc3e, 0x3eb1b524, 0x5097a638, 0x90f09e27) =
    (0x58badd9b, 0x455145b4, 0x87ad24c7, 0xf259cc43, 0x7cc4ffd0, 0x78471684, 0x5249321f, 0xb5961cfc)"
  by code_simp

lemma token2_first: "sha_block (replicate 16 0x30323032) sha_H0 =
    (0x058f499c, 0xb812f6b9, 0x61b583ee, 0x88baea65, 0x14c13c34, 0xf8290ef7, 0x2b9eaa8e, 0x44398938)"
  by code_simp

lemma token2_second: "sha_block second_block
    (0x058f499c, 0xb812f6b9, 0x61b583ee, 0x88baea65, 0x14c13c34, 0xf8290ef7, 0x2b9eaa8e, 0x44398938) =
    (0x749f1a97, 0xff6cd00e, 0xa46ccb3a, 0x47bb1232, 0x83fe56c8, 0xfa324bea, 0x295d928f, 0x558161df)"
  by code_simp

lemma token3_first: "sha_block (replicate 16 0x30333033) sha_H0 =
    (0x2e426d44, 0xa3c2f534, 0x93ac3a6d, 0x7c28799a, 0xffe503af, 0xd1b655f5, 0x59ef850b, 0x60a60a83)"
  by code_simp

lemma token3_second: "sha_block second_block
    (0x2e426d44, 0xa3c2f534, 0x93ac3a6d, 0x7c28799a, 0xffe503af, 0xd1b655f5, 0x59ef850b, 0x60a60a83) =
    (0x83a538df, 0x07046f44, 0x30303faf, 0x09e9c693, 0x3306b5e7, 0xf4157b5c, 0x0cdc35d1, 0x6f0f9033)"
  by code_simp

lemma token4_first: "sha_block (replicate 16 0x30343034) sha_H0 =
    (0x22734b0d, 0x18dda4d1, 0x3eb9b906, 0x9cda32cc, 0xfdf0470d, 0xc4998aee, 0x0ed3a2a9, 0xd1dba978)"
  by code_simp

lemma token4_second: "sha_block second_block
    (0x22734b0d, 0x18dda4d1, 0x3eb9b906, 0x9cda32cc, 0xfdf0470d, 0xc4998aee, 0x0ed3a2a9, 0xd1dba978) =
    (0x419a701f, 0xd185ed1a, 0xd0f64096, 0x98fbf426, 0xe1bee041, 0xfe167531, 0xa68493b2, 0x778f8718)"
  by code_simp

lemma token_words:
  "sha_words (sha_pad (bytes_of_string (example_token 1))) = replicate 16 0x30313031 @ second_block"
  "sha_words (sha_pad (bytes_of_string (example_token 2))) = replicate 16 0x30323032 @ second_block"
  "sha_words (sha_pad (bytes_of_string (example_token 3))) = replicate 16 0x30333033 @ second_block"
  "sha_words (sha_pad (bytes_of_string (example_token 4))) = replicate 16 0x30343034 @ second_block"
  by code_simp+

lemma two_blocks: "sha_blocks 2 (replicate 16 v @ second_block) st = sha_block second_block (sha_block (replicate 16 v) st)"
proof -
  have "length second_block = 16" by (simp add: second_block_def)
  then show ?thesis by (simp add: numeral_2_eq_2)
qed

lemma two_block_length: "length (replicate 16 (v :: uint32) @ second_block) div 16 = 2"
  by (simp add: second_block_def)

lemma token_digests:
  "hashToken (example_token 1) = concat (map PutUint32 [0x58badd9b, 0x455145b4, 0x87ad24c7, 0xf259cc43, 0x7cc4ffd0, 0x78471684, 0x5249321f, 0xb5961cfc])"
  "hashToken (example_token 2) = concat (map PutUint32 [0x749f1a97, 0xff6cd00e, 0xa46ccb3a, 0x47bb1232, 0x83fe56c8, 0xfa324bea, 0x295d928f, 0x558161df])"
  "hashToken (example_token 3) = concat (map PutUint32 [0x83a538df, 0x07046f44, 0x30303faf, 0x09e9c693, 0x3306b5e7, 0xf4157b5c, 0x0cdc35d1, 0x6f0f9033])"
  "hashToken (example_token 4) = concat (map PutUint32 [0x419a701f, 0xd185ed1a, 0xd0f64096, 0x98fbf426, 0xe1bee041, 0xfe167531, 0xa68493b2, 0x778f8718])"
  unfolding hashToken_def Sum256_def Let_def token_words two_block_length two_blocks
    token1_first token1_second token2_first token2_second token3_first token3_second token4_first token4_second
  by simp_all

lemma PutUint32_append: "PutUint32 a @ s = PutUint32 b @ t \<longleftrightarrow> a = b \<and> s = t"
  using be32.enc_inj by (auto simp: append_eq_append_conv)

lemma token_digests_differ: "distinct (map hashToken [example_token 1, example_token 2, example_token 3, example_token 4])"
  unfolding list.map token_digests by (simp add: be32.enc_inj)

end
