(* ===== verification/Flows.thy ===== *)
theory Flows
  imports Wire Accounts Digests "HOL-Library.Monad_Syntax"
begin

text \<open>
  Whole conversations of a client with the server: the flows that the integration tests of
  the repository (\<open>src/tests/auth_test.go\<close> and \<open>src/tests/account_deletion_test.go\<close>)
  try once are theorems here, for every state of the stores, every name, every random token
  and every way the bytes arrive.
\<close>

section \<open>The tests\<close>

text \<open>A request whose answer must have a status code; \<open>None\<close> is a failed test.\<close>

definition expect ::
    "client_codec \<Rightarrow> codec \<Rightarrow> nat \<Rightarrow> turn \<Rightarrow> string \<Rightarrow> byte list result \<Rightarrow> PPStatusCode \<Rightarrow> server \<Rightarrow> (ResponseEnvelope \<times> server) option" where
  "expect cc cd a t op body code sv =
     (case ask cc cd a t op body sv of
        Some (Inr resp, sv') \<Rightarrow> if rs_StatusCode resp \<noteq> status_value code then None else Some (resp, sv')
      | _ \<Rightarrow> None)"

definition test_password :: string where
  "test_password = ''ppgram_test_password''"

definition TestAuthFlows :: "client_codec \<Rightarrow> codec \<Rightarrow> (nat \<Rightarrow> turn) \<Rightarrow> string \<Rightarrow> server \<Rightarrow> server option" where
  "TestAuthFlows cc cd t username sv =
     (let (a, sv) = connectTestClient ''c1'' 1 sv in
      do {
        (regResp, sv) \<leftarrow> expect cc cd a (t 0) ''auth.register'' (mar_Register cc \<lparr>rr_DisplayName = ''Auth Flow'',
           rr_Username = username, rr_Password = test_password, rr_DeviceId = ''auth_dev_1'', rr_DeviceName = ''auth-device-1''\<rparr>) ErrCodeOK sv;
        (resp, sv) \<leftarrow> expect cc cd a (t 1) ''auth.register'' (mar_Register cc \<lparr>rr_DisplayName = ''Auth Flow Two'',
           rr_Username = username, rr_Password = test_password, rr_DeviceId = ''auth_dev_2'', rr_DeviceName = ''auth-device-2''\<rparr>) ErrCodeUsernameTaken sv;
        (loginResp, sv) \<leftarrow> expect cc cd a (t 2) ''auth.login.credentials'' (mar_LoginCredentials cc \<lparr>lr_Username = username,
           lr_Password = test_password, lr_DeviceId = ''auth_dev_1'', lr_DeviceName = ''auth-device-1''\<rparr>) ErrCodeOK sv;
        firstToken \<leftarrow> parseAuthResponse cc loginResp;
        (rotateResp, sv) \<leftarrow> expect cc cd a (t 3) ''auth.login.token'' (mar_LoginToken cc \<lparr>tr_SessionToken = firstToken\<rparr>) ErrCodeOK sv;
        secondToken \<leftarrow> parseAuthResponse cc rotateResp;
        (reuseOldResp, sv) \<leftarrow> expect cc cd a (t 4) ''auth.login.token'' (mar_LoginToken cc \<lparr>tr_SessionToken = firstToken\<rparr>) ErrCodeInvalidToken sv;
        (newTokenResp, sv) \<leftarrow> expect cc cd a (t 5) ''auth.login.token'' (mar_LoginToken cc \<lparr>tr_SessionToken = secondToken\<rparr>) ErrCodeOK sv;
        Some sv
      })"

lemma drawn_short: "drawn w = Some tok \<Longrightarrow> short_text tok"
proof -
  assume "drawn w = Some tok"
  then obtain rnd where "tok = hex_EncodeToString (map rnd [0..<32])"
    by (auto simp: drawn_def generateSessionTokenPair_def Let_def split: option.splits sum.splits)
  then show "short_text tok" using hex_plain [of "map rnd [0..<32]"] by (auto simp: short_text_def list_all_iff plain_char_def)
qed

section \<open>What each handler sends\<close>

lemma sends_status:
  assumes "\<And>sv. sv_backend sv = b \<Longrightarrow> sv_registry sv = g \<Longrightarrow> h c sv = SendResponse cd code msg None (sv\<lparr>sv_backend := b'\<rparr>)"
  shows "handler_sends cd h c b g code msg None b' g"
  unfolding handler_sends_def
proof (intro allI impI)
  fix sv q bytes
  assume sv: "stream_of sv = Some q" "open_stream q" "sv_backend sv = b" "sv_registry sv = g" and enc: "encodes cd code msg None bytes"
  have "stream_of (sv\<lparr>sv_backend := b'\<rparr>) = Some q" using sv(1) by simp
  from SendResponse_open [OF this sv(2) enc, of None] show "h c sv = (None, put_stream (q\<lparr>tx := tx q @ data_frame bytes\<rparr>) (sv\<lparr>sv_backend := b', sv_registry := g\<rparr>))"
    using assms sv(3,4) by (cases sv) simp
qed

lemma sends_finish:
  assumes h: "\<And>sv. sv_backend sv = b \<Longrightarrow> h c sv = finish_auth w cd c res (sv\<lparr>sv_backend := b'\<rparr>)"
    and body: "mar_Auth cd \<lparr>ar_SessionToken = a_SessionToken res\<rparr> = Inr body" and c: "rc_Session c = Some a"
  shows "handler_sends cd h c b g ErrCodeOK '''' (Some body) b' (Authenticate w b' (Some a) (a_UserID res) (a_DeviceID res) (a_DeviceName res) g)"
  unfolding handler_sends_def
proof (intro allI impI)
  fix sv q bytes
  assume sv: "stream_of sv = Some q" "open_stream q" "sv_backend sv = b" "sv_registry sv = g" and enc: "encodes cd ErrCodeOK '''' (Some body) bytes"
  let ?g = "Authenticate w b' (Some a) (a_UserID res) (a_DeviceID res) (a_DeviceName res) g"
  have "stream_of (sv\<lparr>sv_backend := b', sv_registry := ?g\<rparr>) = Some q" using sv(1) by simp
  from SendResponse_open [OF this sv(2) enc, of "Some (Inr body)"]
  show "h c sv = (None, put_stream (q\<lparr>tx := tx q @ data_frame bytes\<rparr>) (sv\<lparr>sv_backend := b', sv_registry := ?g\<rparr>))"
    using h sv(3,4) c body by (simp add: finish_auth_def rc_Send_def)
qed

text \<open>A request to one of the six routes.\<close>

lemma expect_reply:
  assumes m: "message_travels cc cd op mar unm m" and op: "TrimSpace op = op" "op \<noteq> ''''" "isDotRoute op"
    and route: "map_of (main_routes (tn_outside t) cd) op = Some (mw, h)"
    and sends: "\<And>bytes. unm bytes = Inr m \<Longrightarrow> handler_sends cd (if mw = [] then h else guarded (tn_outside t) cd h) \<lparr>rc_Request = bytes, rc_Session = Some a\<rparr>
      (sv_backend sv) (sv_registry sv) code msg out b' g'"
    and ret: "returns cc cd code msg out"
  shows "\<exists>sv'. expect cc cd a t op (mar m) code sv = Some (\<lparr>rs_StatusCode = status_value code, rs_Message = msg, rs_Response = out\<rparr>, sv')
    \<and> sv_backend sv' = b' \<and> sv_registry sv' = g'"
proof -
  obtain bytes where b: "mar m = Inr bytes" "unm bytes = Inr m" "travels cc cd \<lparr>re_Op = op, re_Request = Some bytes\<rparr>"
    using m by (auto simp: message_travels_def)
  from ask_reply [OF b(1) b(3) op route sends [OF b(2)] ret] show ?thesis by (auto simp: expect_def)
qed

lemma op_trim: "TrimSpace ''auth.register'' = ''auth.register''" "TrimSpace ''auth.login.credentials'' = ''auth.login.credentials''"
  "TrimSpace ''auth.login.token'' = ''auth.login.token''" "TrimSpace ''account.delete'' = ''account.delete''"
  "TrimSpace ''account.delete.cancel'' = ''account.delete.cancel''"
  by code_simp+

text \<open>An answer that logs the client in: the token it carries is read back.\<close>

lemma token_answer:
  assumes "proto_ok cc cd" "short_text tok"
  obtains body where "mar_Auth cd \<lparr>ar_SessionToken = tok\<rparr> = Inr body" "returns cc cd ErrCodeOK '''' (Some body)"
    "parseAuthResponse cc \<lparr>rs_StatusCode = status_value ErrCodeOK, rs_Message = '''', rs_Response = Some body\<rparr> = Some tok"
  using assms by (auto simp: proto_ok_def parseAuthResponse_def)

definition logs_in ::
    "client_codec \<Rightarrow> codec \<Rightarrow> nat \<Rightarrow> turn \<Rightarrow> string \<Rightarrow> byte list result \<Rightarrow> server \<Rightarrow> AuthResult \<Rightarrow> backend \<Rightarrow> bool" where
  "logs_in cc cd a t op body sv res b' \<longleftrightarrow> (\<exists>resp sv'. expect cc cd a t op body ErrCodeOK sv = Some (resp, sv')
     \<and> parseAuthResponse cc resp = Some (a_SessionToken res) \<and> sv_backend sv' = b'
     \<and> sv_registry sv' = Authenticate (tn_outside t) b' (Some a) (a_UserID res) (a_DeviceID res) (a_DeviceName res) (sv_registry sv))"

lemma flow_register:
  assumes ok: "proto_ok cc cd" and short: "list_all short_text [d, u, p, i, n]"
  shows "Register (tn_outside t) \<lparr>c_Username = u, c_DisplayName = d, c_Password = p, c_DeviceID = i, c_DeviceName = n\<rparr> (sv_backend sv) = (Inr res, b')
      \<Longrightarrow> short_text (a_SessionToken res) \<Longrightarrow> logs_in cc cd a t ''auth.register''
        (mar_Register cc \<lparr>rr_DisplayName = d, rr_Username = u, rr_Password = p, rr_DeviceId = i, rr_DeviceName = n\<rparr>) sv res b'"
    and "Register (tn_outside t) \<lparr>c_Username = u, c_DisplayName = d, c_Password = p, c_DeviceID = i, c_DeviceName = n\<rparr> (sv_backend sv) = (Inl ErrUsernameTaken, sv_backend sv)
      \<Longrightarrow> \<exists>resp sv'. expect cc cd a t ''auth.register'' (mar_Register cc \<lparr>rr_DisplayName = d, rr_Username = u, rr_Password = p, rr_DeviceId = i, rr_DeviceName = n\<rparr>)
            ErrCodeUsernameTaken sv = Some (resp, sv') \<and> sv_backend sv' = sv_backend sv \<and> sv_registry sv' = sv_registry sv"
proof -
  let ?m = "\<lparr>rr_DisplayName = d, rr_Username = u, rr_Password = p, rr_DeviceId = i, rr_DeviceName = n\<rparr>"
  let ?c = "\<lparr>c_Username = u, c_DisplayName = d, c_Password = p, c_DeviceID = i, c_DeviceName = n\<rparr>"
  have m: "message_travels cc cd ''auth.register'' (mar_Register cc) (unm_Register cd) ?m" using ok short unfolding proto_ok_def by blast
  note reply = expect_reply [OF m op_trim(1) auth_ops(1-3)]
  {
    assume r: "Register (tn_outside t) ?c (sv_backend sv) = (Inr res, b')" and s: "short_text (a_SessionToken res)"
    obtain body where body: "mar_Auth cd \<lparr>ar_SessionToken = a_SessionToken res\<rparr> = Inr body" "returns cc cd ErrCodeOK '''' (Some body)"
      "parseAuthResponse cc \<lparr>rs_StatusCode = status_value ErrCodeOK, rs_Message = '''', rs_Response = Some body\<rparr> = Some (a_SessionToken res)"
      by (rule token_answer [OF ok s])
    show "logs_in cc cd a t ''auth.register'' (mar_Register cc ?m) sv res b'" unfolding logs_in_def
      using reply [where t = t and sv = sv and a = a, OF _ body(2)] body(3) r
      by (fastforce intro!: sends_finish [OF _ body(1)] simp: HandleUserRegister_def)
  next
    assume r: "Register (tn_outside t) ?c (sv_backend sv) = (Inl ErrUsernameTaken, sv_backend sv)"
    have "returns cc cd ErrCodeUsernameTaken '''' None" using ok by (simp add: proto_ok_def)
    from reply [where t = t and sv = sv and a = a, OF _ this] r
    show "\<exists>resp sv'. expect cc cd a t ''auth.register'' (mar_Register cc ?m)
            ErrCodeUsernameTaken sv = Some (resp, sv') \<and> sv_backend sv' = sv_backend sv \<and> sv_registry sv' = sv_registry sv"
      by (fastforce intro!: sends_status simp: HandleUserRegister_def SendCode_def Let_def)
  }
qed


lemma flow_login:
  assumes ok: "proto_ok cc cd" and short: "list_all short_text [u, p, i, n]"
  shows "LoginByCredentials (tn_outside t) \<lparr>c_Username = u, c_DisplayName = '''', c_Password = p, c_DeviceID = i, c_DeviceName = n\<rparr> (sv_backend sv) = (Inr res, b')
      \<Longrightarrow> short_text (a_SessionToken res) \<Longrightarrow> logs_in cc cd a t ''auth.login.credentials''
        (mar_LoginCredentials cc \<lparr>lr_Username = u, lr_Password = p, lr_DeviceId = i, lr_DeviceName = n\<rparr>) sv res b'"
    and "LoginByCredentials (tn_outside t) \<lparr>c_Username = u, c_DisplayName = '''', c_Password = p, c_DeviceID = i, c_DeviceName = n\<rparr> (sv_backend sv)
        = (Inl ErrAccountPendingDeletion, sv_backend sv)
      \<Longrightarrow> \<exists>resp sv'. expect cc cd a t ''auth.login.credentials'' (mar_LoginCredentials cc \<lparr>lr_Username = u, lr_Password = p, lr_DeviceId = i, lr_DeviceName = n\<rparr>)
            ErrCodeForbidden sv = Some (resp, sv') \<and> rs_Message resp = ''account pending deletion'' \<and> sv_backend sv' = sv_backend sv \<and> sv_registry sv' = sv_registry sv"
proof -
  let ?m = "\<lparr>lr_Username = u, lr_Password = p, lr_DeviceId = i, lr_DeviceName = n\<rparr>"
  let ?c = "\<lparr>c_Username = u, c_DisplayName = '''', c_Password = p, c_DeviceID = i, c_DeviceName = n\<rparr>"
  have m: "message_travels cc cd ''auth.login.credentials'' (mar_LoginCredentials cc) (unm_LoginCredentials cd) ?m"
    using ok short unfolding proto_ok_def by blast
  note reply = expect_reply [OF m op_trim(2) auth_ops(4-6)]
  {
    assume r: "LoginByCredentials (tn_outside t) ?c (sv_backend sv) = (Inr res, b')" and s: "short_text (a_SessionToken res)"
    obtain body where body: "mar_Auth cd \<lparr>ar_SessionToken = a_SessionToken res\<rparr> = Inr body" "returns cc cd ErrCodeOK '''' (Some body)"
      "parseAuthResponse cc \<lparr>rs_StatusCode = status_value ErrCodeOK, rs_Message = '''', rs_Response = Some body\<rparr> = Some (a_SessionToken res)"
      by (rule token_answer [OF ok s])
    show "logs_in cc cd a t ''auth.login.credentials'' (mar_LoginCredentials cc ?m) sv res b'" unfolding logs_in_def
      using reply [where t = t and sv = sv and a = a, OF _ body(2)] body(3) r
      by (fastforce intro!: sends_finish [OF _ body(1)] simp: HandleUserLoginByCredentials_def)
  next
    assume r: "LoginByCredentials (tn_outside t) ?c (sv_backend sv) = (Inl ErrAccountPendingDeletion, sv_backend sv)"
    have "returns cc cd ErrCodeForbidden ''account pending deletion'' None" using ok by (simp add: proto_ok_def)
    from reply [where t = t and sv = sv and a = a, OF _ this] r
    show "\<exists>resp sv'. expect cc cd a t ''auth.login.credentials'' (mar_LoginCredentials cc ?m)
            ErrCodeForbidden sv = Some (resp, sv') \<and> rs_Message resp = ''account pending deletion'' \<and> sv_backend sv' = sv_backend sv \<and> sv_registry sv' = sv_registry sv"
      by (fastforce intro!: sends_status simp: HandleUserLoginByCredentials_def SendStatus_def Let_def)
  }
qed

lemma flow_token:
  assumes ok: "proto_ok cc cd" and short: "short_text tok"
  shows "LoginByToken (tn_outside t) tok (sv_backend sv) = (Inr res, b') \<Longrightarrow> short_text (a_SessionToken res)
      \<Longrightarrow> logs_in cc cd a t ''auth.login.token'' (mar_LoginToken cc \<lparr>tr_SessionToken = tok\<rparr>) sv res b'"
    and "LoginByToken (tn_outside t) tok (sv_backend sv) = (Inl ErrInvalidToken, sv_backend sv)
      \<Longrightarrow> \<exists>resp sv'. expect cc cd a t ''auth.login.token'' (mar_LoginToken cc \<lparr>tr_SessionToken = tok\<rparr>) ErrCodeInvalidToken sv = Some (resp, sv')
            \<and> sv_backend sv' = sv_backend sv \<and> sv_registry sv' = sv_registry sv"
proof -
  have m: "message_travels cc cd ''auth.login.token'' (mar_LoginToken cc) (unm_LoginToken cd) \<lparr>tr_SessionToken = tok\<rparr>"
    using ok short unfolding proto_ok_def by blast
  note reply = expect_reply [OF m op_trim(3) auth_ops(7-9)]
  {
    assume r: "LoginByToken (tn_outside t) tok (sv_backend sv) = (Inr res, b')" and s: "short_text (a_SessionToken res)"
    obtain body where body: "mar_Auth cd \<lparr>ar_SessionToken = a_SessionToken res\<rparr> = Inr body" "returns cc cd ErrCodeOK '''' (Some body)"
      "parseAuthResponse cc \<lparr>rs_StatusCode = status_value ErrCodeOK, rs_Message = '''', rs_Response = Some body\<rparr> = Some (a_SessionToken res)"
      by (rule token_answer [OF ok s])
    show "logs_in cc cd a t ''auth.login.token'' (mar_LoginToken cc \<lparr>tr_SessionToken = tok\<rparr>) sv res b'" unfolding logs_in_def
      using reply [where t = t and sv = sv and a = a, OF _ body(2)] body(3) r
      by (fastforce intro!: sends_finish [OF _ body(1)] simp: HandleUserLoginByToken_def)
  next
    assume r: "LoginByToken (tn_outside t) tok (sv_backend sv) = (Inl ErrInvalidToken, sv_backend sv)"
    have "returns cc cd ErrCodeInvalidToken '''' None" using ok by (simp add: proto_ok_def)
    from reply [where t = t and sv = sv and a = a, OF _ this] r
    show "\<exists>resp sv'. expect cc cd a t ''auth.login.token'' (mar_LoginToken cc \<lparr>tr_SessionToken = tok\<rparr>) ErrCodeInvalidToken sv = Some (resp, sv')
            \<and> sv_backend sv' = sv_backend sv \<and> sv_registry sv' = sv_registry sv"
      by (fastforce intro!: sends_status simp: HandleUserLoginByToken_def SendCode_def Let_def)
  }
qed

section \<open>The authentication flow\<close>

text \<open>
  What a new account needs: the stores answer to every request, the name is valid and free,
  the identifier PostgreSQL draws is new, and there is room for two more token numbers.
\<close>

definition ready :: "outside \<Rightarrow> string \<Rightarrow> backend \<Rightarrow> bool" where
  "ready w0 n b \<longleftrightarrow> backend_up w0 b \<and> (\<forall>c. cache_of b = Some c \<longrightarrow> cache_client c \<noteq> None)
     \<and> ValidUsername n \<and> n \<notin> u_Username ` set (users (b_tables b)) \<and> (cache_of b = None \<or> n \<notin> cached_names (b_redis b))
     \<and> lookup_by u_ID (new_uuid w0) (users (b_tables b)) = None \<and> good_id (new_uuid w0) \<and> uuid_text w0 (new_uuid w0) = Some (new_uuid w0)
     \<and> rand_salt w0 \<noteq> None \<and> argon2_key_length (argon2_IDKey w0) \<and> token_seq (b_tables b) + 3 < max_bigint"

text \<open>Requests draw tokens with hashes that are new and differ from each other.\<close>

definition fresh_tokens :: "outside list \<Rightarrow> string list \<Rightarrow> backend \<Rightarrow> bool" where
  "fresh_tokens ws toks b \<longleftrightarrow> map drawn ws = map Some toks \<and> distinct (map hashToken toks)
     \<and> set (map hashToken toks) \<inter> r_TokenHash ` set (tokens (b_tables b)) = {}"

lemma ready_can_register:
  assumes "ready w0 n b" "drawn w0 = Some tok" "hashToken tok \<notin> r_TokenHash ` set (tokens (b_tables b))"
  shows "can_register w0 creds b"
  using assms draws_fresh [OF assms(2) subset_refl assms(3)] by (auto simp: ready_def can_register_def)

text \<open>One request of the owner of an account: what the client sees, and the account afterwards.\<close>

lemma step_register:
  assumes proto: "proto_ok cc cd" and short: "list_all short_text [d, u, p, i, n']" and w0: "tn_outside t = w0"
    and ready: "ready w0 n (sv_backend sv)" and name: "NormalizeUsername (lower_table w0) u = n"
    and pw: "TrimSpace p \<noteq> ''''" and dev: "TrimSpace i = i" "i \<noteq> ''''"
    and draw: "drawn w0 = Some tok" "hashToken tok \<notin> r_TokenHash ` set (tokens (b_tables (sv_backend sv)))"
  obtains resp sv' user where "expect cc cd a t ''auth.register'' (mar_Register cc \<lparr>rr_DisplayName = d,
      rr_Username = u, rr_Password = p, rr_DeviceId = i, rr_DeviceName = n'\<rparr>) ErrCodeOK sv = Some (resp, sv')"
    "account w0 n p user (insert (hashToken tok) (r_TokenHash ` set (tokens (b_tables (sv_backend sv))))) (token_seq (b_tables (sv_backend sv)) + 1) (sv_backend sv')"
    "pending user (sv_backend sv') = None"
    "\<exists>dn. sv_registry sv' = Authenticate w0 (sv_backend sv') (Some a) (u_ID user) i dn (sv_registry sv)"
proof -
  let ?c = "\<lparr>c_Username = u, c_DisplayName = d, c_Password = p, c_DeviceID = i, c_DeviceName = n'\<rparr>"
  obtain res b user where r: "Register w0 ?c (sv_backend sv) = (Inr res, b)" "a_SessionToken res = tok"
    "account w0 n p user (insert (hashToken tok) (r_TokenHash ` set (tokens (b_tables (sv_backend sv))))) (token_seq (b_tables (sv_backend sv)) + 1) b"
    "pending user b = None" "a_UserID res = u_ID user" "a_DeviceID res = i"
    by (rule account_registered [OF ready_can_register [OF ready draw], where creds = ?c and n = n])
       (use ready name pw dev draw in \<open>auto simp: ready_def\<close>)
  then show thesis
    using flow_register(1) [OF proto short, of t sv res b a] w0 that drawn_short [OF draw(1)] by (auto simp: logs_in_def)
qed

lemma step_taken:
  assumes proto: "proto_ok cc cd" and short: "list_all short_text [d, u, p, i, n']" and w: "same_world w0 (tn_outside t)"
    and acc: "account w0 n pw user S k (sv_backend sv)" and name: "NormalizeUsername (lower_table w0) u = n"
    and pw: "TrimSpace p \<noteq> ''''" and dev: "TrimSpace i = i" "i \<noteq> ''''"
  obtains resp sv' where "expect cc cd a t ''auth.register'' (mar_Register cc \<lparr>rr_DisplayName = d,
      rr_Username = u, rr_Password = p, rr_DeviceId = i, rr_DeviceName = n'\<rparr>) ErrCodeUsernameTaken sv = Some (resp, sv')"
    "sv_backend sv' = sv_backend sv"
proof -
  have "lower_table (tn_outside t) = lower_table w0" using w by (simp add: same_world_def)
  then have "Register (tn_outside t) \<lparr>c_Username = u, c_DisplayName = d, c_Password = p, c_DeviceID = i, c_DeviceName = n'\<rparr> (sv_backend sv)
      = (Inl ErrUsernameTaken, sv_backend sv)"
    using name pw dev by (intro account_taken [OF acc w]) simp_all
  then show thesis using flow_register(2) [OF proto short, of t sv a] that by auto
qed

lemma step_login:
  assumes proto: "proto_ok cc cd" and short: "list_all short_text [u, p, i, n']" and w: "same_world w0 (tn_outside t)"
    and acc: "account w0 n p user S k (sv_backend sv)" "pending user (sv_backend sv) = None" and name: "NormalizeUsername (lower_table w0) u = n"
    and dev: "TrimSpace i = i" "i \<noteq> ''''" and draw: "drawn (tn_outside t) = Some tok" "hashToken tok \<notin> S" and k: "k + 1 < max_bigint"
  obtains resp sv' where "expect cc cd a t ''auth.login.credentials'' (mar_LoginCredentials cc \<lparr>lr_Username = u,
      lr_Password = p, lr_DeviceId = i, lr_DeviceName = n'\<rparr>) ErrCodeOK sv = Some (resp, sv')" "parseAuthResponse cc resp = Some tok"
    "account w0 n p user (insert (hashToken tok) S) (k + 1) (sv_backend sv')" "pending user (sv_backend sv') = None" "opens user tok (sv_backend sv')"
    "\<exists>dn. sv_registry sv' = Authenticate (tn_outside t) (sv_backend sv') (Some a) (u_ID user) i dn (sv_registry sv)"
proof -
  let ?c = "\<lparr>c_Username = u, c_DisplayName = '''', c_Password = p, c_DeviceID = i, c_DeviceName = n'\<rparr>"
  have "lower_table (tn_outside t) = lower_table w0" using w by (simp add: same_world_def)
  then obtain res b where r: "LoginByCredentials (tn_outside t) ?c (sv_backend sv) = (Inr res, b)" "a_SessionToken res = tok" "a_UserID res = u_ID user"
    "a_DeviceID res = i" "account w0 n p user (insert (hashToken tok) S) (k + 1) b" "pending user b = None" "opens user tok b"
    by (rule_tac account_login [OF acc(1) w acc(2) _ _ _ draw k, where creds = ?c]) (use name dev in auto)
  then show thesis using flow_login(1) [OF proto short, of t sv res b a] that drawn_short [OF draw(1)] by (auto simp: logs_in_def)
qed

lemma step_login_pending:
  assumes proto: "proto_ok cc cd" and short: "list_all short_text [u, p, i, n']" and w: "same_world w0 (tn_outside t)"
    and acc: "account w0 n p user S k (sv_backend sv)" "pending user (sv_backend sv) \<noteq> None" and name: "NormalizeUsername (lower_table w0) u = n"
    and dev: "TrimSpace i = i" "i \<noteq> ''''"
  obtains resp sv' where "expect cc cd a t ''auth.login.credentials'' (mar_LoginCredentials cc \<lparr>lr_Username = u,
      lr_Password = p, lr_DeviceId = i, lr_DeviceName = n'\<rparr>) ErrCodeForbidden sv = Some (resp, sv')"
    "rs_Message resp = ''account pending deletion''" "sv_backend sv' = sv_backend sv"
proof -
  have "lower_table (tn_outside t) = lower_table w0" using w by (simp add: same_world_def)
  then have "LoginByCredentials (tn_outside t) \<lparr>c_Username = u, c_DisplayName = '''', c_Password = p, c_DeviceID = i, c_DeviceName = n'\<rparr> (sv_backend sv)
      = (Inl ErrAccountPendingDeletion, sv_backend sv)"
    using name dev by (intro account_login_pending [OF acc(1) w acc(2)]) simp_all
  then show thesis using flow_login(2) [OF proto short, of t sv a] that by auto
qed

lemma step_token:
  assumes proto: "proto_ok cc cd" and w: "same_world w0 (tn_outside t)" and short: "short_text tok"
    and acc: "account w0 n p user S k (sv_backend sv)" "pending user (sv_backend sv) = None" "opens user tok (sv_backend sv)"
    and draw: "drawn (tn_outside t) = Some new" "hashToken new \<notin> S" and k: "k < max_bigint"
  obtains resp sv' where "expect cc cd a t ''auth.login.token'' (mar_LoginToken cc \<lparr>tr_SessionToken = tok\<rparr>) ErrCodeOK sv = Some (resp, sv')"
    "parseAuthResponse cc resp = Some new" "account w0 n p user (insert (hashToken new) S) k (sv_backend sv')" "pending user (sv_backend sv') = None"
    "opens user new (sv_backend sv')" "lookup_by r_TokenHash (hashToken tok) (tokens (b_tables (sv_backend sv'))) = None"
proof -
  obtain res b where "LoginByToken (tn_outside t) tok (sv_backend sv) = (Inr res, b)" "a_SessionToken res = new"
    "account w0 n p user (insert (hashToken new) S) k b" "pending user b = None" "opens user new b"
    "lookup_by r_TokenHash (hashToken tok) (tokens (b_tables b)) = None"
    by (rule account_token [OF acc(1) w acc(2,3) draw k])
  then show thesis using flow_token(1) [OF proto short, of t sv res b a] that drawn_short [OF draw(1)] by (auto simp: logs_in_def)
qed

lemma step_token_dead:
  assumes proto: "proto_ok cc cd" and w: "same_world w0 (tn_outside t)" and short: "short_text tok"
    and acc: "account w0 n p user S k (sv_backend sv)" and tok: "TrimSpace tok = tok" "tok \<noteq> ''''"
    and dead: "lookup_by r_TokenHash (hashToken tok) (tokens (b_tables (sv_backend sv))) = None"
  obtains resp sv' where "expect cc cd a t ''auth.login.token'' (mar_LoginToken cc \<lparr>tr_SessionToken = tok\<rparr>) ErrCodeInvalidToken sv = Some (resp, sv')"
    "sv_backend sv' = sv_backend sv"
  using flow_token(2) [OF proto short account_token_dead [OF acc w tok dead], of a] by blast

lemma test_texts: "short_text test_password" "TrimSpace test_password \<noteq> ''''"
  "list_all short_text [''Auth Flow'', ''Auth Flow Two'', ''auth_dev_1'', ''auth_dev_2'', ''auth-device-1'', ''auth-device-2'']"
  "TrimSpace ''auth_dev_1'' = ''auth_dev_1''" "TrimSpace ''auth_dev_2'' = ''auth_dev_2''"
  by code_simp+

text \<open>The part of the flow after logging in with the password: a token works once, its successor works.\<close>

lemma tokens_work_once:
  assumes proto: "proto_ok cc cd" and w: "same_world w0 (tn_outside u1)" "same_world w0 (tn_outside u2)" "same_world w0 (tn_outside u3)"
    and acc: "account w0 n p user S k (sv_backend sv)" "pending user (sv_backend sv) = None" "opens user t1 (sv_backend sv)" and k: "k < max_bigint"
    and short: "short_text t1" and draw: "drawn (tn_outside u1) = Some t2" "drawn (tn_outside u3) = Some t3"
    and new: "hashToken t2 \<notin> S" "hashToken t3 \<notin> insert (hashToken t2) S"
  obtains resp4 sv4 resp5 sv5 resp6 sv6 where
    "expect cc cd a u1 ''auth.login.token'' (mar_LoginToken cc \<lparr>tr_SessionToken = t1\<rparr>) ErrCodeOK sv = Some (resp4, sv4)"
    "parseAuthResponse cc resp4 = Some t2"
    "expect cc cd a u2 ''auth.login.token'' (mar_LoginToken cc \<lparr>tr_SessionToken = t1\<rparr>) ErrCodeInvalidToken sv4 = Some (resp5, sv5)"
    "expect cc cd a u3 ''auth.login.token'' (mar_LoginToken cc \<lparr>tr_SessionToken = t2\<rparr>) ErrCodeOK sv5 = Some (resp6, sv6)"
proof -
  obtain resp4 sv4 where s4: "expect cc cd a u1 ''auth.login.token'' (mar_LoginToken cc \<lparr>tr_SessionToken = t1\<rparr>) ErrCodeOK sv = Some (resp4, sv4)"
    "parseAuthResponse cc resp4 = Some t2"
    and acc4: "account w0 n p user (insert (hashToken t2) S) k (sv_backend sv4)" "pending user (sv_backend sv4) = None"
      "opens user t2 (sv_backend sv4)" "lookup_by r_TokenHash (hashToken t1) (tokens (b_tables (sv_backend sv4))) = None"
    by (rule step_token [where a = a, OF proto w(1) short acc draw(1) new(1) k])
  have t1: "TrimSpace t1 = t1" "t1 \<noteq> ''''" using acc(3) by (simp_all add: opens_def)
  obtain resp5 sv5 where s5: "expect cc cd a u2 ''auth.login.token'' (mar_LoginToken cc \<lparr>tr_SessionToken = t1\<rparr>) ErrCodeInvalidToken sv4 = Some (resp5, sv5)"
    "sv_backend sv5 = sv_backend sv4" by (rule step_token_dead [where a = a, OF proto w(2) short acc4(1) t1 acc4(4)])
  obtain resp6 sv6 where s6: "expect cc cd a u3 ''auth.login.token'' (mar_LoginToken cc \<lparr>tr_SessionToken = t2\<rparr>) ErrCodeOK sv5 = Some (resp6, sv6)"
    by (rule step_token [where a = a, OF proto w(3) drawn_short [OF draw(1)] acc4(1-3) [folded s5(2)] draw(2) new(2) k])
  show thesis by (rule that [OF s4 s5(1) s6])
qed

lemma connect_keeps: "connectTestClient uid conn sv = (a, sv1) \<Longrightarrow> sv_backend sv1 = sv_backend sv"
  by (auto simp: connectTestClient_def begin_connection_def Let_def split: prod.splits)

text \<open>
  C3. The authentication flow, as a client sees it, for any account. On one connection the
  client registers a name that is free; registering it again is answered \<open>UsernameTaken\<close>;
  logging in with the password is answered with a token; the token logs in once and is answered
  with another; presented again it is answered \<open>InvalidToken\<close>; the other one logs in. All this
  from bytes to bytes: client framing, envelopes, router, handlers, account service, SQL, in
  whatever pieces the streams deliver, as long as the stores answer, random tokens do not
  repeat and protobuf returns what was sent.
\<close>

theorem TestAuthFlows_passes:
  assumes proto: "proto_ok cc cd" and name: "NormalizeUsername (lower_table (tn_outside (t 0))) username = n" "short_text username"
    and ready: "ready (tn_outside (t 0)) n (sv_backend sv)" and world: "\<forall>i<6. same_world (tn_outside (t 0)) (tn_outside (t i))"
    and fresh: "fresh_tokens (map (\<lambda>i. tn_outside (t i)) [0, 2, 3, 5]) [t0, t1, t2, t3] (sv_backend sv)"
  shows "\<exists>sv'. TestAuthFlows cc cd t username sv = Some sv'"
proof -
  let ?w = "\<lambda>i. tn_outside (t i)"
  obtain a sv0 where a: "connectTestClient ''c1'' 1 sv = (a, sv0)" by (meson surj_pair)
  have b0: "sv_backend sv0 = sv_backend sv" by (rule connect_keeps [OF a])
  let ?S0 = "r_TokenHash ` set (tokens (b_tables (sv_backend sv)))" and ?k = "token_seq (b_tables (sv_backend sv)) + 1"
  have draw: "drawn (?w 0) = Some t0" "drawn (?w 2) = Some t1" "drawn (?w 3) = Some t2" "drawn (?w 5) = Some t3"
    and new: "hashToken t0 \<notin> ?S0" "hashToken t1 \<notin> insert (hashToken t0) ?S0"
      "hashToken t2 \<notin> insert (hashToken t1) (insert (hashToken t0) ?S0)"
      "hashToken t3 \<notin> insert (hashToken t2) (insert (hashToken t1) (insert (hashToken t0) ?S0))"
    using fresh by (auto simp: fresh_tokens_def)
  have w: "same_world (?w 0) (?w 1)" "same_world (?w 0) (?w 2)" "same_world (?w 0) (?w 3)" "same_world (?w 0) (?w 4)" "same_world (?w 0) (?w 5)"
    using world by simp_all
  have k: "?k + 1 < max_bigint" using ready by (auto simp: ready_def)
  have texts: "list_all short_text [''Auth Flow'', username, test_password, ''auth_dev_1'', ''auth-device-1'']"
    "list_all short_text [''Auth Flow Two'', username, test_password, ''auth_dev_2'', ''auth-device-2'']"
    "list_all short_text [username, test_password, ''auth_dev_1'', ''auth-device-1'']" using test_texts name(2) by simp_all
  note dev1 = test_texts(4) list.distinct(2) and dev2 = test_texts(5) list.distinct(2)
  obtain resp1 sv1 user where s1: "expect cc cd a (t 0) ''auth.register'' (mar_Register cc \<lparr>rr_DisplayName = ''Auth Flow'',
      rr_Username = username, rr_Password = test_password, rr_DeviceId = ''auth_dev_1'', rr_DeviceName = ''auth-device-1''\<rparr>) ErrCodeOK sv0 = Some (resp1, sv1)"
    and acc1: "account (?w 0) n test_password user (insert (hashToken t0) ?S0) ?k (sv_backend sv1)" "pending user (sv_backend sv1) = None"
    by (rule step_register [where a = a, OF proto texts(1) refl _ name(1) test_texts(2) dev1 draw(1), of sv0]) (use ready new(1) b0 in auto)
  obtain resp2 sv2 where s2: "expect cc cd a (t 1) ''auth.register'' (mar_Register cc \<lparr>rr_DisplayName = ''Auth Flow Two'',
      rr_Username = username, rr_Password = test_password, rr_DeviceId = ''auth_dev_2'', rr_DeviceName = ''auth-device-2''\<rparr>) ErrCodeUsernameTaken sv1 = Some (resp2, sv2)"
    "sv_backend sv2 = sv_backend sv1"
    by (rule step_taken [where a = a, OF proto texts(2) w(1) acc1(1) name(1) test_texts(2) dev2]) simp_all
  obtain resp3 sv3 where s3: "expect cc cd a (t 2) ''auth.login.credentials'' (mar_LoginCredentials cc \<lparr>lr_Username = username,
      lr_Password = test_password, lr_DeviceId = ''auth_dev_1'', lr_DeviceName = ''auth-device-1''\<rparr>) ErrCodeOK sv2 = Some (resp3, sv3)"
    "parseAuthResponse cc resp3 = Some t1"
    and acc3: "account (?w 0) n test_password user (insert (hashToken t1) (insert (hashToken t0) ?S0)) (?k + 1) (sv_backend sv3)"
      "pending user (sv_backend sv3) = None" "opens user t1 (sv_backend sv3)"
    by (rule step_login [where a = a, OF proto texts(3) w(2) acc1 [folded s2(2)] name(1) dev1 draw(2) new(2) k]) simp_all
  obtain resp4 sv4 resp5 sv5 resp6 sv6 where s4:
    "expect cc cd a (t 3) ''auth.login.token'' (mar_LoginToken cc \<lparr>tr_SessionToken = t1\<rparr>) ErrCodeOK sv3 = Some (resp4, sv4)"
    "parseAuthResponse cc resp4 = Some t2"
    "expect cc cd a (t 4) ''auth.login.token'' (mar_LoginToken cc \<lparr>tr_SessionToken = t1\<rparr>) ErrCodeInvalidToken sv4 = Some (resp5, sv5)"
    "expect cc cd a (t 5) ''auth.login.token'' (mar_LoginToken cc \<lparr>tr_SessionToken = t2\<rparr>) ErrCodeOK sv5 = Some (resp6, sv6)"
    by (rule tokens_work_once [where a = a, OF proto w(3-5) acc3 k drawn_short [OF draw(2)] draw(3,4) new(3,4)])
  show ?thesis using a s1 s2(1) s3(1,2) s4 by (simp add: TestAuthFlows_def)
qed


section \<open>The deletion flow\<close>

definition TestAccountDeletionFlow :: "client_codec \<Rightarrow> codec \<Rightarrow> (nat \<Rightarrow> turn) \<Rightarrow> string \<Rightarrow> server \<Rightarrow> server option" where
  "TestAccountDeletionFlow cc cd t username sv =
     (let (registerClient, sv) = connectTestClient ''c1'' 1 sv in
      do {
        (registerResp, sv) \<leftarrow> expect cc cd registerClient (t 0) ''auth.register'' (mar_Register cc \<lparr>rr_DisplayName = ''Acc Del'',
           rr_Username = username, rr_Password = test_password, rr_DeviceId = ''accdel_reg'', rr_DeviceName = ''accdel-register''\<rparr>) ErrCodeOK sv;
        let (loginClient, sv) = connectTestClient ''c2'' 2 sv;
        (loginResp, sv) \<leftarrow> expect cc cd loginClient (t 1) ''auth.login.credentials'' (mar_LoginCredentials cc \<lparr>lr_Username = username,
           lr_Password = test_password, lr_DeviceId = ''accdel_dev_1'', lr_DeviceName = ''accdel-device-1''\<rparr>) ErrCodeOK sv;
        (delResp, sv) \<leftarrow> expect cc cd loginClient (t 2) ''account.delete'' (mar_DeleteRequest cc \<lparr>dr_Username = username, dr_Password = test_password\<rparr>) ErrCodeOK sv;
        (resp, sv) \<leftarrow> expect cc cd loginClient (t 3) ''account.delete'' (mar_DeleteRequest cc \<lparr>dr_Username = username, dr_Password = test_password\<rparr>) ErrCodeUnauthorized sv;
        let (postDeleteConn, sv) = connectTestClient ''c3'' 3 sv;
        (postDeleteLoginResp, sv) \<leftarrow> expect cc cd postDeleteConn (t 4) ''auth.login.credentials'' (mar_LoginCredentials cc \<lparr>lr_Username = username,
           lr_Password = test_password, lr_DeviceId = ''accdel_after_delete'', lr_DeviceName = ''accdel-after-delete''\<rparr>) ErrCodeForbidden sv;
        (if rs_Message postDeleteLoginResp \<noteq> ''account pending deletion'' then None else Some ());
        let (cancelConn, sv) = connectTestClient ''c4'' 4 sv;
        (cancelResp, sv) \<leftarrow> expect cc cd cancelConn (t 5) ''account.delete.cancel'' (mar_DeleteCancel cc \<lparr>cr_Username = username, cr_Password = test_password\<rparr>) ErrCodeOK sv;
        let (postCancelConn, sv) = connectTestClient ''c5'' 5 sv;
        (postCancelResp, sv) \<leftarrow> expect cc cd postCancelConn (t 6) ''auth.login.credentials'' (mar_LoginCredentials cc \<lparr>lr_Username = username,
           lr_Password = test_password, lr_DeviceId = ''accdel_after_cancel'', lr_DeviceName = ''accdel-after-cancel''\<rparr>) ErrCodeOK sv;
        Some sv
      })"

text \<open>A session that is logged in as a user and registered for that user.\<close>

definition in_session :: "nat \<Rightarrow> User \<Rightarrow> registry \<Rightarrow> bool" where
  "in_session a user g \<longleftrightarrow> registry_ok g \<and> IsAuthenticated (Some a) g \<and> session_UserID (Some a) g = u_ID user \<and> a \<in> registered g (u_ID user)"

lemma connected:
  assumes "connectTestClient uid conn sv = (a, sv')" "registry_ok (sv_registry sv)"
  shows "registry_ok (sv_registry sv')" "sessions (sv_registry sv') a \<noteq> None"
  using assms ok_new [of "sv_registry sv" "Some conn"]
  by (auto simp: connectTestClient_def begin_connection_def Let_def conn_ID_def SetID_def NewDeviceSession_def put_session_def make_chan_def
      split: prod.splits if_splits)

lemma account_user:
  assumes "account w0 n p user S k b" "same_world w0 w"
  shows "good_id (u_ID user)" "uuid_text w (u_ID user) = Some (u_ID user)" "db_live w" "defaultDB (b_db b) \<noteq> None"
    "fst (GetUserByID w (u_ID user) (b_tables b)) = Inr user"
proof -
  have l: "lookup_by u_Username n (users (b_tables b)) = Some user" "backend_up w b"
    using assms up_same by (auto simp: account_def)
  have m: "user \<in> set (users (b_tables b))" using lookup_by_SomeD [OF l(1)] by simp
  then show id: "good_id (u_ID user)" "uuid_text w (u_ID user) = Some (u_ID user)" "db_live w" "defaultDB (b_db b) \<noteq> None"
    using l(2) by (auto simp: backend_up_def ids_canonical_def)
  have "lookup_by u_ID (u_ID user) (users (b_tables b)) = Some user"
    using l(2) m by (intro lookup_by_unique) (auto simp: backend_up_def db_wf_def)
  then show "fst (GetUserByID w (u_ID user) (b_tables b)) = Inr user"
    using GetUserByID_live [OF id(3) _ id(2), of "b_tables b"] id(1) by (simp add: good_id_def)
qed

lemma logged_in_session:
  assumes "account w0 n p user S k b" "same_world w0 w" "registry_ok g" "sessions g a \<noteq> None" "TrimSpace i = i" "i \<noteq> ''''"
    and g': "\<exists>dn. g' = Authenticate w b (Some a) (u_ID user) i dn g"
  shows "in_session a user g'"
proof -
  note u = account_user [OF assms(1,2)]
  obtain dn where g: "g' = Authenticate w b (Some a) (u_ID user) i dn g" using g' by blast
  have "good_id i" using assms(5,6) by (simp add: good_id_def)
  moreover have "user_known w b g (u_ID user)" using u(4,5) by (auto simp: user_known_def)
  ultimately have "(\<exists>s. sessions g' a = Some s \<and> s_userID s = u_ID user \<and> s_deviceID s = i) \<and> a \<in> registered g' (u_ID user)"
    using logged_in [OF assms(3,4) u(1) _ g] by auto
  moreover have "registry_ok g'" unfolding g by (rule ok_Authenticate [OF assms(3,4)])
  ultimately show ?thesis using u(1) assms(6) by (auto simp: in_session_def IsAuthenticated_def session_UserID_def good_id_def)
qed

lemma sends_delete:
  assumes c: "unm_Delete cd bytes = Inr req" and sess: "in_session a user g" and db: "defaultDB (b_db b) \<noteq> None"
    and ex: "ExistsActiveByUserID w (u_ID user) (b_tables b) = (Inr False, b_tables b)"
    and sch: "ScheduleAccountDeletion w (dr_Username req) (dr_Password req) b = (Inr ts, b')"
    and body: "mar_Delete cd \<lparr>dr_Timestamp = ts\<rparr> = Inr body"
  shows "handler_sends cd (guarded w cd (HandleAccountDelete w cd)) \<lparr>rc_Request = bytes, rc_Session = Some a\<rparr> b g ErrCodeOK '''' (Some body) b'
    (InvalidateUserSessions (u_ID user) g)"
  unfolding handler_sends_def
proof (intro allI impI)
  fix sv q bs
  assume sv: "stream_of sv = Some q" "open_stream q" "sv_backend sv = b" "sv_registry sv = g" and enc: "encodes cd ErrCodeOK '''' (Some body) bs"
  let ?c = "\<lparr>rc_Request = bytes, rc_Session = Some a\<rparr>" and ?q = "q\<lparr>tx := tx q @ data_frame bs\<rparr>"
  have s: "IsAuthenticated (Some a) g" "session_UserID (Some a) g = u_ID user" using sess by (simp_all add: in_session_def)
  have "guarded w cd (HandleAccountDelete w cd) ?c sv = HandleAccountDelete w cd ?c sv"
    using s db ex sv(3,4) by (auto simp: guarded_def DefaultDB_def)
  moreover have "stream_of (sv\<lparr>sv_backend := b'\<rparr>) = Some q" using sv(1) by simp
  from SendResponse_open [OF this sv(2) enc, of "Some (Inr body)"] have
    "HandleAccountDelete w cd ?c sv = (None, put_stream ?q (sv\<lparr>sv_backend := b', sv_registry := InvalidateUserSessions (u_ID user) g\<rparr>))"
    using c sch body s(2) sv(3,4) by (simp add: HandleAccountDelete_def rc_Send_def) (cases sv, simp add: put_stream_def)
  ultimately show "guarded w cd (HandleAccountDelete w cd) ?c sv =
    (None, put_stream ?q (sv\<lparr>sv_backend := b', sv_registry := InvalidateUserSessions (u_ID user) g\<rparr>))" by simp
qed

lemma step_delete:
  assumes proto: "proto_ok cc cd" and short: "list_all short_text [u, p]" and w: "same_world w0 (tn_outside t)"
    and acc: "account w0 n p user S k (sv_backend sv)" "pending user (sv_backend sv) = None" and name: "NormalizeUsername (lower_table w0) u = n"
    and sess: "in_session a user (sv_registry sv)" and now: "go_now (tn_outside t) + AccountDeletionDelay \<noteq> zero_time" and k: "k < max_bigint"
  obtains resp sv' d where "expect cc cd a t ''account.delete'' (mar_DeleteRequest cc \<lparr>dr_Username = u, dr_Password = p\<rparr>) ErrCodeOK sv = Some (resp, sv')"
    "account w0 n p user S k (sv_backend sv')" "pending user (sv_backend sv') = Some d" "p_StartedAt d = None"
    "registry_ok (sv_registry sv')" "\<not> IsAuthenticated (Some a) (sv_registry sv')"
proof -
  let ?w = "tn_outside t" and ?b = "sv_backend sv" and ?g = "sv_registry sv"
  note user = account_user [OF acc(1) w]
  have "lower_table ?w = lower_table w0" using w by (simp add: same_world_def)
  then obtain ts b' d where sch: "ScheduleAccountDeletion ?w u p ?b = (Inr ts, b')" "account w0 n p user S k b'" "pending user b' = Some d" "p_StartedAt d = None"
    by (rule_tac account_schedule [OF acc(1) w _ now k, where nm = u]) (use name in auto)
  have ex: "ExistsActiveByUserID ?w (u_ID user) (b_tables ?b) = (Inr False, b_tables ?b)"
    using ExistsActiveByUserID_live [OF user(3,1,2)] acc(2) by (simp add: pending_def)
  obtain body where body: "mar_Delete cd \<lparr>dr_Timestamp = ts\<rparr> = Inr body" "returns cc cd ErrCodeOK '''' (Some body)"
    using proto unfolding proto_ok_def by blast
  have m: "message_travels cc cd ''account.delete'' (mar_DeleteRequest cc) (unm_Delete cd) \<lparr>dr_Username = u, dr_Password = p\<rparr>"
    using proto short unfolding proto_ok_def by blast
  have "\<exists>sv'. expect cc cd a t ''account.delete'' (mar_DeleteRequest cc \<lparr>dr_Username = u, dr_Password = p\<rparr>) ErrCodeOK sv
      = Some (\<lparr>rs_StatusCode = status_value ErrCodeOK, rs_Message = '''', rs_Response = Some body\<rparr>, sv')
      \<and> sv_backend sv' = b' \<and> sv_registry sv' = InvalidateUserSessions (u_ID user) ?g"
    using sch(1) by (intro expect_reply [OF m op_trim(4) delete_op _ body(2)]) (simp add: sends_delete [OF _ sess user(4) ex _ body(1)])
  moreover have "registry_ok (InvalidateUserSessions (u_ID user) ?g)" "\<not> IsAuthenticated (Some a) (InvalidateUserSessions (u_ID user) ?g)"
    using sess user(1) invalidated [of ?g "u_ID user", OF _ _ refl] ok_Invalidate [of ?g "u_ID user"] by (auto simp: in_session_def good_id_def)
  ultimately show thesis using that sch(2-4) by auto
qed

lemma same_backend: "sv_backend sv = b \<Longrightarrow> sv\<lparr>sv_backend := b\<rparr> = sv"
  by simp

lemma step_delete_refused:
  assumes proto: "proto_ok cc cd" and short: "list_all short_text [u, p]" and "\<not> IsAuthenticated (Some a) (sv_registry sv)"
  obtains resp sv' where "expect cc cd a t ''account.delete'' (mar_DeleteRequest cc \<lparr>dr_Username = u, dr_Password = p\<rparr>) ErrCodeUnauthorized sv = Some (resp, sv')"
    "sv_backend sv' = sv_backend sv" "sv_registry sv' = sv_registry sv"
proof -
  have m: "message_travels cc cd ''account.delete'' (mar_DeleteRequest cc) (unm_Delete cd) \<lparr>dr_Username = u, dr_Password = p\<rparr>"
    using proto short unfolding proto_ok_def by blast
  have r: "returns cc cd ErrCodeUnauthorized '''' None" using proto by (simp add: proto_ok_def)
  have "\<exists>sv'. expect cc cd a t ''account.delete'' (mar_DeleteRequest cc \<lparr>dr_Username = u, dr_Password = p\<rparr>) ErrCodeUnauthorized sv
      = Some (\<lparr>rs_StatusCode = status_value ErrCodeUnauthorized, rs_Message = '''', rs_Response = None\<rparr>, sv')
      \<and> sv_backend sv' = sv_backend sv \<and> sv_registry sv' = sv_registry sv"
    using assms(3) by (intro expect_reply [OF m op_trim(4) delete_op _ r]) (auto intro!: sends_status simp: guarded_def same_backend)
  then show thesis using that by blast
qed

lemma cancel_op: "''account.delete.cancel'' \<noteq> ''''" "isDotRoute ''account.delete.cancel''"
  "map_of (main_routes w cd) ''account.delete.cancel'' = Some ([], HandleAccountDeleteCancel w cd)"
  using main_names by (simp_all add: main_routes_def)

lemma step_cancel:
  assumes proto: "proto_ok cc cd" and short: "list_all short_text [u, p]" and w: "same_world w0 (tn_outside t)"
    and acc: "account w0 n p user S k (sv_backend sv)" "pending user (sv_backend sv) = Some d" "p_StartedAt d = None"
    and name: "NormalizeUsername (lower_table w0) u = n" and k: "k < max_bigint"
  obtains resp sv' where "expect cc cd a t ''account.delete.cancel'' (mar_DeleteCancel cc \<lparr>cr_Username = u, cr_Password = p\<rparr>) ErrCodeOK sv = Some (resp, sv')"
    "account w0 n p user S k (sv_backend sv')" "pending user (sv_backend sv') = None" "sv_registry sv' = sv_registry sv"
proof -
  let ?w = "tn_outside t"
  have "lower_table ?w = lower_table w0" using w by (simp add: same_world_def)
  then obtain b' where can: "CancelAccountDeletion ?w u p (sv_backend sv) = (Inr (), b')" "account w0 n p user S k b'" "pending user b' = None"
    by (rule_tac account_cancel [OF acc(1) w _ acc(2,3) k, where nm = u]) (use name in auto)
  have m: "message_travels cc cd ''account.delete.cancel'' (mar_DeleteCancel cc) (unm_DeleteCancel cd) \<lparr>cr_Username = u, cr_Password = p\<rparr>"
    using proto short unfolding proto_ok_def by blast
  have r: "returns cc cd ErrCodeOK '''' None" using proto by (simp add: proto_ok_def)
  have "\<exists>sv'. expect cc cd a t ''account.delete.cancel'' (mar_DeleteCancel cc \<lparr>cr_Username = u, cr_Password = p\<rparr>) ErrCodeOK sv
      = Some (\<lparr>rs_StatusCode = status_value ErrCodeOK, rs_Message = '''', rs_Response = None\<rparr>, sv')
      \<and> sv_backend sv' = b' \<and> sv_registry sv' = sv_registry sv"
    using can(1) by (intro expect_reply [OF m op_trim(5) cancel_op _ r])
      (auto intro!: sends_status simp: HandleAccountDeleteCancel_def SendCode_def Let_def)
  then show thesis using that can(2,3) by blast
qed

lemma deletion_texts:
  "list_all short_text [''Acc Del'', ''accdel_reg'', ''accdel-register'', ''accdel_dev_1'', ''accdel-device-1'', ''accdel_after_delete'',
     ''accdel-after-delete'', ''accdel_after_cancel'', ''accdel-after-cancel'']"
  "TrimSpace ''accdel_reg'' = ''accdel_reg''" "TrimSpace ''accdel_dev_1'' = ''accdel_dev_1''"
  "TrimSpace ''accdel_after_delete'' = ''accdel_after_delete''" "TrimSpace ''accdel_after_cancel'' = ''accdel_after_cancel''"
  by code_simp+

text \<open>The three parts of the flow: an account is opened and its owner logged in; deletion cuts the owner off and is cancelled.\<close>

lemma owner_arrives:
  assumes proto: "proto_ok cc cd" and name: "NormalizeUsername (lower_table (tn_outside u0)) username = n" "short_text username"
    and ready: "ready (tn_outside u0) n (sv_backend sv)" "registry_ok (sv_registry sv)"
    and w: "same_world (tn_outside u0) (tn_outside u0)" "same_world (tn_outside u0) (tn_outside u1)"
    and draw: "drawn (tn_outside u0) = Some t0" "drawn (tn_outside u1) = Some t1"
    and new: "hashToken t0 \<notin> S" "hashToken t1 \<notin> insert (hashToken t0) S" and S: "S = r_TokenHash ` set (tokens (b_tables (sv_backend sv)))"
  obtains a1 s0 r1 s1 a2 s1' r2 s2 user where "connectTestClient ''c1'' 1 sv = (a1, s0)"
    "expect cc cd a1 u0 ''auth.register'' (mar_Register cc \<lparr>rr_DisplayName = ''Acc Del'',
      rr_Username = username, rr_Password = test_password, rr_DeviceId = ''accdel_reg'', rr_DeviceName = ''accdel-register''\<rparr>) ErrCodeOK s0 = Some (r1, s1)"
    "connectTestClient ''c2'' 2 s1 = (a2, s1')"
    "expect cc cd a2 u1 ''auth.login.credentials'' (mar_LoginCredentials cc \<lparr>lr_Username = username,
      lr_Password = test_password, lr_DeviceId = ''accdel_dev_1'', lr_DeviceName = ''accdel-device-1''\<rparr>) ErrCodeOK s1' = Some (r2, s2)"
    "account (tn_outside u0) n test_password user (insert (hashToken t1) (insert (hashToken t0) S)) (token_seq (b_tables (sv_backend sv)) + 2) (sv_backend s2)"
    "pending user (sv_backend s2) = None" "in_session a2 user (sv_registry s2)"
proof -
  let ?k = "token_seq (b_tables (sv_backend sv)) + 1"
  have k: "?k + 1 < max_bigint" using ready(1) by (auto simp: ready_def)
  have texts: "list_all short_text [''Acc Del'', username, test_password, ''accdel_reg'', ''accdel-register'']"
    "list_all short_text [username, test_password, ''accdel_dev_1'', ''accdel-device-1'']"
    using deletion_texts(1) test_texts(1) name(2) by simp_all
  obtain a1 s0 where c1: "connectTestClient ''c1'' 1 sv = (a1, s0)" by (meson surj_pair)
  note b0 = connect_keeps [OF c1] and g0 = connected [OF c1 ready(2)]
  obtain r1 s1 user where e1: "expect cc cd a1 u0 ''auth.register'' (mar_Register cc \<lparr>rr_DisplayName = ''Acc Del'',
      rr_Username = username, rr_Password = test_password, rr_DeviceId = ''accdel_reg'', rr_DeviceName = ''accdel-register''\<rparr>) ErrCodeOK s0 = Some (r1, s1)"
    and acc1: "account (tn_outside u0) n test_password user (insert (hashToken t0) S) ?k (sv_backend s1)" "pending user (sv_backend s1) = None"
    and reg1: "\<exists>dn. sv_registry s1 = Authenticate (tn_outside u0) (sv_backend s1) (Some a1) (u_ID user) ''accdel_reg'' dn (sv_registry s0)"
    by (rule step_register [where a = a1, OF proto texts(1) refl _ name(1) test_texts(2) deletion_texts(2) list.distinct(2) draw(1), of s0])
       (use ready new(1) b0 S in auto)
  have g1: "registry_ok (sv_registry s1)" using logged_in_session [OF acc1(1) w(1) g0 deletion_texts(2) list.distinct(2) reg1] by (simp add: in_session_def)
  obtain a2 s1' where c2: "connectTestClient ''c2'' 2 s1 = (a2, s1')" by (meson surj_pair)
  note b1 = connect_keeps [OF c2] and g1' = connected [OF c2 g1]
  obtain r2 s2 where e2: "expect cc cd a2 u1 ''auth.login.credentials'' (mar_LoginCredentials cc \<lparr>lr_Username = username,
      lr_Password = test_password, lr_DeviceId = ''accdel_dev_1'', lr_DeviceName = ''accdel-device-1''\<rparr>) ErrCodeOK s1' = Some (r2, s2)"
    and acc2: "account (tn_outside u0) n test_password user (insert (hashToken t1) (insert (hashToken t0) S)) (?k + 1) (sv_backend s2)" "pending user (sv_backend s2) = None"
    and reg2: "\<exists>dn. sv_registry s2 = Authenticate (tn_outside u1) (sv_backend s2) (Some a2) (u_ID user) ''accdel_dev_1'' dn (sv_registry s1')"
    by (rule step_login [where a = a2, OF proto texts(2) w(2) acc1 [folded b1] name(1) deletion_texts(3) list.distinct(2) draw(2) new(2) k])
  have "in_session a2 user (sv_registry s2)" by (rule logged_in_session [OF acc2(1) w(2) g1' deletion_texts(3) list.distinct(2) reg2])
  then show thesis using that [OF c1 e1 c2 e2] acc2 by (simp add: add.assoc)
qed

lemma deletion_cuts_off:
  assumes proto: "proto_ok cc cd" and name: "NormalizeUsername (lower_table w0) username = n" "short_text username"
    and w: "same_world w0 (tn_outside u2)" "same_world w0 (tn_outside u4)" and now: "go_now (tn_outside u2) + AccountDeletionDelay \<noteq> zero_time"
    and acc: "account w0 n test_password user S k (sv_backend s2)" "pending user (sv_backend s2) = None"
    and sess: "in_session a2 user (sv_registry s2)" and k: "k < max_bigint"
  obtains r3 s3 r4 s4 a3 s4' r5 s5 d where
    "expect cc cd a2 u2 ''account.delete'' (mar_DeleteRequest cc \<lparr>dr_Username = username, dr_Password = test_password\<rparr>) ErrCodeOK s2 = Some (r3, s3)"
    "expect cc cd a2 u3 ''account.delete'' (mar_DeleteRequest cc \<lparr>dr_Username = username, dr_Password = test_password\<rparr>) ErrCodeUnauthorized s3 = Some (r4, s4)"
    "connectTestClient ''c3'' 3 s4 = (a3, s4')"
    "expect cc cd a3 u4 ''auth.login.credentials'' (mar_LoginCredentials cc \<lparr>lr_Username = username,
      lr_Password = test_password, lr_DeviceId = ''accdel_after_delete'', lr_DeviceName = ''accdel-after-delete''\<rparr>) ErrCodeForbidden s4' = Some (r5, s5)"
    "rs_Message r5 = ''account pending deletion''"
    "account w0 n test_password user S k (sv_backend s5)" "pending user (sv_backend s5) = Some d" "p_StartedAt d = None"
proof -
  have texts: "list_all short_text [username, test_password]"
    "list_all short_text [username, test_password, ''accdel_after_delete'', ''accdel-after-delete'']"
    using deletion_texts(1) test_texts(1) name(2) by simp_all
  obtain r3 s3 d where e3: "expect cc cd a2 u2 ''account.delete'' (mar_DeleteRequest cc \<lparr>dr_Username = username, dr_Password = test_password\<rparr>) ErrCodeOK s2 = Some (r3, s3)"
    and acc3: "account w0 n test_password user S k (sv_backend s3)" "pending user (sv_backend s3) = Some d" "p_StartedAt d = None"
    and out: "\<not> IsAuthenticated (Some a2) (sv_registry s3)"
    by (rule step_delete [where a = a2, OF proto texts(1) w(1) acc name(1) sess now k])
  obtain r4 s4 where e4: "expect cc cd a2 u3 ''account.delete'' (mar_DeleteRequest cc \<lparr>dr_Username = username, dr_Password = test_password\<rparr>) ErrCodeUnauthorized s3 = Some (r4, s4)"
    "sv_backend s4 = sv_backend s3" by (rule step_delete_refused [OF proto texts(1) out])
  obtain a3 s4' where c3: "connectTestClient ''c3'' 3 s4 = (a3, s4')" by (meson surj_pair)
  have b4: "sv_backend s4' = sv_backend s3" using connect_keeps [OF c3] e4(2) by simp
  have p4: "pending user (sv_backend s4') \<noteq> None" using acc3(2) b4 by simp
  obtain r5 s5 where e5: "expect cc cd a3 u4 ''auth.login.credentials'' (mar_LoginCredentials cc \<lparr>lr_Username = username,
      lr_Password = test_password, lr_DeviceId = ''accdel_after_delete'', lr_DeviceName = ''accdel-after-delete''\<rparr>) ErrCodeForbidden s4' = Some (r5, s5)"
    "rs_Message r5 = ''account pending deletion''" "sv_backend s5 = sv_backend s4'"
    by (rule step_login_pending [where a = a3, OF proto texts(2) w(2) acc3(1) [folded b4] p4 name(1) deletion_texts(4) list.distinct(2)])
  show thesis using that [OF e3 e4(1) c3 e5(1,2)] acc3 e5(3) b4 by simp
qed

text \<open>
  C4. The deletion flow, as a client sees it, for any account. A client registers; on a second
  connection the owner logs in and asks for the deletion of the account, which is granted; the
  same connection is then logged out, so that asking again is answered \<open>Unauthorized\<close>; on a
  third connection logging in is answered \<open>Forbidden\<close> with the message \<open>account pending
  deletion\<close>; a fourth cancels the deletion with the password; on a fifth logging in succeeds
  again. From bytes to bytes and for any chunking, while the stores answer, the worker has not
  started the deletion, random tokens do not repeat and protobuf returns what was sent.
\<close>

theorem TestAccountDeletionFlow_passes:
  assumes proto: "proto_ok cc cd" and name: "NormalizeUsername (lower_table (tn_outside (t 0))) username = n" "short_text username"
    and ready: "ready (tn_outside (t 0)) n (sv_backend sv)" "registry_ok (sv_registry sv)"
    and world: "\<forall>i<7. same_world (tn_outside (t 0)) (tn_outside (t i))" and now: "go_now (tn_outside (t 2)) + AccountDeletionDelay \<noteq> zero_time"
    and fresh: "fresh_tokens (map (\<lambda>i. tn_outside (t i)) [0, 1, 6]) [t0, t1, t2] (sv_backend sv)"
  shows "\<exists>sv'. TestAccountDeletionFlow cc cd t username sv = Some sv'"
proof -
  let ?w = "\<lambda>i. tn_outside (t i)"
  let ?S0 = "r_TokenHash ` set (tokens (b_tables (sv_backend sv)))" and ?k = "token_seq (b_tables (sv_backend sv)) + 2"
  have draw: "drawn (?w 0) = Some t0" "drawn (?w 1) = Some t1" "drawn (?w 6) = Some t2"
    and new: "hashToken t0 \<notin> ?S0" "hashToken t1 \<notin> insert (hashToken t0) ?S0" "hashToken t2 \<notin> insert (hashToken t1) (insert (hashToken t0) ?S0)"
    using fresh by (auto simp: fresh_tokens_def)
  have w: "same_world (?w 0) (?w 0)" "same_world (?w 0) (?w 1)" "same_world (?w 0) (?w 2)" "same_world (?w 0) (?w 4)" "same_world (?w 0) (?w 5)" "same_world (?w 0) (?w 6)"
    using world by simp_all
  have k: "?k < max_bigint" "?k + 1 < max_bigint" using ready(1) by (auto simp: ready_def)
  have texts: "list_all short_text [username, test_password]"
    "list_all short_text [username, test_password, ''accdel_after_cancel'', ''accdel-after-cancel'']"
    using deletion_texts(1) test_texts(1) name(2) by simp_all
  obtain a1 s0 r1 s1 a2 s1' r2 s2 user where part1: "connectTestClient ''c1'' 1 sv = (a1, s0)"
    "expect cc cd a1 (t 0) ''auth.register'' (mar_Register cc \<lparr>rr_DisplayName = ''Acc Del'',
      rr_Username = username, rr_Password = test_password, rr_DeviceId = ''accdel_reg'', rr_DeviceName = ''accdel-register''\<rparr>) ErrCodeOK s0 = Some (r1, s1)"
    "connectTestClient ''c2'' 2 s1 = (a2, s1')"
    "expect cc cd a2 (t 1) ''auth.login.credentials'' (mar_LoginCredentials cc \<lparr>lr_Username = username,
      lr_Password = test_password, lr_DeviceId = ''accdel_dev_1'', lr_DeviceName = ''accdel-device-1''\<rparr>) ErrCodeOK s1' = Some (r2, s2)"
    and acc2: "account (?w 0) n test_password user (insert (hashToken t1) (insert (hashToken t0) ?S0)) ?k (sv_backend s2)"
      "pending user (sv_backend s2) = None" "in_session a2 user (sv_registry s2)"
    by (rule owner_arrives [OF proto name ready w(1,2) draw(1,2) new(1,2) refl])
  obtain r3 s3 r4 s4 a3 s4' r5 s5 d where part2:
    "expect cc cd a2 (t 2) ''account.delete'' (mar_DeleteRequest cc \<lparr>dr_Username = username, dr_Password = test_password\<rparr>) ErrCodeOK s2 = Some (r3, s3)"
    "expect cc cd a2 (t 3) ''account.delete'' (mar_DeleteRequest cc \<lparr>dr_Username = username, dr_Password = test_password\<rparr>) ErrCodeUnauthorized s3 = Some (r4, s4)"
    "connectTestClient ''c3'' 3 s4 = (a3, s4')"
    "expect cc cd a3 (t 4) ''auth.login.credentials'' (mar_LoginCredentials cc \<lparr>lr_Username = username,
      lr_Password = test_password, lr_DeviceId = ''accdel_after_delete'', lr_DeviceName = ''accdel-after-delete''\<rparr>) ErrCodeForbidden s4' = Some (r5, s5)"
    "rs_Message r5 = ''account pending deletion''"
    and acc5: "account (?w 0) n test_password user (insert (hashToken t1) (insert (hashToken t0) ?S0)) ?k (sv_backend s5)"
      "pending user (sv_backend s5) = Some d" "p_StartedAt d = None"
    by (rule deletion_cuts_off [where ?u2.0 = "t 2" and ?u3.0 = "t 3", OF proto name w(3,4) now acc2 k(1)])
  obtain a4 s5' where c4: "connectTestClient ''c4'' 4 s5 = (a4, s5')" by (meson surj_pair)
  obtain r6 s6 where e6: "expect cc cd a4 (t 5) ''account.delete.cancel'' (mar_DeleteCancel cc \<lparr>cr_Username = username, cr_Password = test_password\<rparr>) ErrCodeOK s5' = Some (r6, s6)"
    and acc6: "account (?w 0) n test_password user (insert (hashToken t1) (insert (hashToken t0) ?S0)) ?k (sv_backend s6)" "pending user (sv_backend s6) = None"
    by (rule step_cancel [where a = a4, OF proto texts(1) w(5) acc5 [folded connect_keeps [OF c4]] name(1) k(1)])
  obtain a5 s6' where c5: "connectTestClient ''c5'' 5 s6 = (a5, s6')" by (meson surj_pair)
  obtain r7 s7 where e7: "expect cc cd a5 (t 6) ''auth.login.credentials'' (mar_LoginCredentials cc \<lparr>lr_Username = username,
      lr_Password = test_password, lr_DeviceId = ''accdel_after_cancel'', lr_DeviceName = ''accdel-after-cancel''\<rparr>) ErrCodeOK s6' = Some (r7, s7)"
    by (rule step_login [where a = a5, OF proto texts(2) w(6) acc6 [folded connect_keeps [OF c5]] name(1) deletion_texts(5) list.distinct(2) draw(3) new(3) k(2)])
  show ?thesis using part1 part2 c4 e6 c5 e7 by (simp add: TestAccountDeletionFlow_def)
qed


section \<open>The flows on an empty server\<close>

definition example_turn :: "nat \<Rightarrow> turn" where
  "example_turn k = \<lparr>tn_outside = quiet_outside\<lparr>rand_token := Some (\<lambda>_. word_of_nat k)\<rparr>, tn_pieces = [0, 2], tn_answer = [4]\<rparr>"

definition empty_server :: server where
  "empty_server = demo_server new_backend empty_registry fresh_stream"

lemma example_drawn: "drawn (tn_outside (example_turn k)) = Some (example_token k)"
proof -
  have "map (\<lambda>_. word_of_nat k :: byte) [0..<32] = replicate 32 (word_of_nat k)" by (simp add: map_replicate_const)
  then show ?thesis by (simp add: drawn_def generateSessionTokenPair_def example_turn_def example_token_def Let_def)
qed

lemma example_live: "db_live (tn_outside (example_turn k))" "redis_live (tn_outside (example_turn k))"
  by (auto simp: db_live_def redis_live_def example_turn_def quiet_outside_def)

lemma example_world: "same_world (tn_outside (example_turn j)) (tn_outside (example_turn k))"
  using example_live by (simp add: same_world_def example_turn_def)

lemma example_ready: "ready (tn_outside (example_turn k)) ''alice'' (sv_backend empty_server)"
proof -
  have "backend_up quiet_outside new_backend" using quiet_can_register by (simp add: can_register_def)
  moreover have "lower_table quiet_outside = lower_table (tn_outside (example_turn k))" "uuid_text quiet_outside = uuid_text (tn_outside (example_turn k))"
    "argon2_IDKey quiet_outside = argon2_IDKey (tn_outside (example_turn k))"
    by (simp_all add: example_turn_def)
  ultimately have "backend_up (tn_outside (example_turn k)) new_backend"
    using up_same [of quiet_outside] example_live by (simp add: same_world_def)
  then show ?thesis using quiet_can_register quiet_argon2 alice_name(2)
    by (auto simp: ready_def can_register_def example_turn_def empty_server_def demo_server_def new_backend_def empty_db_def cached_names_def
        max_bigint_def)
qed

lemma example_name: "NormalizeUsername (lower_table (tn_outside (example_turn k))) ''Alice'' = ''alice''" "short_text ''Alice''"
  using alice_name(1) by (simp add: example_turn_def alice_creds_def) code_simp

lemma example_tokens: "tokens (b_tables (sv_backend empty_server)) = []"
  by (simp add: empty_server_def demo_server_def new_backend_def empty_db_def)

theorem TestAuthFlows_passes_witness:
  "\<exists>sv'. TestAuthFlows wire_client wire_codec (\<lambda>i. example_turn ([1, 1, 2, 3, 3, 4] ! i)) ''Alice'' empty_server = Some sv'"
proof (rule TestAuthFlows_passes [OF wire_proto_ok])
  show "fresh_tokens (map (\<lambda>i. tn_outside (example_turn ([1, 1, 2, 3, 3, 4] ! i))) [0, 2, 3, 5])
      [example_token 1, example_token 2, example_token 3, example_token 4] (sv_backend empty_server)"
    using token_digests_differ by (simp add: fresh_tokens_def example_drawn example_tokens)
qed (use example_name example_ready example_world in auto)

theorem TestAccountDeletionFlow_passes_witness:
  "\<exists>sv'. TestAccountDeletionFlow wire_client wire_codec (\<lambda>i. example_turn ([1, 2, 2, 2, 2, 2, 3] ! i)) ''Alice'' empty_server = Some sv'"
proof (rule TestAccountDeletionFlow_passes [OF wire_proto_ok])
  show "fresh_tokens (map (\<lambda>i. tn_outside (example_turn ([1, 2, 2, 2, 2, 2, 3] ! i))) [0, 1, 6])
      [example_token 1, example_token 2, example_token 3] (sv_backend empty_server)"
    using token_digests_differ by (simp add: fresh_tokens_def example_drawn example_tokens)
  show "go_now (tn_outside (example_turn ([1, 2, 2, 2, 2, 2, 3] ! 2))) + AccountDeletionDelay \<noteq> zero_time"
    by (simp add: example_turn_def quiet_outside_def AccountDeletionDelay_def zero_time_def)
  show "registry_ok (sv_registry empty_server)" by (simp add: empty_server_def demo_server_def)
qed (use example_name example_ready example_world in auto)

section \<open>The surroundings of the tests\<close>

text \<open>
  The environment variables of the tests, the closing of a connection (what it asks of the QUIC
  library, whose operations are arguments), the check that the server has closed one, and the
  names the tests draw from the clock.
\<close>

definition getenvDefault :: "(string \<Rightarrow> string option) \<Rightarrow> string \<Rightarrow> string \<Rightarrow> string" where
  "getenvDefault env key fallback =
     (let v = (case env key of None \<Rightarrow> '''' | Some v \<Rightarrow> v) in
      if v = '''' then fallback else v)"

record 'c testClient =
  tc_conn :: "'c option"

definition testCloseCode :: uint64 where
  "testCloseCode = 0"

definition client_close :: "('c \<Rightarrow> uint64 \<Rightarrow> string \<Rightarrow> 'l \<Rightarrow> goerror option \<times> 'l) \<Rightarrow> 'c testClient option \<Rightarrow> 'l \<Rightarrow> 'l" where
  "client_close quic_close c st =
     (case c of
        None \<Rightarrow> st
      | Some tc \<Rightarrow>
          (case tc_conn tc of
             None \<Rightarrow> st
           | Some conn \<Rightarrow> snd (quic_close conn testCloseCode ''client test complete'' st)))"

text \<open>Whether the test goes on: \<open>OpenStreamSync\<close> must fail.\<close>

definition expectConnectionClosed :: "('c \<Rightarrow> goerror + 'm) \<Rightarrow> 'c \<Rightarrow> bool" where
  "expectConnectionClosed quic_open conn = (case quic_open conn of Inl err \<Rightarrow> True | Inr _ \<Rightarrow> False)"

definition decimal_int :: "int \<Rightarrow> string" where
  "decimal_int i = (if i < 0 then CHR ''-'' # decimal (nat (- i)) else decimal (nat i))"

definition authflow_username :: "int \<Rightarrow> string" where
  "authflow_username unixNano = ''authflow_'' @ decimal_int unixNano"

definition accdel_username :: "int \<Rightarrow> string" where
  "accdel_username unixNano = ''accdel_'' @ decimal_int unixNano"

lemma decimal_length: "n < 10 ^ Suc k \<Longrightarrow> length (decimal n) \<le> Suc k"
proof (induction k arbitrary: n)
  case (Suc k)
  then have "n div 10 < 10 ^ Suc k" by (simp add: less_mult_imp_div_less)
  then show ?case using Suc.IH [of "n div 10"] by (subst decimal.simps) simp
qed (subst decimal.simps, simp)

text \<open>
  A name drawn at any moment of the 64-bit range after 1970 is accepted as it is and short
  enough for the messages of the flows, so the flows hold for it; another moment draws another
  name.
\<close>

lemma drawn_names:
  assumes "0 \<le> now" "now < 2 ^ 63"
  shows "ValidUsername (authflow_username now)" "NormalizeUsername table (authflow_username now) = authflow_username now"
    "short_text (authflow_username now)"
    "ValidUsername (accdel_username now)" "NormalizeUsername table (accdel_username now) = accdel_username now"
    "short_text (accdel_username now)"
    "0 \<le> now' \<Longrightarrow> authflow_username now' = authflow_username now \<longleftrightarrow> now' = now"
    "0 \<le> now' \<Longrightarrow> accdel_username now' = accdel_username now \<longleftrightarrow> now' = now"
proof -
  have d: "decimal_int i = decimal (nat i)" if "0 \<le> i" for i using that by (simp add: decimal_int_def)
  have digit: "is_username_char c \<and> c \<noteq> CHR ''_''" if "c \<in> set (decimal n)" for c n
    using decimal_digits [of n] that by (force simp: list_all_iff is_digit_def is_username_char_def byte_val_def)
  have last: "last (decimal n) \<noteq> CHR ''_''" for n using digit [of "last (decimal n)" n] by simp
  have name: "ValidUsername (pre @ decimal n)" if "pre \<noteq> []" "hd pre \<noteq> CHR ''_''" "list_all is_username_char pre" for pre n
    using that last digit by (auto simp: ValidUsername_iff list_all_iff)
  have pre: "list_all is_username_char ''authflow_''" "list_all is_username_char ''accdel_''" by code_simp+
  show v: "ValidUsername (authflow_username now)" "ValidUsername (accdel_username now)"
    unfolding authflow_username_def accdel_username_def d [OF assms(1)] by (rule name, simp, simp, rule pre)+
  show "NormalizeUsername table (authflow_username now) = authflow_username now" "NormalizeUsername table (accdel_username now) = accdel_username now"
    using v by (simp_all add: Normalize_ValidUsername)
  have "nat now < 10 ^ Suc 18" using assms by (simp add: nat_less_iff)
  then have "length (decimal (nat now)) \<le> 19" using decimal_length [of "nat now" 18] by simp
  then show "short_text (authflow_username now)" "short_text (accdel_username now)"
    using v assms(1) by (auto simp: short_text_def authflow_username_def accdel_username_def d ValidUsername_iff list_all_iff dest: username_char_lower)
  show "authflow_username now' = authflow_username now \<longleftrightarrow> now' = now" "accdel_username now' = accdel_username now \<longleftrightarrow> now' = now" if "0 \<le> now'"
    using that assms(1) by (auto simp: authflow_username_def accdel_username_def d dest!: arg_cong [of _ _ digits_value] simp: digits_value_decimal)
qed

end
