(* ===== verification/Route_Tests.thy ===== *)
theory Route_Tests
  imports Wire
begin

text \<open>
  The route test of \<open>src/tests/router_test.go\<close>: three requests, each on a connection of its
  own, with the status, the message and the body the answer must have.
\<close>

record route_case =
  tc_op :: string
  tc_body :: "byte list option"
  tc_wantStatusCode :: PPStatusCode
  tc_wantMessage :: string
  tc_wantBody :: "byte list option"

definition route_cases :: "route_case list" where
  "route_cases =
     [\<lparr>tc_op = ''ping'', tc_body = None, tc_wantStatusCode = ErrCodeOK, tc_wantMessage = ''pong'', tc_wantBody = None\<rparr>,
      \<lparr>tc_op = '''', tc_body = Some (bytes_of_string ''ignored''), tc_wantStatusCode = ErrCodeBadRequest,
        tc_wantMessage = ''route op is required'', tc_wantBody = None\<rparr>,
      \<lparr>tc_op = ''echo-1'', tc_body = Some (bytes_of_string ''ignored''), tc_wantStatusCode = ErrCodeBadRequest,
        tc_wantMessage = ''invalid route'', tc_wantBody = None\<rparr>]"

text \<open>A subtest skips itself when the request fails; a request that never returns is a failure.\<close>

datatype test_outcome = Passed | Skipped | Failed

definition nil_slice :: "byte list option \<Rightarrow> byte list" where
  "nil_slice bs = (case bs of None \<Rightarrow> [] | Some b \<Rightarrow> b)"

definition run_case :: "client_codec \<Rightarrow> codec \<Rightarrow> turn \<Rightarrow> string \<Rightarrow> nat \<Rightarrow> route_case \<Rightarrow> server \<Rightarrow> test_outcome \<times> server" where
  "run_case cc cd t uid conn tc sv =
     (let (a, sv) = connectTestClient uid conn sv in
      case requestOnce cc (served_by cd a t) (Inr ()) (Inr fresh_stream) (tc_op tc) (tc_body tc) sv of
        None \<Rightarrow> (Failed, sv)
      | Some (Inl err, sv) \<Rightarrow> (Skipped, sv)
      | Some (Inr resp, sv) \<Rightarrow>
          if rs_StatusCode resp \<noteq> status_value (tc_wantStatusCode tc) then (Failed, sv)
          else if rs_Message resp \<noteq> tc_wantMessage tc then (Failed, sv)
          else if nil_slice (rs_Response resp) \<noteq> nil_slice (tc_wantBody tc) then (Failed, sv)
          else (Passed, sv))"

fun run_cases :: "client_codec \<Rightarrow> codec \<Rightarrow> turn \<Rightarrow> string \<Rightarrow> nat \<Rightarrow> route_case list \<Rightarrow> server \<Rightarrow> test_outcome list \<times> server" where
  "run_cases cc cd t uid conn [] sv = ([], sv)"
| "run_cases cc cd t uid conn (tc # tcs) sv =
     (case run_case cc cd t uid conn tc sv of
        (r, sv) \<Rightarrow> (case run_cases cc cd t uid (Suc conn) tcs sv of (rs, sv) \<Rightarrow> (r # rs, sv)))"

definition TestRoutes :: "client_codec \<Rightarrow> codec \<Rightarrow> turn \<Rightarrow> server \<Rightarrow> test_outcome list" where
  "TestRoutes cc cd t sv = fst (run_cases cc cd t ''c1'' 1 route_cases sv)"

section \<open>The routes answer\<close>

lemma ping_route: "''ping'' \<noteq> ''''" "isDotRoute ''ping''" "map_of (main_routes w cd) ''ping'' = Some ([], PingHandler cd)"
  using main_names by (simp_all add: main_routes_def)

lemma route_texts: "TrimSpace ''ping'' = ''ping''" "TrimSpace '''' = ''''" "TrimSpace ''echo-1'' = ''echo-1''" "\<not> isDotRoute ''echo-1''"
  "list_all short_text [''ping'', '''', ''echo-1'', ''pong'', ''route op is required'', ''invalid route'']"
  by code_simp+

lemma ping_sends: "handler_sends cd (PingHandler cd) c b g ErrCodeOK ''pong'' None b g"
  using SendResponse_open [of _ _ cd ErrCodeOK "''pong''" None] by (auto simp: handler_sends_def PingHandler_def SendStatus_def)

lemma run_case_passes:
  assumes "\<And>a sv. \<exists>sv'. client_exchange cc (served_by cd a t) (tc_op tc) (tc_body tc) fresh_stream sv =
      Some (Inr \<lparr>rs_StatusCode = status_value (tc_wantStatusCode tc), rs_Message = tc_wantMessage tc, rs_Response = tc_wantBody tc\<rparr>, sv')"
  shows "fst (run_case cc cd t uid conn tc sv) = Passed"
proof -
  obtain a sv1 where c: "connectTestClient uid conn sv = (a, sv1)" by (meson surj_pair)
  obtain sv2 where "client_exchange cc (served_by cd a t) (tc_op tc) (tc_body tc) fresh_stream sv1 =
      Some (Inr \<lparr>rs_StatusCode = status_value (tc_wantStatusCode tc), rs_Message = tc_wantMessage tc, rs_Response = tc_wantBody tc\<rparr>, sv2)"
    using assms by blast
  then show ?thesis using c by (simp add: run_case_def requestOnce_def)
qed

text \<open>
  The route test passes on every server and for every chunking: \<open>ping\<close> is answered with
  \<open>pong\<close>, a missing and an ill-formed operation are refused with their messages, and none of the
  three answers has a body, provided protobuf carries the three requests and short answers.
\<close>

theorem TestRoutes_passes:
  assumes "list_all (\<lambda>tc. travels cc cd \<lparr>re_Op = tc_op tc, re_Request = tc_body tc\<rparr>) route_cases" "proto_ok cc cd"
  shows "TestRoutes cc cd t sv = [Passed, Passed, Passed]"
proof -
  let ?p = "\<lambda>tc. \<forall>uid conn sv. fst (run_case cc cd t uid conn tc sv) = Passed"
  have short: "short_text ''pong''" "short_text ''route op is required''" "short_text ''invalid route''" using route_texts(5) by simp_all
  have e: "travels cc cd \<lparr>re_Op = ''ping'', re_Request = None\<rparr>" "travels cc cd \<lparr>re_Op = '''', re_Request = Some (bytes_of_string ''ignored'')\<rparr>"
    "travels cc cd \<lparr>re_Op = ''echo-1'', re_Request = Some (bytes_of_string ''ignored'')\<rparr>"
    using assms(1) by (simp_all add: route_cases_def)
  have r: "returns cc cd code msg None" if "short_text msg" for code msg using assms(2) that by (simp add: proto_ok_def)
  have ping: "handler_sends cd (if [] = [] then PingHandler cd else guarded (tn_outside t) cd (PingHandler cd)) c b g ErrCodeOK ''pong'' None b g" for c b g
    by (simp add: ping_sends)
  have 0: "\<exists>sv'. client_exchange cc (served_by cd a t) ''ping'' None fresh_stream sv =
      Some (Inr \<lparr>rs_StatusCode = status_value ErrCodeOK, rs_Message = ''pong'', rs_Response = None\<rparr>, sv')" for a sv
    using route_reply [OF e(1) route_texts(1) ping_route ping r] short by blast
  have 1: "\<exists>sv'. client_exchange cc (served_by cd a t) '''' (Some (bytes_of_string ''ignored'')) fresh_stream sv =
      Some (Inr \<lparr>rs_StatusCode = status_value ErrCodeBadRequest, rs_Message = ''route op is required'', rs_Response = None\<rparr>, sv')" for a sv
    using refused_reply [OF e(2) r, of "''route op is required''"] short route_texts(2) by blast
  have 2: "\<exists>sv'. client_exchange cc (served_by cd a t) ''echo-1'' (Some (bytes_of_string ''ignored'')) fresh_stream sv =
      Some (Inr \<lparr>rs_StatusCode = status_value ErrCodeBadRequest, rs_Message = ''invalid route'', rs_Response = None\<rparr>, sv')" for a sv
    using refused_reply [OF e(3) r, of "''invalid route''"] short route_texts(3,4) by fastforce
  have "?p (route_cases ! 0)" using 0 by (intro allI run_case_passes) (simp add: route_cases_def)
  moreover have "?p (route_cases ! 1)" using 1 by (intro allI run_case_passes) (simp add: route_cases_def)
  moreover have "?p (route_cases ! 2)" using 2 by (intro allI run_case_passes) (simp add: route_cases_def)
  ultimately have p: "?p tc" if "tc \<in> set route_cases" for tc
    using that by (auto simp: route_cases_def)
  have "fst (run_cases cc cd t uid conn tcs sv) = map (\<lambda>_. Passed) tcs" if "set tcs \<subseteq> set route_cases" for uid conn tcs sv
    using that
  proof (induction tcs arbitrary: conn sv)
    case (Cons tc tcs)
    then show ?case using p [of tc] by (auto split: prod.split) (metis fst_conv)+
  qed simp
  from this [of route_cases] show ?thesis by (simp add: TestRoutes_def) (simp add: route_cases_def)
qed

theorem TestRoutes_passes_witness:
  "TestRoutes wire_client wire_codec \<lparr>tn_outside = quiet_outside, tn_pieces = [0], tn_answer = [3, 1]\<rparr>
     (demo_server new_backend empty_registry fresh_stream) = [Passed, Passed, Passed]"
proof (rule TestRoutes_passes [OF _ wire_proto_ok])
  show "list_all (\<lambda>tc. travels wire_client wire_codec \<lparr>re_Op = tc_op tc, re_Request = tc_body tc\<rparr>) route_cases"
    using route_texts(5) by (auto simp: route_cases_def bytes_of_string_def intro!: wire_travels)
qed

end
