(* ===== verification/Spec2Isabelle.thy ===== *)
theory Spec2Isabelle
  imports Startup Races Locking Worker Router_Tree Flows Route_Tests
begin

text \<open>
  A model of the PPgram server, a Go program that serves a messenger's accounts over QUIC, and
  the theorems that make it correct.

  \<^bold>\<open>The program.\<close> \<open>main.go\<close> reads the configuration, opens PostgreSQL and Redis,
  registers six routes, starts a worker that erases accounts whose deletion is due, and accepts
  connections. A connection gets a device session; each of its streams carries one request, a
  frame with a protobuf envelope that names a route. The router checks the name, runs the
  middleware chain and the handler; handlers call the account service, which keeps users, session
  tokens and pending deletions in PostgreSQL and a copy of the user names in Redis; the session
  registry remembers which sessions belong to which user, so that a deletion can cut them off.

  \<^bold>\<open>The theories\<close>, in the order of the imports, with the files of \<open>src/\<close> they model:

  \<^item> \<open>Prelude\<close>: machine types, tables as lists with unique keys, the collections of rewrite
    rules, and the locales \<open>step_invariant\<close> and \<open>reachable_invariant\<close> that the state
    machines of the development interpret.
  \<^item> \<open>Go_Strings\<close>, \<open>Go_Codecs\<close>, \<open>Sha256\<close>: what the source uses of \<open>strings\<close>,
    \<open>unicode/utf8\<close>, \<open>encoding/hex\<close>, \<open>encoding/base64\<close>, \<open>encoding/binary\<close>,
    \<open>fmt\<close>, \<open>net\<close> and \<open>crypto/sha256\<close>. A Go string is a list of bytes. The locale
    \<open>partial_inverse\<close> gives every encoding its injectivity.
  \<^item> \<open>Errors\<close> (\<open>server/core/errors.go\<close> and the error values of all packages),
    \<open>Usernames\<close> (\<open>utils/\<close>), \<open>Outside\<close>: the errors as one datatype with
    \<open>errors.Is\<close>; everything a request gets from outside the program as one record, with a fault
    for every exchange with a store: delivered, lost before, or lost after it took effect.
  \<^item> \<open>Cache\<close> (\<open>cache/\<close>) and \<open>Database\<close> (\<open>database/\<close>): the Redis keys as a map, the
    three tables as lists of rows with their constraints, one definition for each repository
    method and one for each SQL statement. The locale \<open>name_set\<close> is the contract of the cache.
  \<^item> \<open>Password\<close>, \<open>Auth\<close>, \<open>Deletion\<close> (\<open>server/auth/\<close>): password records, the
    account service and the deletion worker, over a \<open>backend\<close> (both stores).
  \<^item> \<open>Session\<close> (\<open>server/core/session/session.go\<close>): an explicit store of sessions, user
    states and channels, in which sessions alias; one definition for each locked section.
  \<^item> \<open>Transport\<close> (\<open>server/transport/\<close>): frames over an abstract reader and writer, and
    over a scripted stream that splits, delays and breaks off arbitrarily.
  \<^item> \<open>Routes\<close>, \<open>Context\<close>, \<open>Handlers\<close> (\<open>server/router/\<close>, \<open>server/handlers/\<close>,
    \<open>server/middleware/\<close>, \<open>server/protomsg/\<close>): route names and registration, the request
    contexts, the middleware chain, \<open>Handle\<close>, the handlers, and the routes of \<open>main\<close>, over
    a \<open>server\<close> (backend, registry and the stream of the request). The protobuf runtime is
    the record \<open>codec\<close> of marshalling functions.
  \<^item> \<open>Requests\<close>: whole requests, from the bytes on the stream to the bytes of the answer.
  \<^item> \<open>Server\<close>: \<open>ServeConnection\<close>, the accept loop, and the server as a state machine.
  \<^item> \<open>Config\<close> (\<open>config/config.go\<close>) and \<open>Startup\<close> (\<open>main.go\<close>,
    \<open>server/logging/\<close>, \<open>server/transport/listener.go\<close>): the configuration with the
    PostgreSQL URL, the start, the panel and the shutdown.
  \<^item> \<open>Goroutines\<close>: programs that make one atomic access to a shared state at a time, with a
    condition on which an access waits, and pools of goroutines that run such programs in any
    interleaving; what every access keeps, every pool keeps, and no pool runs forever.
  \<^item> \<open>Interleaving\<close> (\<open>server/auth/\<close> again): the calls of the account service and the round
    of the worker as programs that make one exchange with a store at a time. Each program, run
    alone, is the function of \<open>Auth\<close> or \<open>Deletion\<close> (\<open>run_prog_of\<close>).
  \<^item> \<open>Concurrency\<close> (\<open>server/handlers/\<close>, \<open>server/middleware/\<close> and
    \<open>server/core/session/session.go\<close> again): whole handlers as programs on a \<open>world\<close>, the
    stores, the registry and the mutex \<open>userStatesInitMu\<close>, which is held across a database
    call. A handler that nothing interrupts is the function of \<open>Handlers\<close>.
  \<^item> \<open>Races\<close>: a login and a deletion of the same account, interleaved.
  \<^item> \<open>Locking\<close>: what \<open>userStatesInitMu\<close> guards, the double-checked creation of a user's state.
  \<^item> \<open>Router_Tree\<close> (\<open>server/router/router.go\<close> again): routers as objects of a heap with a
    pointer to the root, refined to the one table that \<open>Routes\<close> and \<open>Handlers\<close> use.
  \<^item> \<open>Answers\<close>: every request that arrives gets exactly one response.
  \<^item> \<open>Worker\<close> (\<open>server/auth/delete.go\<close> again): the loop of the deletion worker over many
    rounds, with the order in which it takes the deadlines.
  \<^item> \<open>Client\<close> (\<open>tests/common.go\<close>), \<open>Accounts\<close>, \<open>Flows\<close>, \<open>Route_Tests\<close>
    (\<open>tests/auth_test.go\<close>, \<open>tests/account_deletion_test.go\<close>, \<open>tests/router_test.go\<close>): the client of the repository with its own framing,
    composed with \<open>Handle\<close> through the bytes on the stream; what holds of one account between
    the requests of its owner; and the integration tests as theorems.
  \<^item> \<open>Wire\<close> and \<open>Digests\<close>: the proto3 wire format with the field numbers of
    \<open>server/protomsg\<close> as an instance of the protobuf parameters, and four SHA-256 digests
    evaluated by the kernel. They show that the hypotheses of the flows can hold.

  \<^bold>\<open>What is shown.\<close> For the stores: the constraints of the tables are an invariant of any
  interleaving of statements under any faults, and what each statement returns and changes;
  concurrent workers never claim the same deletion. For the accounts: a registered user can log
  in and nobody else can, tokens are replaced at every use, a pending deletion blocks every
  login and cancelling restores it, a round of the worker equals a specification of the
  erasure, and rounds of 50 catch up with any backlog. For the sessions: no channel is closed twice in any interleaving of the locked
  sections, what invalidation reaches and, with two counterexamples, what it does not. For the
  transport: frames survive any chunking, a short frame is never accepted, an interrupted
  write leaves a prefix. For the server: every request is answered or closed, whatever its
  bytes; deletions are scheduled only through an authenticated session and a correct password;
  the invariant of all parts together holds in every reachable state; every connection is served
  to its end in any order of its requests; the program starts and stops in order. For the
  encodings: password records, frames, update envelopes and the PostgreSQL URL read back as
  written. For the whole: the authentication flow and the deletion flow of the integration tests
  succeed for every name, every state of the stores that leaves the name free, all random tokens
  with different hashes and every chunking of the bytes; the hypothesis on the protobuf library,
  that short ASCII messages arrive as sent, is proved of the wire format.

  \<^bold>\<open>Termination and bounds.\<close> \<open>Next\<close>, which middleware may call again, takes as fuel the
  length of the chain plus one; \<open>Handle_returns\<close> shows that this is enough and that more
  changes nothing. Reading and copying loops end because a scripted stream holds finitely many
  bytes and a call that moves none ends with an error. Frame lengths are 32-bit words, timestamps
  and identifiers of rows unbounded or checked against their SQL type where the code depends on it.

  \<^bold>\<open>Concurrency.\<close> In \<open>Server\<close> a request, the opening of a connection and a round of the
  worker are single steps. The interleavings inside them are modelled where the shared state
  is: single SQL statements in \<open>Database\<close>, locked sections in \<open>Session\<close>, single exchanges of
  whole requests with the stores in \<open>Interleaving\<close>, and single accesses to the stores, the
  registry and the mutex in \<open>Concurrency\<close>. Every run is bounded, the constraints of the tables
  and the consistency of the registry hold throughout, the mutex causes no deadlock, every
  request is answered, the state of a user is never replaced by a second one, and at most one of
  several registrations of a name succeeds. The races
  the code has are theorems: logging in against invalidation and against a deletion, a second
  login of a device, and two uses of one session token.

  \<^bold>\<open>Simplifications.\<close> A peer that stays silent forever blocks a read for as long; a scripted
  stream delivers or ends. A stream that is closed without having been opened, and a password
  record with zero Argon2 iterations or lanes, would panic; neither occurs in the program, which
  builds streams from opened ones and records with three iterations and two lanes. PostgreSQL's
  refusal of texts with zero bytes is one of the faults of a statement: an error, and nothing
  changed. The tests stop at the first step that fails, where the Go runner would go on to the next;
  they assume that dialling succeeds. Where \<open>Session\<close> merges accesses that are separate in the code
  (the creation of a user's state, the detaching of sessions), \<open>Concurrency\<close> has them apart.

  \<^bold>\<open>Not modelled.\<close> The generated reflection code of \<open>server/protomsg\<close> beyond the fields of
  its messages, the text written to logs, TLS and QUIC themselves (their results are arguments),
  the cancellation of contexts inside a database call (it is one of the faults), the texts of the
  errors (handlers compare them by identity only), and the deployment files.
\<close>

end
